(* ===== verification/Prelude.thy ===== *)
theory Prelude
  imports Main "HOL-Library.Word" "HOL-Library.While_Combinator"
begin

unbundle bit_operations_syntax

text \<open>
  What every component shares: the machine integers of the Rust source, \<open>Result\<close> as a sum with the
  error on the left, \<open>Poll\<close>, raw pointers as addresses with 0 for null (\<open>NonNull::new\<close>), the store
  of boxed values behind \<open>Box::into_raw\<close> and \<open>Box::from_raw\<close> with the interface \<open>raw_store\<close> its
  users rely on, and the facts about \<open>while\<close> loops and option chains the component proofs share.
\<close>

section \<open>Collections of facts\<close>

named_theorems ffi_simps \<open>unfoldings of the calls through the foreign interface\<close>
named_theorems store_simps \<open>facts about the store of boxed values\<close>

section \<open>Machine integers\<close>

type_synonym u8 = "8 word"
type_synonym u16 = "16 word"
type_synonym u32 = "32 word"
type_synonym u64 = "64 word"
type_synonym usize = "64 word"
type_synonym i32 = "32 word"

text \<open>\<open>u32::MAX\<close>.\<close>

abbreviation (input) u32_max :: u32 where
  "u32_max \<equiv> - 1"

text \<open>A signed 32-bit value is a word read with \<open>sint\<close>; negation wraps, as in a release build.\<close>

definition i32_neg :: "i32 \<Rightarrow> bool" where
  "i32_neg x \<longleftrightarrow> sint x < 0"

lemma sint_i32_bounds: "- (2 ^ 31) \<le> sint (x :: i32)" "sint (x :: i32) < 2 ^ 31"
  using sint_greater_eq [of x] sint_lt [of x] by simp_all

lemma sint_uminus_i32:
  assumes "sint (x :: i32) \<noteq> - (2 ^ 31)"
  shows "sint (- x) = - sint x"
proof -
  from assms sint_i32_bounds [of x] have "- (2 ^ 31) < sint x" "sint x < 2 ^ 31" by linarith+
  then have "signed_take_bit 31 (- sint x) = - sint x"
    by (intro signed_take_bit_int_eq_self) simp_all
  moreover have "sint (- x) = signed_take_bit 31 (- sint x)"
    using sint_word_ariths(4) [of x] by simp
  ultimately show ?thesis by simp
qed

lemma unat_ucast_u64 [simp]: "unat (ucast (x :: u32) :: u64) = unat x"
  by transfer (simp add: take_bit_eq_mod)

text \<open>A bit field cut out with a shift and a mask, in arithmetic.\<close>

lemma unat_and_mask: "unat ((x :: 'a::len word) AND mask n) = unat x mod 2 ^ n"
proof -
  have "x AND mask n = take_bit n x" by (simp only: take_bit_eq_mask)
  moreover have "unat (take_bit n x) = take_bit n (unat x)" by (rule unsigned_take_bit_eq)
  moreover have "take_bit n (unat x) = unat x mod 2 ^ n" by (rule take_bit_eq_mod)
  ultimately show ?thesis by (simp only:)
qed

lemma unat_drop_bit: "unat (drop_bit n (x :: 'a::len word)) = unat x div 2 ^ n"
  by (simp only: unsigned_drop_bit_eq) (simp add: drop_bit_eq_div take_bit_eq_mod)

lemma unat_field: "unat (drop_bit n (x :: 'a::len word) AND mask k) = unat x div 2 ^ n mod 2 ^ k"
  by (simp only: unat_and_mask unat_drop_bit)

lemma ucast_of_nat: "ucast x = (of_nat (unat x) :: 'b::len word)" for x :: "'a::len word"
  by simp

section \<open>Results, polls and options\<close>

type_synonym ('e, 'a) result = "'e + 'a"

datatype 'a poll = Ready 'a | Pending

definition ok_or :: "'a option \<Rightarrow> 'e \<Rightarrow> ('e, 'a) result" where
  "ok_or x e = (case x of None \<Rightarrow> Inl e | Some a \<Rightarrow> Inr a)"

lemma ok_or_simps [simp]: "ok_or None e = Inl e" "ok_or (Some a) e = Inr a"
  by (simp_all add: ok_or_def)

definition unwrap_or :: "'a option \<Rightarrow> 'a \<Rightarrow> 'a" where
  "unwrap_or x d = (case x of None \<Rightarrow> d | Some a \<Rightarrow> a)"

lemma unwrap_or_simps [simp]: "unwrap_or None d = d" "unwrap_or (Some a) d = a"
  by (simp_all add: unwrap_or_def)

text \<open>\<open>Option<Result<T>>::transpose\<close> after a fallible \<open>map\<close>.\<close>

definition transpose_map :: "('a \<Rightarrow> ('e, 'b) result) \<Rightarrow> 'a option \<Rightarrow> ('e, 'b option) result" where
  "transpose_map f x = (case x of None \<Rightarrow> Inr None
     | Some a \<Rightarrow> (case f a of Inl e \<Rightarrow> Inl e | Inr b \<Rightarrow> Inr (Some b)))"

lemma transpose_map_simps [simp]:
  "transpose_map f None = Inr None"
  "f a = Inl e \<Longrightarrow> transpose_map f (Some a) = Inl e"
  "f a = Inr b \<Longrightarrow> transpose_map f (Some a) = Inr (Some b)"
  by (simp_all add: transpose_map_def)

section \<open>Raw pointers\<close>

type_synonym ptr = nat

abbreviation (input) null :: ptr where
  "null \<equiv> 0"

definition nonnull :: "ptr \<Rightarrow> ptr option" where
  "nonnull p = (if p = null then None else Some p)"

lemma nonnull_simps [simp]: "nonnull 0 = None" "p \<noteq> 0 \<Longrightarrow> nonnull p = Some p"
  by (simp_all add: nonnull_def)

lemma nonnull_eq_Some [simp]: "nonnull p = Some q \<longleftrightarrow> p = q \<and> p \<noteq> null"
  by (auto simp: nonnull_def)

lemma nonnull_eq_None [simp]: "nonnull p = None \<longleftrightarrow> p = null"
  by (auto simp: nonnull_def)

section \<open>Boxed values behind raw pointers\<close>

text \<open>
  \<open>Box::into_raw\<close> moves a value to a fresh non-null address and \<open>Box::from_raw\<close> takes it back.
  Calling \<open>from_raw\<close> on an address that holds no box is undefined behaviour, the value \<open>None\<close>.
\<close>

record 'b boxes =
  next_box :: ptr
  cells :: "ptr \<rightharpoonup> 'b"

definition no_boxes :: "'b boxes" where
  "no_boxes = \<lparr>next_box = 1, cells = Map.empty\<rparr>"

definition box_into_raw :: "'b \<Rightarrow> 'b boxes \<Rightarrow> ptr \<times> 'b boxes" where
  "box_into_raw v h =
     (next_box h, h\<lparr>next_box := Suc (next_box h), cells := (cells h)(next_box h \<mapsto> v)\<rparr>)"

definition box_from_raw :: "ptr \<Rightarrow> 'b boxes \<Rightarrow> ('b \<times> 'b boxes) option" where
  "box_from_raw p h =
     (case cells h p of None \<Rightarrow> None | Some v \<Rightarrow> Some (v, h\<lparr>cells := (cells h)(p := None)\<rparr>))"

definition boxes_ok :: "'b boxes \<Rightarrow> bool" where
  "boxes_ok h \<longleftrightarrow> 0 < next_box h \<and> (\<forall>p \<in> dom (cells h). 0 < p \<and> p < next_box h)"

lemma boxes_ok_no_boxes [simp, intro]: "boxes_ok no_boxes"
  by (simp add: boxes_ok_def no_boxes_def)

text \<open>The interface the users of raw pointers rely on.\<close>

locale raw_store =
  fixes into_raw :: "'b \<Rightarrow> 'h \<Rightarrow> ptr \<times> 'h"
    and from_raw :: "ptr \<Rightarrow> 'h \<Rightarrow> ('b \<times> 'h) option"
    and contents :: "'h \<Rightarrow> ptr \<rightharpoonup> 'b"
    and ok :: "'h \<Rightarrow> bool"
  assumes into_contents: "into_raw v h = (p, h') \<Longrightarrow> contents h' = (contents h)(p \<mapsto> v)"
    and into_fresh: "ok h \<Longrightarrow> into_raw v h = (p, h') \<Longrightarrow> p \<noteq> null \<and> contents h p = None"
    and into_ok: "ok h \<Longrightarrow> into_raw v h = (p, h') \<Longrightarrow> ok h'"
    and from_Some: "contents h p = Some v \<Longrightarrow>
      \<exists>h'. from_raw p h = Some (v, h') \<and> contents h' = (contents h)(p := None)"
    and from_None: "contents h p = None \<Longrightarrow> from_raw p h = None"
    and from_ok: "ok h \<Longrightarrow> from_raw p h = Some (v, h') \<Longrightarrow> ok h'"
begin

lemma from_contents: "from_raw p h = Some (v, h') \<Longrightarrow>
    contents h p = Some v \<and> contents h' = (contents h)(p := None)"
  by (cases "contents h p") (auto dest: from_None from_Some)

lemma round_trip:
  assumes "ok h" "into_raw v h = (p, h')"
  shows "\<exists>h''. from_raw p h' = Some (v, h'') \<and> contents h'' = contents h"
proof -
  from assms have c: "contents h' = (contents h)(p \<mapsto> v)" "contents h p = None"
    by (auto dest: into_contents into_fresh)
  then obtain h'' where "from_raw p h' = Some (v, h'')" "contents h'' = (contents h')(p := None)"
    using from_Some [of h' p v] by auto
  with c show ?thesis by (auto simp: fun_upd_idem)
qed

lemma no_double_take: "from_raw p h = Some (v, h') \<Longrightarrow> from_raw p h' = None"
  by (rule from_None) (auto dest: from_contents)

lemma into_other: "ok h \<Longrightarrow> into_raw v h = (p, h') \<Longrightarrow> contents h q = Some w \<Longrightarrow>
    p \<noteq> q \<and> contents h' q = Some w"
  by (metis fun_upd_other into_contents into_fresh option.distinct(1))

end

interpretation box: raw_store box_into_raw box_from_raw cells boxes_ok
  by unfold_locales
    (auto simp: box_into_raw_def box_from_raw_def boxes_ok_def less_Suc_eq dom_def
       split: option.splits if_splits)

lemma box_into_raw_eq [store_simps]:
  "box_into_raw v h = (p, h') \<longleftrightarrow> p = next_box h \<and>
     h' = h\<lparr>next_box := Suc (next_box h), cells := (cells h)(next_box h \<mapsto> v)\<rparr>"
  by (auto simp: box_into_raw_def)

lemma box_from_raw_eq [store_simps]:
  "box_from_raw p h = Some (v, h') \<longleftrightarrow> cells h p = Some v \<and> h' = h\<lparr>cells := (cells h)(p := None)\<rparr>"
  by (auto simp: box_from_raw_def split: option.splits)

lemma box_from_raw_None [store_simps]: "box_from_raw p h = None \<longleftrightarrow> cells h p = None"
  by (auto simp: box_from_raw_def split: option.splits)

section \<open>Loops\<close>

text \<open>A loop whose guard first fails after \<open>n\<close> rounds makes exactly \<open>n\<close> rounds.\<close>

lemma while_option_funpow:
  assumes "\<And>k. k < n \<Longrightarrow> b ((c ^^ k) s)" "\<not> b ((c ^^ n) s)"
  shows "while_option b c s = Some ((c ^^ n) s)"
proof -
  have "(LEAST k. \<not> b ((c ^^ k) s)) = n"
    using assms by (intro Least_equality) (auto simp: not_le [symmetric])
  with assms(2) show ?thesis by (auto simp: while_option_def)
qed

lemma while_option_None: "(\<And>k. b ((c ^^ k) s)) \<Longrightarrow> while_option b c s = None"
  by (auto simp: while_option_def)

end
