(* ===== verification/RustStr.thy ===== *)
theory RustStr
  imports Prelude
begin

text \<open>
  The parts of the Rust standard library's strings and paths the program uses. A \<open>str\<close> is its UTF-8
  bytes, one \<open>char\<close> per byte. \<open>split_whitespace\<close> knows every character with the Unicode property
  White_Space by its encoding, \<open>String::from_utf8_lossy\<close> and \<open>CStr::to_str\<close> decode by Rust's
  table of well-formed sequences, \<open>CString::new\<close> refuses an interior NUL, \<open>Path::starts_with\<close>
  compares components and \<open>Path::join\<close> adds one separator where it is needed.
\<close>

section \<open>Prefixes, suffixes, substrings\<close>

fun strip_prefix :: "string \<Rightarrow> string \<Rightarrow> string option" where
  "strip_prefix [] s = Some s"
| "strip_prefix (p # ps) [] = None"
| "strip_prefix (p # ps) (c # cs) = (if p = c then strip_prefix ps cs else None)"

definition strip_suffix :: "string \<Rightarrow> string \<Rightarrow> string option" where
  "strip_suffix p s = map_option rev (strip_prefix (rev p) (rev s))"

fun str_contains :: "string \<Rightarrow> string \<Rightarrow> bool" where
  "str_contains [] p = (p = [])"
| "str_contains (c # cs) p = (strip_prefix p (c # cs) \<noteq> None \<or> str_contains cs p)"

fun split_once :: "char \<Rightarrow> string \<Rightarrow> (string \<times> string) option" where
  "split_once d [] = None"
| "split_once d (c # cs) =
     (if c = d then Some ([], cs)
      else map_option (\<lambda>(a, b). (c # a, b)) (split_once d cs))"

lemma strip_prefix_eq_Some [simp]: "strip_prefix p s = Some r \<longleftrightarrow> s = p @ r"
  by (induction p s rule: strip_prefix.induct) auto

lemma strip_prefix_append [simp]: "strip_prefix p (p @ r) = Some r"
  by simp

lemma strip_prefix_eq_None: "strip_prefix p s = None \<longleftrightarrow> (\<forall>r. s \<noteq> p @ r)"
  by (metis not_Some_eq strip_prefix_eq_Some)

lemma strip_suffix_eq_Some [simp]: "strip_suffix p s = Some r \<longleftrightarrow> s = r @ p"
  by (auto simp: strip_suffix_def rev_swap)

lemma strip_suffix_append [simp]: "strip_suffix p (r @ p) = Some r"
  by simp

lemma str_contains_iff: "str_contains s p \<longleftrightarrow> (\<exists>a b. s = a @ p @ b)"
proof (induction s)
  case Nil
  then show ?case by auto
next
  case (Cons c s)
  have "(\<exists>a b. c # s = a @ p @ b) \<longleftrightarrow> (\<exists>b. c # s = p @ b) \<or> (\<exists>a b. s = a @ p @ b)"
    by (metis append_Cons append_Nil append_eq_Cons_conv)
  with Cons show ?case
    by (metis not_Some_eq str_contains.simps(2) strip_prefix_eq_Some)
qed

lemma split_once_append: "d \<notin> set a \<Longrightarrow> split_once d (a @ d # b) = Some (a, b)"
  by (induction a) auto

lemma split_once_None: "split_once d s = None \<longleftrightarrow> d \<notin> set s"
  by (induction s) auto

lemma split_once_Some: "split_once d s = Some (a, b) \<longleftrightarrow> s = a @ d # b \<and> d \<notin> set a"
proof
  show "split_once d s = Some (a, b) \<Longrightarrow> s = a @ d # b \<and> d \<notin> set a"
    by (induction s arbitrary: a b) (auto split: if_splits)
qed (auto simp: split_once_append)

section \<open>Whitespace\<close>

text \<open>
  The number of bytes of the whitespace character a string starts with, 0 if it starts with none:
  U+0009 to U+000D, U+0020, U+0085, U+00A0, U+1680, U+2000 to U+200A, U+2028, U+2029, U+202F,
  U+205F and U+3000.
\<close>

fun ws_len :: "string \<Rightarrow> nat" where
  "ws_len [] = 0"
| "ws_len (c # s) =
     (if c \<in> {CHR 0x09, CHR 0x0A, CHR 0x0B, CHR 0x0C, CHR 0x0D, CHR 0x20} then 1
      else if c = CHR 0xC2 then
        (case s of d # _ \<Rightarrow> if d \<in> {CHR 0x85, CHR 0xA0} then 2 else 0 | [] \<Rightarrow> 0)
      else if c = CHR 0xE1 then
        (case s of d # e # _ \<Rightarrow> if d = CHR 0x9A \<and> e = CHR 0x80 then 3 else 0 | _ \<Rightarrow> 0)
      else if c = CHR 0xE2 then
        (case s of d # e # _ \<Rightarrow>
             if d = CHR 0x80 \<and> (128 \<le> (of_char e :: nat) \<and> (of_char e :: nat) \<le> 138
                  \<or> e \<in> {CHR 0xA8, CHR 0xA9, CHR 0xAF}) then 3
             else if d = CHR 0x81 \<and> e = CHR 0x9F then 3 else 0
         | _ \<Rightarrow> 0)
      else if c = CHR 0xE3 then
        (case s of d # e # _ \<Rightarrow> if d = CHR 0x80 \<and> e = CHR 0x80 then 3 else 0 | _ \<Rightarrow> 0)
      else 0)"

definition flush :: "string \<Rightarrow> string list" where
  "flush acc = (if acc = [] then [] else [acc])"

function split_ws_from :: "string \<Rightarrow> string \<Rightarrow> string list" where
  "split_ws_from acc [] = flush acc"
| "split_ws_from acc (c # s) =
     (if ws_len (c # s) = 0 then split_ws_from (acc @ [c]) s
      else flush acc @ split_ws_from [] (drop (ws_len (c # s)) (c # s)))"
  by pat_completeness auto
termination
  by (relation "measure (\<lambda>(acc, s). length s)") auto

declare split_ws_from.simps(2) [simp del]

definition split_whitespace :: "string \<Rightarrow> string list" where
  "split_whitespace s = split_ws_from [] s"

text \<open>A byte that no whitespace character starts with.\<close>

definition plain_char :: "char \<Rightarrow> bool" where
  "plain_char c \<longleftrightarrow> c \<notin> {CHR 0x09, CHR 0x0A, CHR 0x0B, CHR 0x0C, CHR 0x0D, CHR 0x20,
     CHR 0xC2, CHR 0xE1, CHR 0xE2, CHR 0xE3}"

definition plain_token :: "string \<Rightarrow> bool" where
  "plain_token t \<longleftrightarrow> t \<noteq> [] \<and> list_all plain_char t"

fun unwords :: "string list \<Rightarrow> string" where
  "unwords [] = []"
| "unwords [t] = t"
| "unwords (t # ts) = t @ CHR 0x20 # unwords ts"

lemma plain_ws_len: "plain_char c \<Longrightarrow> ws_len (c # s) = 0"
  by (simp add: plain_char_def)

lemma split_ws_plain: "list_all plain_char t \<Longrightarrow> split_ws_from acc (t @ s) = split_ws_from (acc @ t) s"
  by (induction t arbitrary: acc) (auto simp: plain_ws_len split_ws_from.simps(2) simp del: ws_len.simps)

lemma split_ws_space: "split_ws_from acc (CHR 0x20 # s) = flush acc @ split_ws_from [] s"
  by (simp add: split_ws_from.simps(2))

text \<open>Joining plain tokens with single spaces is undone by \<open>split_whitespace\<close>.\<close>

lemma split_whitespace_unwords:
  "list_all plain_token ts \<Longrightarrow> split_whitespace (unwords ts) = ts"
proof (induction ts rule: unwords.induct)
  case 1
  then show ?case by (simp add: split_whitespace_def flush_def)
next
  case (2 t)
  then show ?case
    using split_ws_plain [of t "[]" "[]"] by (simp add: split_whitespace_def flush_def plain_token_def)
next
  case (3 t u us)
  then show ?case
    using split_ws_plain [of t "[]" "CHR 0x20 # unwords (u # us)"]
    by (simp add: split_whitespace_def flush_def plain_token_def split_ws_space)
qed

text \<open>A space separates: nothing that starts before it reaches beyond it.\<close>

lemma ws_len_le: "ws_len s \<le> length s"
  by (cases s) (auto split: list.splits)

lemma ws_len_space: "c \<noteq> CHR 0x20 \<or> s \<noteq> [] \<Longrightarrow> ws_len ((c # s) @ CHR 0x20 # u) = ws_len (c # s)"
  by (auto split: list.splits simp: Cons_eq_append_conv append_eq_Cons_conv)

lemma split_ws_from_space:
  "split_ws_from acc (s @ CHR 0x20 # u) = split_ws_from acc s @ split_ws_from [] u"
proof (induction acc s rule: split_ws_from.induct)
  case (1 acc)
  show ?case by (simp add: split_ws_space)
next
  case (2 acc c s)
  have "ws_len ((c # s) @ CHR 0x20 # u) = ws_len (c # s)"
    by (cases "c = CHR 0x20 \<and> s = []") (simp, blast intro: ws_len_space)
  moreover have "drop (ws_len (c # s)) ((c # s) @ CHR 0x20 # u) = drop (ws_len (c # s)) (c # s) @ CHR 0x20 # u"
    using ws_len_le [of "c # s"] by (simp only: drop_append) simp
  ultimately show ?case
    using 2 by (simp add: split_ws_from.simps(2) [of acc c] del: ws_len.simps)
qed

lemma split_whitespace_append:
  "split_whitespace (s @ CHR 0x20 # u) = split_whitespace s @ split_whitespace u"
  by (simp add: split_whitespace_def split_ws_from_space)

lemma split_ws_from_nonempty: "t \<in> set (split_ws_from acc s) \<Longrightarrow> t \<noteq> []"
  by (induction acc s rule: split_ws_from.induct)
    (auto simp: flush_def split_ws_from.simps(2) simp del: ws_len.simps split: if_splits)

lemma split_whitespace_nonempty: "t \<in> set (split_whitespace s) \<Longrightarrow> t \<noteq> []"
  by (auto simp: split_whitespace_def dest: split_ws_from_nonempty)

section \<open>UTF-8 decoding\<close>

definition byte_in :: "nat \<Rightarrow> nat \<Rightarrow> char \<Rightarrow> bool" where
  "byte_in lo hi c \<longleftrightarrow> lo \<le> of_char c \<and> of_char c \<le> hi"

text \<open>
  One step of decoding: \<open>Inr n\<close> for a well-formed sequence of \<open>n\<close> bytes at the front, \<open>Inl n\<close> for
  an ill-formed one of which \<open>n\<close> bytes are consumed (the maximal subpart).
\<close>

fun utf8_conts :: "nat \<Rightarrow> nat \<Rightarrow> string \<Rightarrow> nat + nat" where
  "utf8_conts k 0 s = Inr k"
| "utf8_conts k (Suc n) [] = Inl k"
| "utf8_conts k (Suc n) (c # s) = (if byte_in 128 191 c then utf8_conts (Suc k) n s else Inl k)"

definition utf8_tail :: "nat \<Rightarrow> nat \<Rightarrow> nat \<Rightarrow> string \<Rightarrow> nat + nat" where
  "utf8_tail lo hi m s =
     (case s of [] \<Rightarrow> Inl 1
      | c # s' \<Rightarrow> if byte_in lo hi c then utf8_conts 2 m s' else Inl 1)"

fun utf8_step :: "string \<Rightarrow> nat + nat" where
  "utf8_step [] = Inl 0"
| "utf8_step (c # s) =
     (if byte_in 0 127 c then Inr 1
      else if byte_in 194 223 c then utf8_tail 128 191 0 s
      else if byte_in 224 224 c then utf8_tail 160 191 1 s
      else if byte_in 225 236 c \<or> byte_in 238 239 c then utf8_tail 128 191 1 s
      else if byte_in 237 237 c then utf8_tail 128 159 1 s
      else if byte_in 240 240 c then utf8_tail 144 191 2 s
      else if byte_in 241 243 c then utf8_tail 128 191 2 s
      else if byte_in 244 244 c then utf8_tail 128 143 2 s
      else Inl 1)"

lemma utf8_conts_pos:
  assumes "0 < k"
  shows "utf8_conts k n s = Inr m \<Longrightarrow> 0 < m" "utf8_conts k n s = Inl m \<Longrightarrow> 0 < m"
  using assms by (induction k n s rule: utf8_conts.induct) (auto split: if_splits)

lemma utf8_tail_pos:
  "utf8_tail lo hi n s = Inr m \<Longrightarrow> 0 < m" "utf8_tail lo hi n s = Inl m \<Longrightarrow> 0 < m"
  by (auto simp: utf8_tail_def split: if_splits list.splits dest: utf8_conts_pos [rotated])

lemma utf8_step_pos:
  "utf8_step (c # s) = Inr m \<Longrightarrow> 0 < m" "utf8_step (c # s) = Inl m \<Longrightarrow> 0 < m"
  by (auto split: if_splits dest: utf8_tail_pos)

function utf8_valid :: "string \<Rightarrow> bool" where
  "utf8_valid [] = True"
| "utf8_valid (c # s) =
     (case utf8_step (c # s) of Inl _ \<Rightarrow> False | Inr n \<Rightarrow> utf8_valid (drop n (c # s)))"
  by pat_completeness auto
termination
  by (relation "measure length") (auto dest: utf8_step_pos simp del: utf8_step.simps)

text \<open>\<open>String::from_utf8_lossy\<close>: every maximal ill-formed subpart becomes U+FFFD.\<close>

function from_utf8_lossy :: "string \<Rightarrow> string" where
  "from_utf8_lossy [] = []"
| "from_utf8_lossy (c # s) =
     (case utf8_step (c # s) of
        Inl n \<Rightarrow> [CHR 0xEF, CHR 0xBF, CHR 0xBD] @ from_utf8_lossy (drop n (c # s))
      | Inr n \<Rightarrow> take n (c # s) @ from_utf8_lossy (drop n (c # s)))"
  by pat_completeness auto
termination
  by (relation "measure length")
    (auto dest: utf8_step_pos simp del: utf8_step.simps)

declare utf8_valid.simps(2) [simp del] from_utf8_lossy.simps(2) [simp del]

lemma from_utf8_lossy_valid: "utf8_valid s \<Longrightarrow> from_utf8_lossy s = s"
  by (induction s rule: utf8_valid.induct)
    (auto simp: utf8_valid.simps(2) from_utf8_lossy.simps(2) simp del: utf8_step.simps
       split: sum.splits)

lemma utf8_valid_ascii: "list_all (byte_in 0 127) s \<Longrightarrow> utf8_valid s"
  by (induction s) (simp_all add: utf8_valid.simps(2))

text \<open>\<open>CStr::to_str\<close> of the bytes of a C string.\<close>

definition cstr_to_str :: "string \<Rightarrow> string option" where
  "cstr_to_str bs = (if utf8_valid bs then Some bs else None)"

section \<open>C strings\<close>

definition nul :: char where
  "nul = CHR 0x00"

text \<open>\<open>CString::new\<close>: the error holds the position of the first NUL and the bytes.\<close>

definition cstring_new :: "string \<Rightarrow> (nat \<times> string, string) result" where
  "cstring_new s =
     (if nul \<in> set s then Inl (length (takeWhile (\<lambda>c. c \<noteq> nul) s), s) else Inr s)"

lemma cstring_new_eq_Inr [simp]: "cstring_new s = Inr t \<longleftrightarrow> t = s \<and> nul \<notin> set s"
  by (auto simp: cstring_new_def)

lemma cstring_new_eq_Inl: "cstring_new s = Inl e \<Longrightarrow> nul \<in> set s"
  by (auto simp: cstring_new_def split: if_splits)

section \<open>Decimal output\<close>

fun digits_of :: "nat \<Rightarrow> string" where
  "digits_of n =
     (if n < 10 then [char_of (48 + n)] else digits_of (n div 10) @ [char_of (48 + n mod 10)])"

declare digits_of.simps [simp del]

definition int_to_string :: "int \<Rightarrow> string" where
  "int_to_string i = (if i < 0 then CHR ''-'' # digits_of (nat (- i)) else digits_of (nat i))"

text \<open>Reading the digits back.\<close>

definition digit_value :: "char \<Rightarrow> nat" where
  "digit_value c = of_char c - 48"

fun value_of :: "nat \<Rightarrow> string \<Rightarrow> nat" where
  "value_of a [] = a"
| "value_of a (c # s) = value_of (10 * a + digit_value c) s"

lemma value_of_append: "value_of a (s @ t) = value_of (value_of a s) t"
  by (induction s arbitrary: a) auto

lemma digit_value_char: "d < 10 \<Longrightarrow> digit_value (char_of (48 + d)) = d"
  by (simp add: digit_value_def)

lemma value_digits [simp]: "value_of 0 (digits_of n) = n"
proof (induction n rule: digits_of.induct)
  case (1 n)
  show ?case
  proof (cases "n < 10")
    case True
    then show ?thesis by (simp add: digits_of.simps [of n] digit_value_char)
  next
    case False
    with 1 show ?thesis
      by (simp add: digits_of.simps [of n] value_of_append digit_value_char)
  qed
qed

lemma digits_of_inject [simp]: "digits_of m = digits_of n \<longleftrightarrow> m = n"
  by (metis value_digits)

lemma digits_of_hd: "digits_of n \<noteq> [] \<and> hd (digits_of n) \<noteq> CHR ''-''"
proof (induction n rule: digits_of.induct)
  case (1 n)
  show ?case
  proof (cases "n < 10")
    case True
    have "char_of (48 + n) \<noteq> CHR ''-''"
    proof
      assume "char_of (48 + n) = CHR ''-''"
      then have "(of_char (char_of (48 + n) :: char) :: nat) = of_char (CHR ''-'')" by simp
      with True show False by simp
    qed
    with True show ?thesis by (simp add: digits_of.simps [of n])
  next
    case False
    with 1 show ?thesis by (simp add: digits_of.simps [of n])
  qed
qed

lemma int_to_string_inject [simp]: "int_to_string i = int_to_string j \<longleftrightarrow> i = j"
proof
  assume eq: "int_to_string i = int_to_string j"
  have "digits_of k \<noteq> CHR ''-'' # x" for k x
    using digits_of_hd [of k] by (cases "digits_of k") auto
  then have "i < 0 \<longleftrightarrow> j < 0" using eq by (auto simp: int_to_string_def split: if_splits; metis)
  with eq show "i = j" by (auto simp: int_to_string_def split: if_splits)
qed simp

section \<open>Paths\<close>

datatype component = RootDir | CurDir | ParentDir | Normal string

fun split_slash :: "string \<Rightarrow> string list" where
  "split_slash [] = [[]]"
| "split_slash (c # s) =
     (if c = CHR ''/'' then [] # split_slash s
      else (case split_slash s of [] \<Rightarrow> [[c]] | w # ws \<Rightarrow> (c # w) # ws))"

fun inner_component :: "string \<Rightarrow> component list" where
  "inner_component w =
     (if w = [] \<or> w = ''.'' then [] else if w = ''..'' then [ParentDir] else [Normal w])"

text \<open>\<open>Path::components\<close> on Unix: a leading \<open>.\<close> of a relative path is kept, any other is skipped.\<close>

definition path_components :: "string \<Rightarrow> component list" where
  "path_components s =
     (case s of
        [] \<Rightarrow> []
      | c # s' \<Rightarrow>
          if c = CHR ''/'' then RootDir # concat (map inner_component (split_slash s'))
          else (case split_slash s of
                  [] \<Rightarrow> []
                | w # ws \<Rightarrow> (if w = ''.'' then [CurDir] else inner_component w)
                              @ concat (map inner_component ws)))"

fun is_prefix :: "'a list \<Rightarrow> 'a list \<Rightarrow> bool" where
  "is_prefix [] ys = True"
| "is_prefix (x # xs) [] = False"
| "is_prefix (x # xs) (y # ys) = (x = y \<and> is_prefix xs ys)"

lemma is_prefix_iff: "is_prefix xs ys \<longleftrightarrow> (\<exists>zs. ys = xs @ zs)"
  by (induction xs ys rule: is_prefix.induct) auto

definition path_starts_with :: "string \<Rightarrow> string \<Rightarrow> bool" where
  "path_starts_with p base = is_prefix (path_components base) (path_components p)"

definition path_join :: "string \<Rightarrow> string \<Rightarrow> string" where
  "path_join dir p =
     (if is_prefix ''/'' p then p
      else if dir = [] \<or> last dir = CHR ''/'' then dir @ p
      else dir @ ''/'' @ p)"

end
