(* ===== verification/PkgConf.thy ===== *)
theory PkgConf
  imports RustStr
begin

text \<open>
  The crate \<open>pkgconf\<close> (\<open>pkgconf/src/lib.rs\<close>): the flags of \<open>pkg-config\<close> output, their conversion to
  cargo directives and clang arguments, and the parser. The loop of \<open>parse\<close> threads the state of its
  local variables; indexing out of range is the panic \<open>None\<close>. The file system is a parameter
  (\<open>exists\<close>), as is the \<open>pkg-config\<close> process.
\<close>

section \<open>Flags and their conversions\<close>

datatype link_kind = Default | Static | WholeArchive

text \<open>Link kinds in the order in which a library may be upgraded.\<close>

fun kind_rank :: "link_kind \<Rightarrow> nat" where
  "kind_rank Default = 0"
| "kind_rank Static = 1"
| "kind_rank WholeArchive = 2"

lemma kind_rank_inject: "kind_rank k = kind_rank l \<Longrightarrow> k = l"
  by (cases k; cases l) auto

instantiation link_kind :: linorder
begin

definition less_eq_link_kind :: "link_kind \<Rightarrow> link_kind \<Rightarrow> bool" where
  "k \<le> l \<longleftrightarrow> kind_rank k \<le> kind_rank l"

definition less_link_kind :: "link_kind \<Rightarrow> link_kind \<Rightarrow> bool" where
  "k < l \<longleftrightarrow> kind_rank k < kind_rank l"

instance
  by intro_classes (auto simp: less_eq_link_kind_def less_link_kind_def dest: kind_rank_inject)

end

datatype linker_flag =
    SearchPath string
  | Library string link_kind
  | LinkerArg string

fun to_cargo_directive :: "linker_flag \<Rightarrow> bool \<Rightarrow> string" where
  "to_cargo_directive (SearchPath path) no_bundle = ''cargo:rustc-link-search=native='' @ path"
| "to_cargo_directive (Library name kind) no_bundle =
     (case kind of
        Default \<Rightarrow> ''cargo:rustc-link-lib='' @ name
      | Static \<Rightarrow>
          if no_bundle then ''cargo:rustc-link-lib=static:-bundle='' @ name
          else ''cargo:rustc-link-lib=static='' @ name
      | WholeArchive \<Rightarrow>
          if no_bundle then ''cargo:rustc-link-lib=static:+whole-archive,-bundle='' @ name
          else ''cargo:rustc-link-lib=static:+whole-archive='' @ name)"
| "to_cargo_directive (LinkerArg arg) no_bundle = ''cargo:rustc-link-arg='' @ arg"

datatype compiler_flag =
    IncludePath string
  | Define string "string option"

fun to_clang_arg :: "compiler_flag \<Rightarrow> string" where
  "to_clang_arg (IncludePath path) = ''-I'' @ path"
| "to_clang_arg (Define key None) = ''-D'' @ key"
| "to_clang_arg (Define key (Some v)) = ''-D'' @ key @ ''='' @ v"

definition to_clang_args :: "compiler_flag list \<Rightarrow> string list" where
  "to_clang_args flags = map to_clang_arg flags"

definition to_cargo_directives :: "linker_flag list \<Rightarrow> bool \<Rightarrow> string list" where
  "to_cargo_directives flags no_bundle = map (\<lambda>f. to_cargo_directive f no_bundle) flags"

text \<open>Standard output is the list of lines printed so far.\<close>

fun print_lines :: "string list \<Rightarrow> string list \<Rightarrow> string list" where
  "print_lines [] stdout = stdout"
| "print_lines (d # ds) stdout = print_lines ds (stdout @ [d])"

lemma print_lines_append: "print_lines ds out = out @ ds"
  by (induction ds arbitrary: out) simp_all

definition emit_cargo_metadata :: "linker_flag list \<Rightarrow> bool \<Rightarrow> string list \<Rightarrow> string list" where
  "emit_cargo_metadata flags no_bundle stdout =
     print_lines (to_cargo_directives flags no_bundle) stdout"

record pkg_config =
  libs :: "linker_flag list"
  cflags :: "compiler_flag list"

section \<open>The parser\<close>

record parser =
  system_roots :: "string list"
  force_whole_archive :: "string set"

definition parser_new :: parser where
  "parser_new = \<lparr>system_roots = [''/usr''], force_whole_archive = {}\<rparr>"

definition parser_default :: parser where
  "parser_default = parser_new"

definition parser_system_roots :: "parser \<Rightarrow> string list \<Rightarrow> parser" where
  "parser_system_roots self roots = self\<lparr>system_roots := roots\<rparr>"

definition parser_force_whole_archive :: "parser \<Rightarrow> string list \<Rightarrow> parser" where
  "parser_force_whole_archive self ls = self\<lparr>force_whole_archive := set ls\<rparr>"

definition is_static_available :: "parser \<Rightarrow> (string \<Rightarrow> bool) \<Rightarrow> string \<Rightarrow> string list \<Rightarrow> bool" where
  "is_static_available self exists name dirs =
     (let libname = ''lib'' @ name @ ''.a''
      in list_ex (\<lambda>dir.
           let library_exists = exists (path_join dir libname);
               is_system_dir = list_ex (\<lambda>sys. path_starts_with dir sys) (system_roots self)
           in library_exists \<and> \<not> is_system_dir) dirs)"

text \<open>The local variables of \<open>parse\<close>.\<close>

record parse_state =
  flags :: "linker_flag list"
  seen_libs :: "string set"
  lib_indices :: "string \<rightharpoonup> nat"
  in_whole_archive_region :: bool

definition parse_start :: parse_state where
  "parse_start = \<lparr>flags = [], seen_libs = {}, lib_indices = Map.empty,
                  in_whole_archive_region = False\<rparr>"

definition handle_library ::
  "parser \<Rightarrow> (string \<Rightarrow> bool) \<Rightarrow> string list \<Rightarrow> string \<Rightarrow> parse_state \<Rightarrow> parse_state option" where
  "handle_library self exists lib_dirs lib_name s =
     (if lib_name \<in> seen_libs s then
        (if in_whole_archive_region s then
           (case lib_indices s lib_name of
              None \<Rightarrow> Some s
            | Some idx \<Rightarrow>
                if idx < length (flags s) then
                  (case flags s ! idx of
                     Library name kind \<Rightarrow>
                       if kind = Static
                       then Some (s\<lparr>flags := (flags s)[idx := Library name WholeArchive]\<rparr>)
                       else Some s
                   | _ \<Rightarrow> Some s)
                else None)
         else Some s)
      else
        (let has_static = is_static_available self exists lib_name lib_dirs;
             forced_whole_archive = lib_name \<in> force_whole_archive self;
             kind = (if (in_whole_archive_region s \<or> forced_whole_archive) \<and> has_static
                     then WholeArchive else if has_static then Static else Default);
             idx = length (flags s)
         in Some (s\<lparr>flags := flags s @ [Library lib_name kind],
                    seen_libs := insert lib_name (seen_libs s),
                    lib_indices := (lib_indices s)(lib_name \<mapsto> idx)\<rparr>)))"

text \<open>The first loop of \<open>parse\<close>: the directories of the \<open>-L\<close> flags.\<close>

fun collect_lib_dirs :: "string list \<Rightarrow> string list" where
  "collect_lib_dirs [] = []"
| "collect_lib_dirs (flag # ts) =
     (case strip_prefix ''-L'' flag of
        Some path \<Rightarrow> path # collect_lib_dirs ts
      | None \<Rightarrow> collect_lib_dirs ts)"

text \<open>The name of an explicit archive \<open>-l:<rest>\<close>.\<close>

definition archive_name :: "string \<Rightarrow> string" where
  "archive_name rest =
     unwrap_or (strip_suffix ''.a'' (unwrap_or (strip_prefix ''lib'' rest) rest)) rest"

text \<open>The body of the second loop.\<close>

definition parse_flag ::
  "parser \<Rightarrow> (string \<Rightarrow> bool) \<Rightarrow> string list \<Rightarrow> string \<Rightarrow> parse_state \<Rightarrow> parse_state option" where
  "parse_flag self exists lib_dirs flag s =
     (case strip_prefix ''-L'' flag of
        Some path \<Rightarrow> Some (s\<lparr>flags := flags s @ [SearchPath path]\<rparr>)
      | None \<Rightarrow>
     (case strip_prefix ''-Wl,'' flag of
        Some wl_args \<Rightarrow>
          (let s' = (if str_contains wl_args ''--whole-archive''
                        \<and> \<not> str_contains wl_args ''--no-whole-archive''
                     then s\<lparr>in_whole_archive_region := True\<rparr>
                     else if str_contains wl_args ''--no-whole-archive''
                     then s\<lparr>in_whole_archive_region := False\<rparr>
                     else s)
           in Some (if str_contains wl_args ''export-dynamic'' \<or> str_contains wl_args ''as-needed''
                    then s'\<lparr>flags := flags s' @ [LinkerArg flag]\<rparr>
                    else s'))
      | None \<Rightarrow>
     (case strip_prefix ''-l:'' flag of
        Some rest \<Rightarrow> handle_library self exists lib_dirs (archive_name rest) s
      | None \<Rightarrow>
     (case strip_prefix ''-l'' flag of
        Some lib_name \<Rightarrow> handle_library self exists lib_dirs lib_name s
      | None \<Rightarrow>
          if flag = ''-pthread'' \<and> ''pthread'' \<notin> seen_libs s
          then Some (s\<lparr>flags := flags s @ [Library ''pthread'' Default],
                       seen_libs := insert ''pthread'' (seen_libs s)\<rparr>)
          else Some s))))"

fun parse_flags ::
  "parser \<Rightarrow> (string \<Rightarrow> bool) \<Rightarrow> string list \<Rightarrow> string list \<Rightarrow> parse_state \<Rightarrow> parse_state option" where
  "parse_flags self exists lib_dirs [] s = Some s"
| "parse_flags self exists lib_dirs (flag # ts) s =
     (case parse_flag self exists lib_dirs flag s of
        None \<Rightarrow> None
      | Some s' \<Rightarrow> parse_flags self exists lib_dirs ts s')"

definition parse :: "parser \<Rightarrow> (string \<Rightarrow> bool) \<Rightarrow> string \<Rightarrow> linker_flag list option" where
  "parse self exists pkg_config_output =
     (let ts = split_whitespace pkg_config_output;
          lib_dirs = collect_lib_dirs ts
      in map_option flags (parse_flags self exists lib_dirs ts parse_start))"

text \<open>The body of the loop of \<open>parse_cflags\<close> over its locals \<open>flags\<close> and \<open>seen\<close>.\<close>

definition parse_cflag ::
  "string \<Rightarrow> compiler_flag list \<times> string set \<Rightarrow> compiler_flag list \<times> string set" where
  "parse_cflag token s =
     (case s of (fs, seen) \<Rightarrow>
     (case strip_prefix ''-I'' token of
        Some path \<Rightarrow>
          if token \<notin> seen then (fs @ [IncludePath path], insert token seen) else (fs, seen)
      | None \<Rightarrow>
     (case strip_prefix ''-D'' token of
        Some define \<Rightarrow>
          if token \<notin> seen then
            (case split_once CHR ''='' define of
               Some (key, val) \<Rightarrow> (fs @ [Define key (Some val)], insert token seen)
             | None \<Rightarrow> (fs @ [Define define None], insert token seen))
          else (fs, seen)
      | None \<Rightarrow> (fs, seen))))"

definition parse_cflags :: "string \<Rightarrow> compiler_flag list" where
  "parse_cflags output = fst (fold parse_cflag (split_whitespace output) ([], {}))"

section \<open>Running pkg-config\<close>

text \<open>
  A finished process: whether its exit status is success, and its two streams. The process itself is
  a parameter: from the \<open>PKG_CONFIG_PATH\<close> override and the arguments to its output, or to the message
  of the error that kept it from starting.
\<close>

record process_output =
  success :: bool
  stdout :: string
  stderr :: string

type_synonym 'w command = "string option \<Rightarrow> string list \<Rightarrow> 'w \<Rightarrow> (string, process_output) result \<times> 'w"

definition run_pkg_config_raw ::
  "'w command \<Rightarrow> string list \<Rightarrow> string list \<Rightarrow> string option \<Rightarrow> 'w \<Rightarrow> (string, string) result \<times> 'w"
where
  "run_pkg_config_raw cmd args packages pkg_config_path w =
     (case cmd pkg_config_path (args @ packages) w of
        (Inl e, w') \<Rightarrow> (Inl (''Failed to run pkg-config: '' @ e), w')
      | (Inr out, w') \<Rightarrow>
          if \<not> success out
          then (Inl (''pkg-config failed: '' @ from_utf8_lossy (stderr out)), w')
          else (Inr (from_utf8_lossy (stdout out)), w'))"

definition run_pkg_config ::
  "'w command \<Rightarrow> string list \<Rightarrow> string option \<Rightarrow> 'w \<Rightarrow> (string, string) result \<times> 'w" where
  "run_pkg_config cmd packages pkg_config_path w =
     run_pkg_config_raw cmd [''--static'', ''--libs''] packages pkg_config_path w"

definition run_pkg_config_cflags ::
  "'w command \<Rightarrow> string list \<Rightarrow> string option \<Rightarrow> 'w \<Rightarrow> (string, string) result \<times> 'w" where
  "run_pkg_config_cflags cmd packages pkg_config_path w =
     run_pkg_config_raw cmd [''--cflags''] packages pkg_config_path w"

text \<open>\<open>None\<close> is a panic of \<open>parse\<close>; the proofs show that there is none.\<close>

definition probe ::
  "parser \<Rightarrow> (string \<Rightarrow> bool) \<Rightarrow> 'w command \<Rightarrow> string list \<Rightarrow> string option \<Rightarrow> 'w \<Rightarrow>
     ((string, pkg_config) result \<times> 'w) option"
where
  "probe self exists cmd packages pkg_config_path w =
     (case run_pkg_config cmd packages pkg_config_path w of
        (Inl e, w') \<Rightarrow> Some (Inl e, w')
      | (Inr libs_output, w') \<Rightarrow>
          (case run_pkg_config_cflags cmd packages pkg_config_path w' of
             (Inl e, w'') \<Rightarrow> Some (Inl e, w'')
           | (Inr cflags_output, w'') \<Rightarrow>
               (case parse self exists libs_output of
                  None \<Rightarrow> None
                | Some ls \<Rightarrow>
                    Some (Inr \<lparr>libs = ls, cflags = parse_cflags cflags_output\<rparr>, w''))))"

section \<open>What the parser is to compute\<close>

text \<open>
  A declarative reading of a token list: which library a token asks for, whether a whole-archive
  region is open after it, and the flag list in which the kind of a library is decided by looking
  ahead instead of by updating an entry that was already written.
\<close>

definition lib_of :: "string \<Rightarrow> string option" where
  "lib_of t =
     (case strip_prefix ''-l:'' t of Some rest \<Rightarrow> Some (archive_name rest)
      | None \<Rightarrow> strip_prefix ''-l'' t)"

definition region_step :: "bool \<Rightarrow> string \<Rightarrow> bool" where
  "region_step r t =
     (case strip_prefix ''-Wl,'' t of
        None \<Rightarrow> r
      | Some a \<Rightarrow> if str_contains a ''--no-whole-archive'' then False
                  else if str_contains a ''--whole-archive'' then True else r)"

definition kept_arg :: "string \<Rightarrow> bool" where
  "kept_arg t \<longleftrightarrow> (\<exists>a. t = ''-Wl,'' @ a \<and>
     (str_contains a ''export-dynamic'' \<or> str_contains a ''as-needed''))"

fun asked_in_region :: "string \<Rightarrow> bool \<Rightarrow> string list \<Rightarrow> bool" where
  "asked_in_region n r [] = False"
| "asked_in_region n r (t # ts) =
     ((lib_of t = Some n \<and> r) \<or> asked_in_region n (region_step r t) ts)"

definition decided_kind :: "(string \<Rightarrow> bool) \<Rightarrow> string set \<Rightarrow> string \<Rightarrow> bool \<Rightarrow> string list \<Rightarrow> link_kind" where
  "decided_kind static forced n r ts =
     (if \<not> static n then Default
      else if n \<in> forced \<or> asked_in_region n r ts then WholeArchive else Static)"

fun flags_of :: "(string \<Rightarrow> bool) \<Rightarrow> string set \<Rightarrow> bool \<Rightarrow> string set \<Rightarrow> string list \<Rightarrow> linker_flag list"
where
  "flags_of static forced r seen [] = []"
| "flags_of static forced r seen (t # ts) =
     (case lib_of t of
        Some n \<Rightarrow>
          if n \<in> seen then flags_of static forced r seen ts
          else Library n (decided_kind static forced n r (t # ts))
               # flags_of static forced r (insert n seen) ts
      | None \<Rightarrow>
     (case strip_prefix ''-L'' t of
        Some p \<Rightarrow> SearchPath p # flags_of static forced r seen ts
      | None \<Rightarrow>
          if t = ''-pthread'' \<and> ''pthread'' \<notin> seen
          then Library ''pthread'' Default # flags_of static forced r (insert ''pthread'' seen) ts
          else if kept_arg t then LinkerArg t # flags_of static forced (region_step r t) seen ts
          else flags_of static forced (region_step r t) seen ts))"

end
