(* ===== verification/PkgConf_Correct.thy ===== *)
theory PkgConf_Correct
  imports PkgConf
begin

text \<open>
  Correctness of \<open>PkgConf\<close>: the loop of \<open>parse\<close>, with its index map and in-place upgrades, computes the
  declarative flag list \<open>flags_of\<close> and never indexes out of range; what that list holds; the
  conversions; the deduplication and the round trip of \<open>parse_cflags\<close>; the errors of \<open>probe\<close>.
\<close>

section \<open>The tokens\<close>

lemma lib_of_L [simp]: "lib_of (''-L'' @ p) = None"
  by (simp add: lib_of_def strip_prefix_eq_None)

lemma lib_of_Wl [simp]: "lib_of (''-Wl,'' @ p) = None"
  by (simp add: lib_of_def strip_prefix_eq_None)

lemma not_search_Wl [simp]: "strip_prefix ''-L'' (''-Wl,'' @ p) = None"
  by simp

lemma region_step_lib: "lib_of t = Some n \<Longrightarrow> region_step r t = r"
  by (cases "strip_prefix ''-Wl,'' t") (auto simp: region_step_def lib_of_def)

lemma region_step_L [simp]: "region_step r (''-L'' @ p) = r"
  by (simp add: region_step_def)

lemma region_step_other: "(\<And>a. t \<noteq> ''-Wl,'' @ a) \<Longrightarrow> region_step r t = r"
  by (simp add: region_step_def strip_prefix_eq_None [THEN iffD2])

text \<open>The branches of \<open>parse_flag\<close>, one per kind of token.\<close>

lemma parse_flag_L: "parse_flag P ex dirs (''-L'' @ p) s = Some (s\<lparr>flags := flags s @ [SearchPath p]\<rparr>)"
  by (simp add: parse_flag_def)

lemma parse_flag_lib:
  assumes "lib_of t = Some n"
  shows "parse_flag P ex dirs t s = handle_library P ex dirs n s"
  using assms
  by (cases "strip_prefix ''-l:'' t"; cases "strip_prefix ''-l'' t")
    (auto simp: parse_flag_def lib_of_def)

lemma parse_flag_Wl:
  "parse_flag P ex dirs (''-Wl,'' @ a) s =
     Some (s\<lparr>in_whole_archive_region := region_step (in_whole_archive_region s) (''-Wl,'' @ a),
             flags := flags s @ (if kept_arg (''-Wl,'' @ a) then [LinkerArg (''-Wl,'' @ a)] else [])\<rparr>)"
  by (auto simp: parse_flag_def region_step_def kept_arg_def Let_def)

lemma parse_flag_other:
  assumes "lib_of t = None" "\<And>p. t \<noteq> ''-L'' @ p" "\<And>a. t \<noteq> ''-Wl,'' @ a"
  shows "parse_flag P ex dirs t s =
     (if t = ''-pthread'' \<and> ''pthread'' \<notin> seen_libs s
      then Some (s\<lparr>flags := flags s @ [Library ''pthread'' Default],
                   seen_libs := insert ''pthread'' (seen_libs s)\<rparr>)
      else Some s)"
proof -
  from assms have "strip_prefix ''-L'' t = None" "strip_prefix ''-Wl,'' t = None"
    "strip_prefix ''-l:'' t = None" "strip_prefix ''-l'' t = None"
    by (simp_all only: strip_prefix_eq_None lib_of_def split: option.splits) auto
  then show ?thesis by (simp add: parse_flag_def)
qed

lemma token_cases:
  obtains (search) p where "t = ''-L'' @ p"
  | (linker) a where "t = ''-Wl,'' @ a"
  | (library) n where "lib_of t = Some n"
  | (other) "lib_of t = None" "\<And>p. t \<noteq> ''-L'' @ p" "\<And>a. t \<noteq> ''-Wl,'' @ a"
  by blast

lemma flags_of_L [simp]:
  "flags_of st fo r seen ((''-L'' @ p) # ts) = SearchPath p # flags_of st fo r seen ts"
  using lib_of_L [of p] by simp

lemma flags_of_lib:
  "lib_of t = Some n \<Longrightarrow> flags_of st fo r seen (t # ts) =
     (if n \<in> seen then flags_of st fo r seen ts
      else Library n (decided_kind st fo n r (t # ts)) # flags_of st fo r (insert n seen) ts)"
  by simp

lemma flags_of_Wl:
  "flags_of st fo r seen ((''-Wl,'' @ a) # ts) =
     (if kept_arg (''-Wl,'' @ a)
      then LinkerArg (''-Wl,'' @ a) # flags_of st fo (region_step r (''-Wl,'' @ a)) seen ts
      else flags_of st fo (region_step r (''-Wl,'' @ a)) seen ts)"
  using lib_of_Wl [of a] by (simp del: append.simps add: strip_prefix_eq_None) simp

lemma flags_of_other:
  assumes "lib_of t = None" "\<And>p. t \<noteq> ''-L'' @ p" "\<And>a. t \<noteq> ''-Wl,'' @ a"
  shows "flags_of st fo r seen (t # ts) =
     (if t = ''-pthread'' \<and> ''pthread'' \<notin> seen
      then Library ''pthread'' Default # flags_of st fo r (insert ''pthread'' seen) ts
      else flags_of st fo r seen ts)"
proof -
  from assms have "strip_prefix ''-L'' t = None" by (simp only: strip_prefix_eq_None) auto
  moreover from assms have "\<not> kept_arg t" by (auto simp: kept_arg_def)
  ultimately show ?thesis using assms by (simp add: region_step_other)
qed

section \<open>The loop refines the declarative list\<close>

text \<open>
  The invariant of the locals: every index points at the entry of its library, and every static
  entry is indexed, so that an upgrade finds it.
\<close>

definition parse_inv :: "parse_state \<Rightarrow> bool" where
  "parse_inv s \<longleftrightarrow>
     (\<forall>n i. lib_indices s n = Some i \<longrightarrow>
        n \<in> seen_libs s \<and> i < length (flags s) \<and> (\<exists>k. flags s ! i = Library n k)) \<and>
     (\<forall>j n. j < length (flags s) \<longrightarrow> flags s ! j = Library n Static \<longrightarrow> lib_indices s n = Some j)"

lemma parse_inv_index: "parse_inv s \<Longrightarrow> lib_indices s n = Some i \<Longrightarrow>
    n \<in> seen_libs s \<and> i < length (flags s) \<and> (\<exists>k. flags s ! i = Library n k)"
  unfolding parse_inv_def by blast

lemma parse_inv_static: "parse_inv s \<Longrightarrow> j < length (flags s) \<Longrightarrow> flags s ! j = Library n Static \<Longrightarrow>
    lib_indices s n = Some j"
  unfolding parse_inv_def by blast

lemma parse_invI:
  assumes "\<And>n i. lib_indices s n = Some i \<Longrightarrow>
      n \<in> seen_libs s \<and> i < length (flags s) \<and> (\<exists>k. flags s ! i = Library n k)"
    and "\<And>j n. j < length (flags s) \<Longrightarrow> flags s ! j = Library n Static \<Longrightarrow> lib_indices s n = Some j"
  shows "parse_inv s"
  unfolding parse_inv_def using assms by blast

lemma parse_inv_start: "parse_inv parse_start"
  by (rule parse_invI) (simp_all add: parse_start_def)

text \<open>What the rest of the input does to an entry already written.\<close>

fun promote :: "bool \<Rightarrow> string list \<Rightarrow> linker_flag \<Rightarrow> linker_flag" where
  "promote r ts (Library n Static) =
     (if asked_in_region n r ts then Library n WholeArchive else Library n Static)"
| "promote r ts f = f"

lemma promote_eq:
  assumes "\<And>n. f = Library n Static \<Longrightarrow> asked_in_region n r ts \<longleftrightarrow> asked_in_region n r' ts'"
  shows "promote r ts f = promote r' ts' f"
  using assms by (cases "(r, ts, f)" rule: promote.cases) auto

lemma promote_Nil [simp]: "promote r [] f = f"
  by (cases "(r, [] :: string list, f)" rule: promote.cases) auto

lemma asked_not_lib: "lib_of t \<noteq> Some n \<or> \<not> r \<Longrightarrow>
    asked_in_region n r (t # ts) = asked_in_region n (region_step r t) ts"
  by auto

lemma parse_inv_push:
  assumes inv: "parse_inv s" and f: "\<And>n. f \<noteq> Library n Static" and S: "seen_libs s \<subseteq> S"
  shows "parse_inv (s\<lparr>in_whole_archive_region := r, flags := flags s @ [f], seen_libs := S\<rparr>)"
proof (rule parse_invI)
  fix n i assume "lib_indices (s\<lparr>in_whole_archive_region := r, flags := flags s @ [f], seen_libs := S\<rparr>) n = Some i"
  with parse_inv_index [OF inv, of n i] S
  show "n \<in> seen_libs (s\<lparr>in_whole_archive_region := r, flags := flags s @ [f], seen_libs := S\<rparr>) \<and>
      i < length (flags (s\<lparr>in_whole_archive_region := r, flags := flags s @ [f], seen_libs := S\<rparr>)) \<and>
      (\<exists>k. flags (s\<lparr>in_whole_archive_region := r, flags := flags s @ [f], seen_libs := S\<rparr>) ! i = Library n k)"
    by (auto simp: nth_append)
qed (use f parse_inv_static [OF inv] in \<open>auto simp: nth_append split: if_splits\<close>)

lemma parse_inv_region: "parse_inv s \<Longrightarrow> parse_inv (s\<lparr>in_whole_archive_region := r\<rparr>)"
  by (rule parse_invI) (auto dest: parse_inv_index parse_inv_static)

lemma parse_inv_push_lib:
  assumes inv: "parse_inv s" and n: "n \<notin> seen_libs s"
  shows "parse_inv (s\<lparr>flags := flags s @ [Library n k], seen_libs := insert n (seen_libs s),
                      lib_indices := (lib_indices s)(n \<mapsto> length (flags s))\<rparr>)"
    (is "parse_inv ?t")
proof (rule parse_invI)
  fix m i assume "lib_indices ?t m = Some i"
  with parse_inv_index [OF inv, of m i]
  show "m \<in> seen_libs ?t \<and> i < length (flags ?t) \<and> (\<exists>k. flags ?t ! i = Library m k)"
    by (auto simp: nth_append split: if_splits)
next
  fix j m assume "j < length (flags ?t)" "flags ?t ! j = Library m Static"
  moreover have "m \<noteq> n" if "lib_indices s m = Some i" for i
    using parse_inv_index [OF inv that] n by auto
  ultimately show "lib_indices ?t m = Some j"
    using parse_inv_static [OF inv, of j m] by (auto simp: nth_append less_Suc_eq split: if_splits)
qed

lemma parse_inv_upgrade:
  assumes inv: "parse_inv s" and i: "lib_indices s n = Some i" and m: "flags s ! i = Library n Static"
  shows "parse_inv (s\<lparr>flags := (flags s)[i := Library n WholeArchive]\<rparr>)"
    (is "parse_inv ?t")
proof (rule parse_invI)
  fix l j assume "lib_indices ?t l = Some j"
  with parse_inv_index [OF inv, of l j] m
  show "l \<in> seen_libs ?t \<and> j < length (flags ?t) \<and> (\<exists>k. flags ?t ! j = Library l k)"
    by (cases "j = i") auto
next
  fix j l assume "j < length (flags ?t)" "flags ?t ! j = Library l Static"
  then show "lib_indices ?t l = Some j"
    using parse_inv_static [OF inv, of j l] by (cases "j = i") auto
qed

text \<open>A library that was seen before: the step upgrades exactly what the rest would promote.\<close>

lemma promote_upgraded:
  assumes inv: "parse_inv s" and t: "lib_of t = Some n" and i: "lib_indices s n = Some i"
    and st: "flags s ! i = Library n Static"
  shows "map (promote True ts) ((flags s)[i := Library n WholeArchive]) = map (promote True (t # ts)) (flags s)"
proof (rule nth_equalityI)
  fix j assume "j < length (map (promote True ts) ((flags s)[i := Library n WholeArchive]))"
  then have j: "j < length (flags s)" by simp
  show "map (promote True ts) ((flags s)[i := Library n WholeArchive]) ! j = map (promote True (t # ts)) (flags s) ! j"
  proof (cases "j = i")
    case True
    with j st t show ?thesis by simp
  next
    case False
    have "promote True ts (flags s ! j) = promote True (t # ts) (flags s ! j)"
    proof (rule promote_eq)
      fix m assume "flags s ! j = Library m Static"
      with inv j have "lib_indices s m = Some j" by (blast intro: parse_inv_static)
      with i False have "m \<noteq> n" by auto
      with t show "asked_in_region m True ts = asked_in_region m True (t # ts)"
        by (simp add: region_step_lib)
    qed
    with False j show ?thesis by simp
  qed
qed simp

lemma promote_kept:
  assumes inv: "parse_inv s" and t: "lib_of t = Some n"
    and old: "\<And>i. r \<Longrightarrow> lib_indices s n = Some i \<Longrightarrow> flags s ! i \<noteq> Library n Static"
  shows "map (promote r ts) (flags s) = map (promote r (t # ts)) (flags s)"
proof (rule map_cong [OF refl], rule promote_eq)
  fix f m assume "f \<in> set (flags s)" "f = Library m Static"
  then obtain j where j: "j < length (flags s)" "flags s ! j = Library m Static"
    by (auto simp: in_set_conv_nth)
  with inv have "lib_indices s m = Some j" by (blast intro: parse_inv_static)
  with old j(2) have "m \<noteq> n \<or> \<not> r" by auto
  with t show "asked_in_region m r ts = asked_in_region m r (t # ts)" by (auto simp: region_step_lib)
qed

lemma handle_seen:
  assumes inv: "parse_inv s" and seen: "n \<in> seen_libs s" and t: "lib_of t = Some n"
  shows "\<exists>s'. handle_library P ex dirs n s = Some s' \<and> parse_inv s' \<and>
     seen_libs s' = seen_libs s \<and> in_whole_archive_region s' = in_whole_archive_region s \<and>
     map (promote (in_whole_archive_region s) ts) (flags s') =
     map (promote (in_whole_archive_region s) (t # ts)) (flags s)"
proof (cases "in_whole_archive_region s \<and> (\<exists>i. lib_indices s n = Some i \<and> flags s ! i = Library n Static)")
  case True
  then obtain i where r: "in_whole_archive_region s" and i: "lib_indices s n = Some i"
    and st: "flags s ! i = Library n Static" by blast
  let ?s = "s\<lparr>flags := (flags s)[i := Library n WholeArchive]\<rparr>"
  have "handle_library P ex dirs n s = Some ?s"
    using seen r i st parse_inv_index [OF inv i] by (simp add: handle_library_def)
  with parse_inv_upgrade [OF inv i st] promote_upgraded [OF inv t i st] r show ?thesis by simp
next
  case False
  have "handle_library P ex dirs n s = Some s"
    using False seen parse_inv_index [OF inv, of n]
    by (auto simp: handle_library_def split: option.splits linker_flag.splits)
  with promote_kept [OF inv t, of "in_whole_archive_region s" ts] False inv show ?thesis by blast
qed

text \<open>A library that is new: the entry written, once promoted, has the decided kind.\<close>

lemma handle_new:
  assumes inv: "parse_inv s" and seen: "n \<notin> seen_libs s" and t: "lib_of t = Some n"
  defines "r \<equiv> in_whole_archive_region s"
  shows "\<exists>s'. handle_library P ex dirs n s = Some s' \<and> parse_inv s' \<and>
     seen_libs s' = insert n (seen_libs s) \<and> in_whole_archive_region s' = r \<and>
     map (promote r ts) (flags s') = map (promote r (t # ts)) (flags s) @
       [Library n (decided_kind (\<lambda>m. is_static_available P ex m dirs) (force_whole_archive P) n r (t # ts))]"
proof -
  let ?st = "is_static_available P ex n dirs"
  let ?k = "if (r \<or> n \<in> force_whole_archive P) \<and> ?st then WholeArchive
            else if ?st then Static else Default"
  let ?s = "s\<lparr>flags := flags s @ [Library n ?k], seen_libs := insert n (seen_libs s),
              lib_indices := (lib_indices s)(n \<mapsto> length (flags s))\<rparr>"
  have "handle_library P ex dirs n s = Some ?s"
    using seen by (simp add: handle_library_def Let_def r_def)
  moreover have "parse_inv ?s" using inv seen by (rule parse_inv_push_lib)
  moreover have "map (promote r ts) (flags s) = map (promote r (t # ts)) (flags s)"
    using promote_kept [OF inv t] parse_inv_index [OF inv] seen by blast
  moreover have "promote r ts (Library n ?k) =
      Library n (decided_kind (\<lambda>m. is_static_available P ex m dirs) (force_whole_archive P) n r (t # ts))"
    using t by (auto simp: decided_kind_def region_step_lib)
  ultimately show ?thesis by (auto simp: r_def)
qed

abbreviation rest_of :: "parser \<Rightarrow> (string \<Rightarrow> bool) \<Rightarrow> string list \<Rightarrow> string list \<Rightarrow> parse_state \<Rightarrow> linker_flag list" where
  "rest_of P ex dirs ts s \<equiv> map (promote (in_whole_archive_region s) ts) (flags s) @
     flags_of (\<lambda>m. is_static_available P ex m dirs) (force_whole_archive P) (in_whole_archive_region s) (seen_libs s) ts"

text \<open>One round of the loop: what was emitted, once promoted, and what is to come stay the same list.\<close>

lemma parse_library_step:
  assumes inv: "parse_inv s" and t: "lib_of t = Some n"
  shows "\<exists>s'. handle_library P ex dirs n s = Some s' \<and> parse_inv s' \<and> rest_of P ex dirs ts s' = rest_of P ex dirs (t # ts) s"
proof (cases "n \<in> seen_libs s")
  case True
  from handle_seen [OF inv True t, of P ex dirs ts] True t show ?thesis
    by (auto simp: flags_of_lib simp del: flags_of.simps)
next
  case False
  from handle_new [OF inv False t, of P ex dirs ts] False t show ?thesis
    by (auto simp: flags_of_lib simp del: flags_of.simps)
qed

lemma parse_flag_step:
  assumes inv: "parse_inv s"
  shows "\<exists>s'. parse_flag P ex dirs t s = Some s' \<and> parse_inv s' \<and> rest_of P ex dirs ts s' = rest_of P ex dirs (t # ts) s"
proof -
  let ?r = "in_whole_archive_region s"
  have keep: "map (promote (region_step ?r t) ts) fs = map (promote ?r (t # ts)) fs"
    if "lib_of t = None" for fs
    using that by (intro map_cong [OF refl] promote_eq) simp
  show ?thesis
  proof (cases t rule: token_cases)
    case (search p)
    have "parse_inv (s\<lparr>flags := flags s @ [SearchPath p]\<rparr>)"
      using parse_inv_push [OF inv, of "SearchPath p" "seen_libs s" ?r] by simp
    with search keep show ?thesis by (simp add: parse_flag_L del: append.simps)
  next
    case (linker a)
    have "parse_inv (s\<lparr>in_whole_archive_region := region_step ?r t,
        flags := flags s @ (if kept_arg t then [LinkerArg t] else [])\<rparr>)"
      using parse_inv_push [OF inv, of "LinkerArg t" "seen_libs s" "region_step ?r t"]
        parse_inv_region [OF inv, of "region_step ?r t"] by simp
    with keep linker show ?thesis
      by (auto simp: parse_flag_Wl flags_of_Wl simp del: append.simps flags_of.simps)
  next
    case (library n)
    with parse_library_step [OF inv library, of P ex dirs ts] show ?thesis by (simp add: parse_flag_lib)
  next
    case other
    have "parse_inv (s\<lparr>flags := flags s @ [Library ''pthread'' Default],
        seen_libs := insert ''pthread'' (seen_libs s)\<rparr>)"
      using parse_inv_push [OF inv, of "Library ''pthread'' Default" "insert ''pthread'' (seen_libs s)" ?r] by auto
    moreover have "region_step ?r t = ?r" using other by (simp add: region_step_other)
    ultimately show ?thesis
      using inv keep [OF other(1)] other by (auto simp: parse_flag_other flags_of_other simp del: flags_of.simps)
  qed
qed

lemma parse_flags_refines:
  assumes "parse_inv s"
  shows "\<exists>s'. parse_flags P ex dirs ts s = Some s' \<and> flags s' = rest_of P ex dirs ts s"
  using assms
proof (induction ts arbitrary: s)
  case Nil
  then show ?case by (simp add: map_idI)
next
  case (Cons t ts)
  from parse_flag_step [OF Cons.prems, of P ex dirs t ts] obtain s' where
    "parse_flag P ex dirs t s = Some s'" "parse_inv s'" "rest_of P ex dirs ts s' = rest_of P ex dirs (t # ts) s" by blast
  with Cons.IH [of s'] show ?case by auto
qed

lemma parse_eq:
  "parse P ex out =
     Some (flags_of (\<lambda>n. is_static_available P ex n (collect_lib_dirs (split_whitespace out)))
             (force_whole_archive P) False {} (split_whitespace out))"
proof -
  let ?ts = "split_whitespace out"
  from parse_flags_refines [OF parse_inv_start, of P ex "collect_lib_dirs ?ts" ?ts]
  show ?thesis by (auto simp: parse_def Let_def parse_start_def)
qed

text \<open>
  C1: The parser never panics, and on every input its flag list is the declarative one: one pass over
  the tokens in which each library is decided, when first named, from all of the input.
\<close>

theorem parse_refines:
  "parse P ex out =
     Some (flags_of (\<lambda>n. is_static_available P ex n (collect_lib_dirs (split_whitespace out)))
             (force_whole_archive P) False {} (split_whitespace out))"
  by (rule parse_eq)

section \<open>What the flag list holds\<close>

fun lib_names :: "linker_flag list \<Rightarrow> string list" where
  "lib_names [] = []"
| "lib_names (Library n k # fs) = n # lib_names fs"
| "lib_names (f # fs) = lib_names fs"

fun search_paths :: "linker_flag list \<Rightarrow> string list" where
  "search_paths [] = []"
| "search_paths (SearchPath p # fs) = p # search_paths fs"
| "search_paths (f # fs) = search_paths fs"

fun linker_args :: "linker_flag list \<Rightarrow> string list" where
  "linker_args [] = []"
| "linker_args (LinkerArg a # fs) = a # linker_args fs"
| "linker_args (f # fs) = linker_args fs"

lemma lib_names_flags_of: "set (lib_names (flags_of st fo r seen ts)) \<inter> seen = {} \<and>
    distinct (lib_names (flags_of st fo r seen ts))"
proof (induction ts arbitrary: r seen)
  case (Cons t ts)
  show ?case
    using Cons.IH [of r "insert (the (lib_of t)) seen"] Cons.IH [of r "insert ''pthread'' seen"]
      Cons.IH [of r seen] Cons.IH [of "region_step r t" seen]
    by (auto split: option.splits)
qed simp

lemma search_paths_flags_of: "search_paths (flags_of st fo r seen ts) = collect_lib_dirs ts"
proof (induction ts arbitrary: r seen)
  case (Cons t ts)
  show ?case
  proof (cases t rule: token_cases)
    case (library n)
    then have "strip_prefix ''-L'' t = None" by (auto simp: strip_prefix_eq_None lib_of_def)
    with Cons library show ?thesis by simp
  next
    case other
    then have "strip_prefix ''-L'' t = None" by (auto simp: strip_prefix_eq_None)
    with Cons other show ?thesis by (simp add: flags_of_other del: flags_of.simps)
  qed (use Cons in \<open>auto simp: flags_of_Wl simp del: flags_of.simps append.simps\<close>)
qed simp

lemma linker_args_flags_of: "linker_args (flags_of st fo r seen ts) = filter kept_arg ts"
proof (induction ts arbitrary: r seen)
  case (Cons t ts)
  show ?case
  proof (cases t rule: token_cases)
    case (library n)
    then have "\<not> kept_arg t" by (auto simp: kept_arg_def lib_of_def)
    with Cons library show ?thesis by simp
  next
    case (search p)
    then have "\<not> kept_arg t" by (auto simp: kept_arg_def)
    with Cons search show ?thesis by (simp del: flags_of.simps append.simps)
  next
    case other
    then have "\<not> kept_arg t" by (auto simp: kept_arg_def)
    with Cons other show ?thesis by (simp add: flags_of_other del: flags_of.simps)
  qed (use Cons in \<open>auto simp: flags_of_Wl simp del: flags_of.simps append.simps\<close>)
qed simp

text \<open>No library is emitted twice, whatever mix of \<open>-l\<close>, \<open>-l:\<close> and \<open>-pthread\<close> names it.\<close>

theorem parse_distinct: "\<exists>fs. parse P ex out = Some fs \<and> distinct (lib_names fs)"
  using lib_names_flags_of by (simp add: parse_eq)

text \<open>
  The search paths are exactly those of the \<open>-L\<close> tokens, and the raw linker arguments exactly the
  \<open>-Wl,\<close> tokens that mention export-dynamic or as-needed, both in the order of the input.
\<close>

theorem parse_order:
  "\<exists>fs. parse P ex out = Some fs \<and>
     search_paths fs = collect_lib_dirs (split_whitespace out) \<and>
     linker_args fs = filter kept_arg (split_whitespace out)"
  by (simp add: parse_eq search_paths_flags_of linker_args_flags_of)

definition asked :: "string \<Rightarrow> string list \<Rightarrow> bool" where
  "asked n ts \<longleftrightarrow> (\<exists>t \<in> set ts. lib_of t = Some n)"

lemma lib_of_pthread [simp]: "lib_of ''-pthread'' = None"
  by (simp add: lib_of_def)

lemma flags_of_Library:
  assumes "n \<notin> seen" "n = ''pthread'' \<longrightarrow> ''-pthread'' \<notin> set ts"
  shows "Library n k \<in> set (flags_of st fo r seen ts) \<longleftrightarrow> asked n ts \<and> k = decided_kind st fo n r ts"
  using assms
proof (induction ts arbitrary: r seen)
  case (Cons t ts)
  have seen: "Library m k \<notin> set (flags_of st fo q S us)" if "m \<in> S" for m q S us
  proof
    assume "Library m k \<in> set (flags_of st fo q S us)"
    moreover have "Library m k \<in> set fs \<Longrightarrow> m \<in> set (lib_names fs)" for fs
      by (induction fs rule: lib_names.induct) auto
    ultimately show False using that lib_names_flags_of [of st fo q S us] by blast
  qed
  have other: "decided_kind st fo n r (t # ts) = decided_kind st fo n (region_step r t) ts"
    if "lib_of t \<noteq> Some n" using that by (simp add: decided_kind_def)
  show ?case
  proof (cases "lib_of t")
    case None
    then show ?thesis
      using Cons other seen [of "''pthread''" "insert ''pthread'' seen" r ts]
      by (auto simp: asked_def region_step_other strip_prefix_eq_None split: option.splits)
  next
    case (Some m)
    then show ?thesis
      using Cons other seen [of n "insert n seen" r ts]
      by (cases "m = n") (auto simp: asked_def region_step_lib)
  qed
qed (simp add: asked_def)

text \<open>
  C23: The link kinds of the crate's table: a library is emitted iff some \<open>-l\<close> or \<open>-l:\<close> token asks for it,
  as Default without an eligible archive, as WholeArchive if it has one and is forced or any of its
  tokens lies in a whole-archive region, and as Static otherwise (a library first named by \<open>-pthread\<close>
  apart). So forcing does not override the detection of archives, although the comments of the option
  say that a forced library is always linked whole-archive.
\<close>

theorem parse_kind:
  assumes "parse P ex out = Some fs" and "ts = split_whitespace out"
    and "n = ''pthread'' \<longrightarrow> ''-pthread'' \<notin> set ts"
  shows "Library n k \<in> set fs \<longleftrightarrow> asked n ts \<and>
     k = (if \<not> is_static_available P ex n (collect_lib_dirs ts) then Default
          else if n \<in> force_whole_archive P \<or> asked_in_region n False ts then WholeArchive
          else Static)"
  using assms flags_of_Library [of n "{}" ts k] by (auto simp: parse_eq decided_kind_def)

theorem parse_kind_witness:
  "Library ''a'' WholeArchive \<in>
     set (the (parse parser_new (\<lambda>p. p = ''/x/liba.a'') ''-L/x -la -Wl,--whole-archive -l:liba.a''))"
proof -
  let ?ex = "\<lambda>p. p = ''/x/liba.a''"
  let ?out = "''-L/x -la -Wl,--whole-archive -l:liba.a''"
  have ts: "split_whitespace ?out = [''-L/x'', ''-la'', ''-Wl,--whole-archive'', ''-l:liba.a'']"
    by code_simp
  obtain fs where fs: "parse parser_new ?ex ?out = Some fs" by (simp add: parse_eq)
  have "is_static_available parser_new ?ex ''a'' (collect_lib_dirs (split_whitespace ?out))"
    unfolding ts by code_simp
  moreover have "asked_in_region ''a'' False (split_whitespace ?out)" unfolding ts by code_simp
  moreover have "asked ''a'' (split_whitespace ?out)" unfolding ts asked_def by code_simp
  ultimately show ?thesis
    using parse_kind [OF fs refl, of "''a''" WholeArchive] fs by simp
qed

section \<open>More input never downgrades a library\<close>

lemma asked_in_region_append: "asked_in_region n r ts \<Longrightarrow> asked_in_region n r (ts @ us)"
  by (induction ts arbitrary: r) auto

lemma decided_kind_mono:
  assumes "st n \<Longrightarrow> st' n"
  shows "decided_kind st fo n r ts \<le> decided_kind st' fo n r (ts @ us)"
  using assms asked_in_region_append [of n r ts us]
  by (auto simp: decided_kind_def less_eq_link_kind_def)

lemma flags_of_mono:
  assumes "\<And>n. st n \<Longrightarrow> st' n" "Library n k \<in> set (flags_of st fo r seen ts)"
  shows "\<exists>k'. k \<le> k' \<and> Library n k' \<in> set (flags_of st' fo r seen (ts @ us))"
  using assms(2)
proof (induction ts arbitrary: r seen)
  case (Cons t ts)
  have kind: "decided_kind st fo n r (t # ts) \<le> decided_kind st' fo n r ((t # ts) @ us)"
    using assms(1) by (rule decided_kind_mono)
  show ?case
    using Cons kind by (fastforce split: option.splits if_splits)
qed simp

lemma collect_lib_dirs_append: "collect_lib_dirs (ts @ us) = collect_lib_dirs ts @ collect_lib_dirs us"
  by (induction ts) (auto split: option.splits)

lemma is_static_available_append:
  "is_static_available P ex n ds \<Longrightarrow> is_static_available P ex n (ds @ es)"
  by (auto simp: is_static_available_def Let_def)

text \<open>
  C36: Appending flags to the output of pkg-config never loses a library and never lowers its link
  kind in the order Default, Static, WholeArchive.
\<close>

theorem parse_never_downgrades:
  assumes "parse P ex (a @ CHR 0x20 # b) = Some gs" and "parse P ex a = Some fs"
    and "Library n k \<in> set fs"
  shows "\<exists>k'. k \<le> k' \<and> Library n k' \<in> set gs"
proof -
  let ?ts = "split_whitespace a" and ?us = "split_whitespace b"
  have "split_whitespace (a @ CHR 0x20 # b) = ?ts @ ?us" by (rule split_whitespace_append)
  with assms show ?thesis
    using flags_of_mono [of "\<lambda>n. is_static_available P ex n (collect_lib_dirs ?ts)"
        "\<lambda>n. is_static_available P ex n (collect_lib_dirs (?ts @ ?us))" n k
        "force_whole_archive P" False "{}" ?ts ?us]
    by (auto simp: parse_eq collect_lib_dirs_append is_static_available_append)
qed

theorem parse_never_downgrades_witness:
  "\<exists>k'. Static \<le> k' \<and> Library ''a'' k' \<in> set (the (parse parser_new (\<lambda>p. p = ''/x/liba.a'')
     (''-L/x -la'' @ CHR 0x20 # ''-Wl,--whole-archive -la'')))"
proof -
  let ?ex = "\<lambda>p. p = ''/x/liba.a''"
  have fs: "parse parser_new ?ex ''-L/x -la'' = Some [SearchPath ''/x'', Library ''a'' Static]"
    by code_simp
  obtain gs where gs: "parse parser_new ?ex (''-L/x -la'' @ CHR 0x20 # ''-Wl,--whole-archive -la'') = Some gs"
    unfolding parse_eq by blast
  from parse_never_downgrades [OF gs fs, of "''a''" Static] show ?thesis unfolding gs by simp
qed

end
