(* ===== verification/PkgConf_Convert.thy ===== *)
theory PkgConf_Convert
  imports PkgConf_Correct
begin

text \<open>
  Correctness of the rest of \<open>PkgConf\<close>: names of explicit archives, the detection of static
  libraries, the directives, the compiler flags and \<open>probe\<close>.
\<close>

section \<open>Explicit archives and system directories\<close>

lemma archive_name_lib [simp]: "archive_name (''lib'' @ n @ ''.a'') = n"
  using strip_suffix_append [of "''.a''" n] by (simp add: archive_name_def)

lemma archive_name_plain: "strip_prefix ''lib'' r = None \<Longrightarrow> archive_name r = unwrap_or (strip_suffix ''.a'' r) r"
  by (simp add: archive_name_def)

text \<open>
  C40: \<open>-l:libn.a\<close> and \<open>-ln\<close> are interchangeable: they have the same effect on every state of the
  parser, so the two spellings of one library are deduplicated and upgraded together.
\<close>

theorem archive_flag_equiv:
  assumes "take 1 n \<noteq> '':''"
  shows "parse_flag P ex dirs (''-l:lib'' @ n @ ''.a'') s = parse_flag P ex dirs (''-l'' @ n) s"
proof -
  have "strip_prefix ''-l:'' (''-l'' @ n) = None"
    using assms by (cases n) (auto simp: strip_prefix_eq_None)
  then have "lib_of (''-l'' @ n) = Some n" by (simp add: lib_of_def)
  moreover have "lib_of (''-l:lib'' @ n @ ''.a'') = Some n"
    using archive_name_lib [of n] by (simp add: lib_of_def)
  ultimately show ?thesis by (simp only: parse_flag_lib)
qed

theorem archive_flag_equiv_witness:
  "parse_flag parser_new (\<lambda>_. False) [] (''-l:lib'' @ ''rte_eal'' @ ''.a'') parse_start =
   parse_flag parser_new (\<lambda>_. False) [] (''-l'' @ ''rte_eal'') parse_start"
  by (rule archive_flag_equiv) simp

text \<open>An archive whose name does not end in \<open>.a\<close> keeps its \<open>lib\<close> prefix.\<close>

lemma archive_name_shared: "archive_name ''libfoo.so'' = ''libfoo.so''"
  by code_simp

lemma is_static_available_iff:
  "is_static_available P ex n dirs \<longleftrightarrow>
     (\<exists>d \<in> set dirs. ex (path_join d (''lib'' @ n @ ''.a'')) \<and>
        (\<forall>r \<in> set (system_roots P). \<not> path_starts_with d r))"
  by (auto simp: is_static_available_def Let_def list_ex_iff)

lemma path_components_abs: "path_components (CHR ''/'' # s) = RootDir # concat (map inner_component (split_slash s))"
  by (simp add: path_components_def)

lemma split_slash_nonempty: "split_slash s \<noteq> []"
  by (cases s) (auto split: list.splits)

lemma usr_root: "path_components ''/usr'' = [RootDir, Normal ''usr'']"
  by code_simp

lemma path_starts_with_usr:
  "path_starts_with (''/usr/'' @ d) ''/usr''"
  by (simp add: path_starts_with_def usr_root path_components_abs)

lemma path_not_starts_with_usr:
  assumes "c \<noteq> CHR ''/''"
  shows "\<not> path_starts_with (''/usr'' @ c # d) ''/usr''"
  using assms split_slash_nonempty [of d]
  by (auto simp: path_starts_with_def usr_root path_components_abs split: list.splits)

text \<open>
  With the default system roots an archive under \<open>/usr\<close> never makes a library static, and the
  exclusion goes by path components: a directory such as \<open>/usr2/lib\<close> is not excluded.
\<close>

theorem default_system_roots:
  assumes "c \<noteq> CHR ''/''"
  shows "\<not> is_static_available parser_new ex n [''/usr/'' @ d] \<and>
     (is_static_available parser_new ex n [''/usr'' @ c # d]
        \<longleftrightarrow> ex (path_join (''/usr'' @ c # d) (''lib'' @ n @ ''.a'')))"
  using path_starts_with_usr [of d] path_not_starts_with_usr [OF assms, of d]
  by (simp add: is_static_available_iff parser_new_def)

theorem default_system_roots_witness:
  "\<not> is_static_available parser_new (\<lambda>_. True) ''z'' [''/usr/lib''] \<and>
   is_static_available parser_new (\<lambda>_. True) ''z'' [''/usr2lib'']"
  using default_system_roots [where c = "CHR ''2''" and ex = "\<lambda>_. True" and n = "''z''" and d = "''lib''"]
  by simp

section \<open>Directives\<close>

fun plain_name :: "linker_flag \<Rightarrow> bool" where
  "plain_name (Library n k) = (CHR ''='' \<notin> set n)"
| "plain_name f = True"

fun kind_tag :: "link_kind \<Rightarrow> bool \<Rightarrow> string" where
  "kind_tag Default nb = []"
| "kind_tag Static nb = (if nb then ''static:-bundle='' else ''static='')"
| "kind_tag WholeArchive nb =
     (if nb then ''static:+whole-archive,-bundle='' else ''static:+whole-archive='')"

lemma directive_Library:
  "to_cargo_directive (Library n k) nb = ''cargo:rustc-link-lib='' @ kind_tag k nb @ n"
  by (cases k) simp_all

lemma kind_tag_eq: "k \<noteq> Default \<Longrightarrow> CHR ''='' \<in> set (kind_tag k nb)"
  by (cases k) simp_all

lemma kind_tag_inject:
  assumes "CHR ''='' \<notin> set m" "CHR ''='' \<notin> set n" "kind_tag k nb @ m = kind_tag l nb @ n"
  shows "k = l \<and> m = n"
proof (cases "k = Default \<or> l = Default")
  case True
  have "CHR ''='' \<in> set (kind_tag k nb @ m) \<longleftrightarrow> CHR ''='' \<in> set (kind_tag l nb @ n)"
    using assms(3) by simp
  with True assms(1,2) kind_tag_eq [of k nb] kind_tag_eq [of l nb] have "k = l"
    by (auto simp del: kind_tag.simps(2,3))
  with assms(3) show ?thesis by simp
next
  case False
  with assms(3) show ?thesis by (cases k; cases l; cases nb) simp_all
qed

text \<open>
  A directive determines the flag it was made from, so cargo is told the kind of every library
  without ambiguity, provided no library name holds an equals sign.
\<close>

theorem to_cargo_directive_inject:
  assumes "plain_name f" and "plain_name g"
  shows "to_cargo_directive f nb = to_cargo_directive g nb \<longleftrightarrow> f = g"
proof
  assume eq: "to_cargo_directive f nb = to_cargo_directive g nb"
  show "f = g"
  proof (cases "\<exists>m k n l. f = Library m k \<and> g = Library n l")
    case True
    then obtain m k n l where fg: "f = Library m k" "g = Library n l" by blast
    with eq have "kind_tag k nb @ m = kind_tag l nb @ n"
      by (simp only: directive_Library same_append_eq)
    with assms fg show ?thesis using kind_tag_inject [of m n k nb l] by simp
  next
    case False
    with eq show ?thesis
      by (cases f; cases g) (auto simp: directive_Library simp del: to_cargo_directive.simps(2))
  qed
qed simp

theorem to_cargo_directive_inject_witness:
  "to_cargo_directive (Library ''foo'' Static) True \<noteq>
   to_cargo_directive (Library ''foo'' WholeArchive) True"
  using to_cargo_directive_inject [of "Library ''foo'' Static" "Library ''foo'' WholeArchive" True]
  by (simp del: to_cargo_directive.simps)

text \<open>
  What the build script prints for the linker is, after whatever was printed before, one
  directive per flag in the order of the flags.
\<close>

theorem emit_cargo_metadata_eq:
  "emit_cargo_metadata fs nb out = out @ map (\<lambda>f. to_cargo_directive f nb) fs"
  by (simp add: emit_cargo_metadata_def to_cargo_directives_def print_lines_append)

section \<open>Compiler flags\<close>

text \<open>The first occurrences of a list, in order.\<close>

definition firsts :: "'a list \<Rightarrow> 'a list" where
  "firsts xs = rev (remdups (rev xs))"

definition is_cflag :: "string \<Rightarrow> bool" where
  "is_cflag t \<longleftrightarrow> strip_prefix ''-I'' t \<noteq> None \<or> strip_prefix ''-D'' t \<noteq> None"

lemma firsts_snoc: "firsts (xs @ [x]) = (if x \<in> set xs then firsts xs else firsts xs @ [x])"
  by (simp add: firsts_def)

lemma firsts_distinct: "distinct xs \<Longrightarrow> firsts xs = xs"
  by (simp add: firsts_def distinct_remdups_id)

lemma define_clang_arg:
  "to_clang_arg (case split_once CHR ''='' d of
      None \<Rightarrow> Define d None | Some (k, v) \<Rightarrow> Define k (Some v)) = ''-D'' @ d"
  by (cases "split_once CHR ''='' d") (auto simp: split_once_Some)

lemma parse_cflag_new:
  assumes "is_cflag t" "t \<notin> seen"
  shows "\<exists>f. parse_cflag t (fs, seen) = (fs @ [f], insert t seen) \<and> to_clang_arg f = t"
proof (cases "strip_prefix ''-I'' t")
  case (Some p)
  with assms show ?thesis by (auto simp: parse_cflag_def)
next
  case None
  with assms obtain d where d: "t = ''-D'' @ d" by (auto simp: is_cflag_def)
  with None assms define_clang_arg [of d] show ?thesis
    by (auto simp: parse_cflag_def split: option.splits)
qed

lemma parse_cflag_skip:
  "\<not> is_cflag t \<or> t \<in> seen \<Longrightarrow> parse_cflag t (fs, seen) = (fs, seen)"
  by (auto simp: parse_cflag_def is_cflag_def split: option.splits)

lemma fold_parse_cflag:
  "\<exists>fs. fold parse_cflag ts ([], {}) = (fs, set (filter is_cflag ts)) \<and>
     to_clang_args fs = firsts (filter is_cflag ts)"
proof (induction ts rule: rev_induct)
  case Nil
  then show ?case by (simp add: firsts_def to_clang_args_def)
next
  case (snoc t ts)
  then obtain fs where fs: "fold parse_cflag ts ([], {}) = (fs, set (filter is_cflag ts))"
    "to_clang_args fs = firsts (filter is_cflag ts)" by blast
  show ?case
  proof (cases "is_cflag t \<and> t \<notin> set ts")
    case True
    with parse_cflag_new [of t "set (filter is_cflag ts)" fs] fs show ?thesis
      by (auto simp: firsts_snoc to_clang_args_def)
  next
    case False
    with parse_cflag_skip [of t "set (filter is_cflag ts)" fs] fs show ?thesis
      by (auto simp: firsts_snoc)
  qed
qed

lemma to_clang_args_parse_cflags:
  "to_clang_args (parse_cflags out) = firsts (filter is_cflag (split_whitespace out))"
  using fold_parse_cflag [of "split_whitespace out"] by (auto simp: parse_cflags_def)

text \<open>
  The clang arguments made from parsed compiler flags are the \<open>-I\<close> and \<open>-D\<close> tokens of the input,
  verbatim, each at its first occurrence and in that order.
\<close>

theorem parse_cflags_args:
  "to_clang_args (parse_cflags out) = firsts (filter is_cflag (split_whitespace out))"
  by (rule to_clang_args_parse_cflags)

fun wf_cflag :: "compiler_flag \<Rightarrow> bool" where
  "wf_cflag (IncludePath p) = list_all plain_char p"
| "wf_cflag (Define k v) = (list_all plain_char k \<and> CHR ''='' \<notin> set k \<and>
     (case v of None \<Rightarrow> True | Some x \<Rightarrow> list_all plain_char x))"

lemma wf_cflag_token: "wf_cflag f \<Longrightarrow> plain_token (to_clang_arg f) \<and> is_cflag (to_clang_arg f)"
  by (cases f rule: to_clang_arg.cases) (auto simp: plain_token_def plain_char_def is_cflag_def)

lemma to_clang_arg_inject: "wf_cflag f \<Longrightarrow> wf_cflag g \<Longrightarrow> to_clang_arg f = to_clang_arg g \<Longrightarrow> f = g"
  by (cases f rule: to_clang_arg.cases; cases g rule: to_clang_arg.cases)
    (auto simp: append_eq_append_conv2 Cons_eq_append_conv append_eq_Cons_conv)

lemma wf_parse_cflag:
  assumes "list_all plain_char t" "list_all wf_cflag fs"
  shows "list_all wf_cflag (fst (parse_cflag t (fs, seen)))"
  using assms
  by (auto simp: parse_cflag_def split_once_Some split_once_None split: option.splits)

lemma wf_fold_parse_cflag:
  "list_all (list_all plain_char) ts \<Longrightarrow> list_all wf_cflag fs \<Longrightarrow>
     list_all wf_cflag (fst (fold parse_cflag ts (fs, seen)))"
proof (induction ts arbitrary: fs seen)
  case (Cons t ts)
  obtain gs S where "parse_cflag t (fs, seen) = (gs, S)" by fastforce
  with Cons wf_parse_cflag [of t fs seen] show ?case by simp
qed simp

text \<open>
  C37: Round trip: rendering distinct well-formed compiler flags as clang arguments on one line and
  parsing that line gives the flags back.
\<close>

theorem parse_cflags_roundtrip:
  assumes "list_all wf_cflag fs" and "distinct fs"
  shows "parse_cflags (unwords (to_clang_args fs)) = fs"
proof -
  let ?ts = "to_clang_args fs" and ?gs = "parse_cflags (unwords (to_clang_args fs))"
  have tok: "list_all plain_token ?ts" "filter is_cflag ?ts = ?ts"
    using assms(1) wf_cflag_token
    by (auto simp: to_clang_args_def list_all_iff intro!: filter_True)
  have "inj_on to_clang_arg (set fs)"
    using assms(1) by (auto simp: inj_on_def list_all_iff intro: to_clang_arg_inject)
  then have "distinct ?ts" using assms(2) by (simp add: to_clang_args_def distinct_map)
  with tok have eq: "map to_clang_arg ?gs = map to_clang_arg fs"
    using to_clang_args_parse_cflags [of "unwords ?ts"]
    by (simp add: split_whitespace_unwords firsts_distinct to_clang_args_def)
  have "list_all wf_cflag ?gs"
    using wf_fold_parse_cflag [of ?ts "[]" "{}"] tok(1)
    by (simp add: parse_cflags_def split_whitespace_unwords plain_token_def list_all_iff)
  with assms(1) have "inj_on to_clang_arg (set ?gs \<union> set fs)"
    by (auto simp: inj_on_def list_all_iff intro: to_clang_arg_inject)
  with eq show ?thesis by (rule map_inj_on)
qed

theorem parse_cflags_roundtrip_witness:
  "parse_cflags (unwords (to_clang_args [IncludePath ''/opt/spdk/include'', Define ''A'' (Some ''1'')]))
     = [IncludePath ''/opt/spdk/include'', Define ''A'' (Some ''1'')]"
  by (rule parse_cflags_roundtrip) (simp_all add: plain_char_def)

section \<open>Probing\<close>

text \<open>
  \<open>probe\<close> never panics, and it succeeds exactly when \<open>--static --libs\<close> and then, in the state the
  first run left, \<open>--cflags\<close> on the same packages both start and exit successfully; the result holds
  the parses of the two outputs.
\<close>

theorem probe_success_iff:
  "probe P ex cmd pkgs path w \<noteq> None \<and>
   (probe P ex cmd pkgs path w = Some (Inr cfg, w2) \<longleftrightarrow>
     (\<exists>o1 w1 o2. cmd path ([''--static'', ''--libs''] @ pkgs) w = (Inr o1, w1) \<and> success o1 \<and>
        cmd path ([''--cflags''] @ pkgs) w1 = (Inr o2, w2) \<and> success o2 \<and>
        parse P ex (from_utf8_lossy (stdout o1)) = Some (libs cfg) \<and>
        cflags cfg = parse_cflags (from_utf8_lossy (stdout o2))))"
proof -
  have raw: "run_pkg_config_raw cmd args pkgs path v = (Inr r, v') \<longleftrightarrow>
      (\<exists>o'. cmd path (args @ pkgs) v = (Inr o', v') \<and> success o' \<and> r = from_utf8_lossy (stdout o'))"
    for args v v' r
    by (auto simp: run_pkg_config_raw_def split: prod.splits sum.splits)
  have "probe P ex cmd pkgs path w = Some (Inr cfg, w2) \<longleftrightarrow>
      (\<exists>l w1 c. run_pkg_config_raw cmd [''--static'', ''--libs''] pkgs path w = (Inr l, w1) \<and>
         run_pkg_config_raw cmd [''--cflags''] pkgs path w1 = (Inr c, w2) \<and>
         parse P ex l = Some (libs cfg) \<and> cflags cfg = parse_cflags c)"
    by (cases cfg) (auto simp: probe_def run_pkg_config_def run_pkg_config_cflags_def parse_eq
        split: prod.splits sum.splits)
  moreover have "probe P ex cmd pkgs path w \<noteq> None"
    by (simp add: probe_def parse_eq split: prod.splits sum.splits)
  ultimately show ?thesis unfolding raw by blast
qed

text \<open>
  An error of \<open>probe\<close> is the error of the first run that fails: the second run happens only after
  the first succeeded, so a failed \<open>--libs\<close> run leaves the state of that run.
\<close>

theorem probe_error_iff:
  "probe P ex cmd pkgs path w = Some (Inl e, w') \<longleftrightarrow>
     run_pkg_config_raw cmd [''--static'', ''--libs''] pkgs path w = (Inl e, w') \<or>
     (\<exists>l w1. run_pkg_config_raw cmd [''--static'', ''--libs''] pkgs path w = (Inr l, w1) \<and>
        run_pkg_config_raw cmd [''--cflags''] pkgs path w1 = (Inl e, w'))"
  by (auto simp: probe_def run_pkg_config_def run_pkg_config_cflags_def parse_eq
      split: prod.splits sum.splits)

end
