(* ===== verification/Errors.thy ===== *)
theory Errors
  imports RustStr
begin

text \<open>
  \<open>spdk-io/src/error.rs\<close>: the error type of the crate, its display strings (the \<open>#[error]\<close>
  attributes), the conversions from return codes, and \<open>CString::new(..)?\<close>, which converts a
  \<open>NulError\<close> through the derived \<open>From\<close>.
\<close>

datatype error =
    EnvInit string
  | AlreadyInitialized
  | NotInitialized
  | InvalidArgument string
  | NulError nat string
  | IoError
  | DeviceNotFound string
  | ChannelAlloc
  | MemoryAlloc
  | DmaAlloc usize
  | Cancelled
  | ThreadPanic
  | Os i32
  | NvmeError u8 u8
  | ControllerNotFound
  | NamespaceNotFound u32
  | QpairAlloc

definition unsigned_to_string :: "'a::len word \<Rightarrow> string" where
  "unsigned_to_string x = int_to_string (uint x)"

definition i32_to_string :: "i32 \<Rightarrow> string" where
  "i32_to_string x = int_to_string (sint x)"

lemma i32_to_string_inject [simp]: "i32_to_string x = i32_to_string y \<longleftrightarrow> x = y"
  by (auto simp: i32_to_string_def intro: signed_word_eqI)

lemma unsigned_to_string_inject [simp]: "unsigned_to_string x = unsigned_to_string y \<longleftrightarrow> x = y"
  by (auto simp: unsigned_to_string_def intro: unsigned_word_eqI)

fun display :: "error \<Rightarrow> string" where
  "display (EnvInit s) = ''SPDK environment initialization failed: '' @ s"
| "display AlreadyInitialized = ''SPDK environment already initialized''"
| "display NotInitialized = ''SPDK environment not initialized''"
| "display (InvalidArgument s) = ''Invalid argument: '' @ s"
| "display (NulError _ _) = ''String contains null byte''"
| "display IoError = ''I/O operation failed''"
| "display (DeviceNotFound s) = ''Device not found: '' @ s"
| "display ChannelAlloc = ''I/O channel allocation failed''"
| "display MemoryAlloc = ''Memory allocation failed''"
| "display (DmaAlloc n) = ''DMA buffer allocation failed for '' @ unsigned_to_string n @ '' bytes''"
| "display Cancelled = ''Operation cancelled''"
| "display ThreadPanic = ''Thread panicked''"
| "display (Os e) = ''OS error: '' @ i32_to_string e"
| "display (NvmeError sct sc) =
     ''NVMe error: SCT='' @ unsigned_to_string sct @ '', SC='' @ unsigned_to_string sc"
| "display ControllerNotFound = ''NVMe controller not found''"
| "display (NamespaceNotFound n) = ''NVMe namespace not found: '' @ unsigned_to_string n"
| "display QpairAlloc = ''NVMe qpair allocation failed''"

definition from_errno :: "i32 \<Rightarrow> error" where
  "from_errno errno = Os errno"

definition from_rc :: "i32 \<Rightarrow> error" where
  "from_rc rc = (if i32_neg rc then Os (- rc) else Os rc)"

definition cstring :: "string \<Rightarrow> (error, string) result" where
  "cstring s = (case cstring_new s of Inl (n, bs) \<Rightarrow> Inl (NulError n bs) | Inr t \<Rightarrow> Inr t)"

lemma cstring_ok [simp]: "nul \<notin> set s \<Longrightarrow> cstring s = Inr s"
  by (simp add: cstring_def cstring_new_def)

lemma cstring_nul: "nul \<in> set s \<Longrightarrow> cstring s = Inl (NulError (length (takeWhile (\<lambda>c. c \<noteq> nul) s)) s)"
  by (simp add: cstring_def cstring_new_def)

lemma cstring_eq_Inr [simp]: "cstring s = Inr t \<longleftrightarrow> t = s \<and> nul \<notin> set s"
  by (auto simp: cstring_def cstring_new_def)

lemma cstring_eq_Inl: "cstring s = Inl e \<Longrightarrow> nul \<in> set s \<and> (\<exists>n. e = NulError n s)"
  by (auto simp: cstring_def cstring_new_def split: if_splits)

text \<open>
  A return code becomes the operating system error with the magnitude of the code, for every code
  but the least one, whose negation wraps around to itself.
\<close>

theorem from_rc_magnitude:
  assumes "sint rc \<noteq> - (2 ^ 31)"
  shows "\<exists>e. from_rc rc = Os e \<and> sint e = \<bar>sint rc\<bar> \<and> 0 \<le> sint e"
  using sint_uminus_i32 [OF assms] by (simp add: from_rc_def i32_neg_def)

theorem from_rc_magnitude_witness:
  "\<exists>e. from_rc (- 22) = Os e \<and> sint e = 22"
proof -
  have "sint (- 22 :: i32) \<noteq> - (2 ^ 31)" by simp
  from from_rc_magnitude [OF this] show ?thesis by auto
qed

lemma from_rc_least: "from_rc (- (2 ^ 31)) = Os (- (2 ^ 31))"
  by (simp add: from_rc_def)

end
