(* ===== verification/Process.thy ===== *)
theory Process
  imports Errors
begin

text \<open>
  The state of the process that the wrappers share: the crate's global flags and, behind the foreign
  function interface, the state \<open>'w\<close> of SPDK. Every SPDK function is a parameter on \<open>'w\<close>; \<open>call\<close> and
  \<open>exec\<close> run one in the process state.
\<close>

record 'w process =
  ENV_INITIALIZED :: bool
  THREAD_LIB_INITIALIZED :: bool
  ATTACHED_CTRLR :: "ptr option"
  spdk :: 'w

definition fresh_process :: "'w \<Rightarrow> 'w process" where
  "fresh_process w = \<lparr>ENV_INITIALIZED = False, THREAD_LIB_INITIALIZED = False,
                      ATTACHED_CTRLR = None, spdk = w\<rparr>"

definition call :: "('w \<Rightarrow> 'a \<times> 'w) \<Rightarrow> 'w process \<Rightarrow> 'a \<times> 'w process" where
  "call f s = (case f (spdk s) of (r, w) \<Rightarrow> (r, s\<lparr>spdk := w\<rparr>))"

definition exec :: "('w \<Rightarrow> 'w) \<Rightarrow> 'w process \<Rightarrow> 'w process" where
  "exec f s = s\<lparr>spdk := f (spdk s)\<rparr>"

lemma call_eq [ffi_simps]: "f (spdk s) = (r, w) \<Longrightarrow> call f s = (r, s\<lparr>spdk := w\<rparr>)"
  by (simp add: call_def)

lemma call_snd:
  "spdk (snd (call f s)) = snd (f (spdk s))"
  "THREAD_LIB_INITIALIZED (snd (call f s)) = THREAD_LIB_INITIALIZED s"
  "ENV_INITIALIZED (snd (call f s)) = ENV_INITIALIZED s"
  by (simp_all add: call_def split: prod.split)

lemma exec_simps [simp]:
  "spdk (exec f s) = f (spdk s)"
  "ENV_INITIALIZED (exec f s) = ENV_INITIALIZED s"
  "THREAD_LIB_INITIALIZED (exec f s) = THREAD_LIB_INITIALIZED s"
  "ATTACHED_CTRLR (exec f s) = ATTACHED_CTRLR s"
  by (simp_all add: exec_def)

text \<open>
  The end of a call that may panic or loop for ever: a panic carries its message; a loop that never
  ends is the \<open>None\<close> of the option around it.
\<close>

datatype 'a ending = Returned 'a | Panicked string

fun map_ending :: "('a \<Rightarrow> 'b) \<Rightarrow> 'a ending \<Rightarrow> 'b ending" where
  "map_ending f (Returned a) = Returned (f a)"
| "map_ending f (Panicked m) = Panicked m"

section \<open>Global initialisation behind an atomic flag\<close>

text \<open>
  The initialisers of the thread library share one shape: swap the flag to true, return if it was
  set, otherwise call SPDK and reset the flag if that fails. A client may rely on these laws.
\<close>

locale guarded_init =
  fixes init :: "'w process \<Rightarrow> (error, unit) result \<times> 'w process"
    and raw :: "'w \<Rightarrow> i32 \<times> 'w"
  assumes init_set: "THREAD_LIB_INITIALIZED s \<Longrightarrow> init s = (Inr (), s)"
    and init_ok: "\<not> THREAD_LIB_INITIALIZED s \<Longrightarrow> raw (spdk s) = (0, w) \<Longrightarrow>
      init s = (Inr (), s\<lparr>THREAD_LIB_INITIALIZED := True, spdk := w\<rparr>)"
    and init_fail: "\<not> THREAD_LIB_INITIALIZED s \<Longrightarrow> raw (spdk s) = (rc, w) \<Longrightarrow> rc \<noteq> 0 \<Longrightarrow>
      \<exists>m. init s = (Inl (EnvInit m), s\<lparr>THREAD_LIB_INITIALIZED := False, spdk := w\<rparr>)"
begin

lemma init_cases:
  assumes "init s = (r, s')"
  obtains (set) "THREAD_LIB_INITIALIZED s" "r = Inr ()" "s' = s"
  | (ok) w where "\<not> THREAD_LIB_INITIALIZED s" "raw (spdk s) = (0, w)" "r = Inr ()"
      "s' = s\<lparr>THREAD_LIB_INITIALIZED := True, spdk := w\<rparr>"
  | (fail) rc w m where "\<not> THREAD_LIB_INITIALIZED s" "raw (spdk s) = (rc, w)" "rc \<noteq> 0"
      "r = Inl (EnvInit m)" "s' = s\<lparr>THREAD_LIB_INITIALIZED := False, spdk := w\<rparr>"
proof (cases "THREAD_LIB_INITIALIZED s")
  case True
  from init_set [OF this] assms show ?thesis by (intro set [OF True]) simp_all
next
  case False
  obtain rc w where raw: "raw (spdk s) = (rc, w)" by fastforce
  show ?thesis
  proof (cases "rc = 0")
    case True
    with raw have "raw (spdk s) = (0, w)" by simp
    from init_ok [OF False this] assms ok [OF False this] show ?thesis by simp
  next
    case nz: False
    from init_fail [OF False raw nz] obtain m where
      "init s = (Inl (EnvInit m), s\<lparr>THREAD_LIB_INITIALIZED := False, spdk := w\<rparr>)" ..
    with assms show ?thesis by (intro fail [OF False raw nz, of m]) simp_all
  qed
qed

lemma init_flag: "init s = (r, s') \<Longrightarrow> THREAD_LIB_INITIALIZED s' \<longleftrightarrow> r = Inr ()"
  by (erule init_cases) simp_all

lemma init_twice: "init s = (Inr (), s') \<Longrightarrow> init s' = (Inr (), s')"
  using init_flag init_set by auto

lemma init_retry:
  assumes "\<not> THREAD_LIB_INITIALIZED s" "raw (spdk s) = (rc, w)" "rc \<noteq> 0"
    and "raw w = (0, w')"
  shows "\<exists>m s'. init s = (Inl (EnvInit m), s') \<and>
     init s' = (Inr (), s\<lparr>THREAD_LIB_INITIALIZED := True, spdk := w'\<rparr>)"
proof -
  from init_fail [OF assms(1-3)] obtain m where
    "init s = (Inl (EnvInit m), s\<lparr>THREAD_LIB_INITIALIZED := False, spdk := w\<rparr>)" by blast
  moreover have "init (s\<lparr>THREAD_LIB_INITIALIZED := False, spdk := w\<rparr>) =
      (Inr (), s\<lparr>THREAD_LIB_INITIALIZED := True, spdk := w'\<rparr>)"
    using init_ok [of "s\<lparr>THREAD_LIB_INITIALIZED := False, spdk := w\<rparr>" w'] assms(4) by simp
  ultimately show ?thesis by blast
qed

lemma init_other: "init s = (r, s') \<Longrightarrow>
    ENV_INITIALIZED s' = ENV_INITIALIZED s \<and> ATTACHED_CTRLR s' = ATTACHED_CTRLR s"
  by (erule init_cases) simp_all

end

end
