(* ===== verification/Complete.thy ===== *)
theory Complete
  imports Process
begin

text \<open>
  \<open>spdk-io/src/complete.rs\<close>: completion pairs over a one-shot channel, their passage through raw
  pointers, and \<open>block_on\<close>. The channel of the crate \<open>futures_channel\<close> is a parameter (\<open>oneshot\<close>); what
  the code relies on is the hypothesis \<open>oneshot_spec\<close>, which states the crate's documentation through
  an observer of the channels, and \<open>ref_oneshot\<close> is an instance that satisfies it.
\<close>

section \<open>One-shot channels\<close>

type_synonym chan = nat

datatype canceled = Canceled

text \<open>
  The waker in the context of a poll: the one of \<open>block_on\<close>, which does nothing, or the one of a task of
  an executor.
\<close>

datatype waker = NoopWaker | TaskWaker nat

record ('c, 'v) oneshot =
  os_channel :: "'c \<Rightarrow> chan \<times> 'c"
  os_send :: "chan \<Rightarrow> 'v \<Rightarrow> 'c \<Rightarrow> ('v, unit) result \<times> 'c"
  os_poll :: "chan \<Rightarrow> waker \<Rightarrow> 'c \<Rightarrow> (canceled, 'v) result poll \<times> 'c"
  os_drop_tx :: "chan \<Rightarrow> 'c \<Rightarrow> 'c"
  os_drop_rx :: "chan \<Rightarrow> 'c \<Rightarrow> 'c"

text \<open>
  What one can observe of a channel: not made yet; open; holding the sent value; its sender dropped;
  its value taken or its cancellation seen; its receiver dropped.
\<close>

datatype 'v chan_view = Unmade | Open | Sent 'v | SenderGone | Taken | ReceiverGone

text \<open>
  The documentation of \<open>futures_channel::oneshot\<close>: \<open>channel\<close> makes a new open channel; \<open>send\<close> hands
  the value over unless the receiver is gone, when it gives the value back; polling the receiver is
  pending on an open channel, yields a sent value, and yields \<open>Canceled\<close> after the sender was dropped.
\<close>

definition channel_spec :: "('c, 'v) oneshot \<Rightarrow> ('c \<Rightarrow> chan \<Rightarrow> 'v chan_view) \<Rightarrow> bool" where
  "channel_spec os view \<longleftrightarrow> (\<forall>c. let (ch, c') = os_channel os c in
     view c ch = Unmade \<and> view c' = (view c)(ch := Open))"

definition send_spec :: "('c, 'v) oneshot \<Rightarrow> ('c \<Rightarrow> chan \<Rightarrow> 'v chan_view) \<Rightarrow> bool" where
  "send_spec os view \<longleftrightarrow> (\<forall>c ch v. let (r, c') = os_send os ch v c in
     (view c ch = Open \<longrightarrow> r = Inr () \<and> view c' = (view c)(ch := Sent v)) \<and>
     (view c ch = ReceiverGone \<longrightarrow> r = Inl v \<and> view c' = view c))"

definition poll_spec :: "('c, 'v) oneshot \<Rightarrow> ('c \<Rightarrow> chan \<Rightarrow> 'v chan_view) \<Rightarrow> bool" where
  "poll_spec os view \<longleftrightarrow> (\<forall>c ch cx. let (r, c') = os_poll os ch cx c in
     (view c ch = Open \<longrightarrow> r = Pending \<and> view c' = view c) \<and>
     (\<forall>v. view c ch = Sent v \<longrightarrow> r = Ready (Inr v) \<and> view c' = (view c)(ch := Taken)) \<and>
     (view c ch = SenderGone \<longrightarrow> r = Ready (Inl Canceled) \<and> view c' = (view c)(ch := Taken)))"

definition drop_spec :: "('c, 'v) oneshot \<Rightarrow> ('c \<Rightarrow> chan \<Rightarrow> 'v chan_view) \<Rightarrow> bool" where
  "drop_spec os view \<longleftrightarrow> (\<forall>c ch.
     (view c ch = Open \<longrightarrow> view (os_drop_tx os ch c) = (view c)(ch := SenderGone)) \<and>
     (view c ch = ReceiverGone \<longrightarrow> view (os_drop_tx os ch c) = view c) \<and>
     (view c ch \<noteq> Unmade \<longrightarrow> view (os_drop_rx os ch c) = (view c)(ch := ReceiverGone)))"

definition oneshot_spec :: "('c, 'v) oneshot \<Rightarrow> ('c \<Rightarrow> chan \<Rightarrow> 'v chan_view) \<Rightarrow> bool" where
  "oneshot_spec os view \<longleftrightarrow>
     channel_spec os view \<and> send_spec os view \<and> poll_spec os view \<and> drop_spec os view"

lemma oneshot_channel:
  assumes "oneshot_spec os view" "os_channel os c = (ch, c')"
  shows "view c ch = Unmade" "view c' = (view c)(ch := Open)"
proof -
  from assms(1) have "channel_spec os view" by (simp add: oneshot_spec_def)
  then have "let (ch, c') = os_channel os c in view c ch = Unmade \<and> view c' = (view c)(ch := Open)"
    unfolding channel_spec_def ..
  with assms(2) show "view c ch = Unmade" "view c' = (view c)(ch := Open)" by simp_all
qed

lemma oneshot_send:
  assumes "oneshot_spec os view"
  shows "view c ch = Open \<Longrightarrow> view (snd (os_send os ch v c)) = (view c)(ch := Sent v)"
    and "view c ch = ReceiverGone \<Longrightarrow> view (snd (os_send os ch v c)) = view c"
proof -
  from assms have "send_spec os view" by (simp add: oneshot_spec_def)
  then have "let (r, c') = os_send os ch v c in
     (view c ch = Open \<longrightarrow> r = Inr () \<and> view c' = (view c)(ch := Sent v)) \<and>
     (view c ch = ReceiverGone \<longrightarrow> r = Inl v \<and> view c' = view c)"
    unfolding send_spec_def by blast
  then show "view c ch = Open \<Longrightarrow> view (snd (os_send os ch v c)) = (view c)(ch := Sent v)"
    and "view c ch = ReceiverGone \<Longrightarrow> view (snd (os_send os ch v c)) = view c"
    by (simp_all add: split_beta)
qed

lemma oneshot_poll:
  assumes "oneshot_spec os view" "os_poll os ch cx c = (r, c')"
  shows "view c ch = Open \<Longrightarrow> r = Pending \<and> view c' = view c"
    and "view c ch = Sent v \<Longrightarrow> r = Ready (Inr v) \<and> view c' = (view c)(ch := Taken)"
    and "view c ch = SenderGone \<Longrightarrow> r = Ready (Inl Canceled) \<and> view c' = (view c)(ch := Taken)"
proof -
  from assms(1) have "poll_spec os view" by (simp add: oneshot_spec_def)
  then have "let (r, c') = os_poll os ch cx c in
     (view c ch = Open \<longrightarrow> r = Pending \<and> view c' = view c) \<and>
     (\<forall>v. view c ch = Sent v \<longrightarrow> r = Ready (Inr v) \<and> view c' = (view c)(ch := Taken)) \<and>
     (view c ch = SenderGone \<longrightarrow> r = Ready (Inl Canceled) \<and> view c' = (view c)(ch := Taken))"
    unfolding poll_spec_def by blast
  with assms(2) show "view c ch = Open \<Longrightarrow> r = Pending \<and> view c' = view c"
    and "view c ch = Sent v \<Longrightarrow> r = Ready (Inr v) \<and> view c' = (view c)(ch := Taken)"
    and "view c ch = SenderGone \<Longrightarrow> r = Ready (Inl Canceled) \<and> view c' = (view c)(ch := Taken)"
    by simp_all
qed

lemma oneshot_drop:
  assumes "oneshot_spec os view"
  shows "view c ch = Open \<Longrightarrow> view (os_drop_tx os ch c) = (view c)(ch := SenderGone)"
    and "view c ch = ReceiverGone \<Longrightarrow> view (os_drop_tx os ch c) = view c"
    and "view c ch \<noteq> Unmade \<Longrightarrow> view (os_drop_rx os ch c) = (view c)(ch := ReceiverGone)"
  using assms by (simp_all add: oneshot_spec_def drop_spec_def)

text \<open>
  The documentation of wakers: a poll that is pending registers the waker of its context with the channel,
  in place of an earlier one; no call touches the wakers of other channels. (What a registered waker is
  for, to be called when the channel is open no more, is in \<open>Wakers\<close>.)
\<close>

definition waker_spec ::
  "('c, 'v) oneshot \<Rightarrow> ('c \<Rightarrow> chan \<Rightarrow> 'v chan_view) \<Rightarrow> ('c \<Rightarrow> chan \<Rightarrow> waker option) \<Rightarrow> bool" where
  "waker_spec os view registered \<longleftrightarrow> (\<forall>c ch d.
     (\<forall>cx. view c ch = Open \<longrightarrow> registered (snd (os_poll os ch cx c)) ch = Some cx) \<and>
     (d \<noteq> ch \<longrightarrow>
        (\<forall>cx. registered (snd (os_poll os ch cx c)) d = registered c d) \<and>
        (\<forall>v. registered (snd (os_send os ch v c)) d = registered c d) \<and>
        registered (os_drop_tx os ch c) d = registered c d \<and>
        registered (os_drop_rx os ch c) d = registered c d) \<and>
     (d \<noteq> fst (os_channel os c) \<longrightarrow> registered (snd (os_channel os c)) d = registered c d))"

lemma waker_specD:
  assumes "waker_spec os view registered"
  shows "view c ch = Open \<Longrightarrow> os_poll os ch cx c = (q, c') \<Longrightarrow> registered c' ch = Some cx"
    and "d \<noteq> ch \<Longrightarrow> os_poll os ch cx c = (q, c') \<Longrightarrow> registered c' d = registered c d"
    and "d \<noteq> ch \<Longrightarrow> registered (snd (os_send os ch v c)) d = registered c d"
    and "d \<noteq> ch \<Longrightarrow> registered (os_drop_rx os ch c) d = registered c d"
    and "os_channel os c = (ch, c') \<Longrightarrow> d \<noteq> ch \<Longrightarrow> registered c' d = registered c d"
  using assms unfolding waker_spec_def by (metis fst_conv snd_conv)+

text \<open>An instance: the channels are their views and wakers, numbered in the order of creation.\<close>

record 'v chan_store =
  next_chan :: chan
  chan_state :: "chan \<Rightarrow> 'v chan_view"
  chan_waker :: "chan \<Rightarrow> waker option"

definition no_chans :: "'v chan_store" where
  "no_chans = \<lparr>next_chan = 0, chan_state = (\<lambda>_. Unmade), chan_waker = (\<lambda>_. None)\<rparr>"

definition ref_view :: "'v chan_store \<Rightarrow> chan \<Rightarrow> 'v chan_view" where
  "ref_view c ch = (if ch < next_chan c then chan_state c ch else Unmade)"

definition ref_set :: "chan \<Rightarrow> 'v chan_view \<Rightarrow> 'v chan_store \<Rightarrow> 'v chan_store" where
  "ref_set ch x c = (if ch < next_chan c then c\<lparr>chan_state := (chan_state c)(ch := x)\<rparr> else c)"

definition ref_oneshot :: "('v chan_store, 'v) oneshot" where
  "ref_oneshot = \<lparr>
     os_channel = (\<lambda>c. (next_chan c, c\<lparr>next_chan := Suc (next_chan c),
                                      chan_state := (chan_state c)(next_chan c := Open)\<rparr>)),
     os_send = (\<lambda>ch v c. case ref_view c ch of Open \<Rightarrow> (Inr (), ref_set ch (Sent v) c) | _ \<Rightarrow> (Inl v, c)),
     os_poll = (\<lambda>ch cx c. case ref_view c ch of
         Sent v \<Rightarrow> (Ready (Inr v), ref_set ch Taken c)
       | SenderGone \<Rightarrow> (Ready (Inl Canceled), ref_set ch Taken c)
       | _ \<Rightarrow> (Pending, c\<lparr>chan_waker := (chan_waker c)(ch \<mapsto> cx)\<rparr>)),
     os_drop_tx = (\<lambda>ch c. case ref_view c ch of Open \<Rightarrow> ref_set ch SenderGone c | _ \<Rightarrow> c),
     os_drop_rx = (\<lambda>ch c. ref_set ch ReceiverGone c)\<rparr>"

lemma ref_view_set: "ref_view c ch \<noteq> Unmade \<Longrightarrow> ref_view (ref_set ch x c) = (ref_view c)(ch := x)"
  by (auto simp: ref_view_def ref_set_def fun_eq_iff)

lemma ref_oneshot_spec: "oneshot_spec ref_oneshot ref_view"
  unfolding oneshot_spec_def channel_spec_def send_spec_def poll_spec_def drop_spec_def
  by (auto simp: ref_oneshot_def ref_view_set split: chan_view.splits)
    (auto simp: ref_view_def fun_eq_iff)

lemma ref_waker_spec: "waker_spec ref_oneshot ref_view chan_waker"
  unfolding waker_spec_def by (auto simp: ref_oneshot_def ref_set_def split: chan_view.splits)

section \<open>Completion pairs\<close>

datatype completion_sender = CompletionSender (tx: chan)

datatype completion_receiver = CompletionReceiver (rx: chan)

definition completion ::
  "('c, 'v) oneshot \<Rightarrow> 'c \<Rightarrow> completion_sender \<times> completion_receiver \<times> 'c" where
  "completion os c = (case os_channel os c of (ch, c') \<Rightarrow> (CompletionSender ch, CompletionReceiver ch, c'))"

definition io_completion ::
  "('c, (error, unit) result) oneshot \<Rightarrow> 'c \<Rightarrow> completion_sender \<times> completion_receiver \<times> 'c" where
  "io_completion os c = completion os c"

text \<open>\<open>into_raw\<close> boxes the channel's sender; \<open>from_raw\<close> of a pointer that holds none is undefined.\<close>

definition sender_into_raw :: "completion_sender \<Rightarrow> chan boxes \<Rightarrow> ptr \<times> chan boxes" where
  "sender_into_raw self h = box_into_raw (tx self) h"

definition sender_from_raw :: "ptr \<Rightarrow> chan boxes \<Rightarrow> (completion_sender \<times> chan boxes) option" where
  "sender_from_raw p h =
     (case box_from_raw p h of None \<Rightarrow> None | Some (ch, h') \<Rightarrow> Some (CompletionSender ch, h'))"

definition sender_complete ::
  "('c, (error, 'a) result) oneshot \<Rightarrow> completion_sender \<Rightarrow> (error, 'a) result \<Rightarrow> 'c \<Rightarrow> 'c" where
  "sender_complete os self r c = snd (os_send os (tx self) r c)"

definition sender_success ::
  "('c, (error, 'a) result) oneshot \<Rightarrow> completion_sender \<Rightarrow> 'a \<Rightarrow> 'c \<Rightarrow> 'c" where
  "sender_success os self v c = snd (os_send os (tx self) (Inr v) c)"

definition sender_error ::
  "('c, (error, 'a) result) oneshot \<Rightarrow> completion_sender \<Rightarrow> error \<Rightarrow> 'c \<Rightarrow> 'c" where
  "sender_error os self err c = snd (os_send os (tx self) (Inl err) c)"

definition receiver_poll ::
  "('c, (error, 'a) result) oneshot \<Rightarrow> completion_receiver \<Rightarrow> waker \<Rightarrow> 'c \<Rightarrow> (error, 'a) result poll \<times> 'c" where
  "receiver_poll os self cx c =
     (case os_poll os (rx self) cx c of
        (Ready (Inr r), c') \<Rightarrow> (Ready r, c')
      | (Ready (Inl _), c') \<Rightarrow> (Ready (Inl Cancelled), c')
      | (Pending, c') \<Rightarrow> (Pending, c'))"

section \<open>Blocking on a future\<close>

text \<open>
  The loop of \<open>block_on\<close> over a state that holds the future and the SPDK thread: poll the future and,
  while it is pending, poll the thread. It may run for ever, so it is partial.
\<close>

partial_function (option) block_on_loop ::
  "('s \<Rightarrow> 'a poll \<times> 's) \<Rightarrow> ('s \<Rightarrow> 's) \<Rightarrow> 's \<Rightarrow> ('a \<times> 's) option" where
  "block_on_loop future thread_poll s =
     (case future s of
        (Ready r, s') \<Rightarrow> Some (r, s')
      | (Pending, s') \<Rightarrow> block_on_loop future thread_poll (thread_poll s'))"

text \<open>
  The future is polled in the context of a waker that does nothing. \<open>get_thread\<close> is \<open>spdk_get_thread\<close> and \<open>poll\<close> is \<open>spdk_thread_poll(thread, 0, 0)\<close>, whose return value
  the loop ignores.
\<close>

definition block_on ::
  "('s \<Rightarrow> ptr) \<Rightarrow> (ptr \<Rightarrow> 's \<Rightarrow> 's) \<Rightarrow> (waker \<Rightarrow> 's \<Rightarrow> 'a poll \<times> 's) \<Rightarrow> 's \<Rightarrow> ('a \<times> 's) ending option" where
  "block_on get_thread poll future s =
     (case nonnull (get_thread s) of
        None \<Rightarrow> Some (Panicked ''block_on called outside SPDK thread context'')
      | Some thread \<Rightarrow> map_option Returned (block_on_loop (future NoopWaker) (poll thread) s))"

section \<open>Correctness\<close>

lemma sender_raw [simp]:
  "sender_into_raw t h = (p, h') \<longleftrightarrow> box_into_raw (tx t) h = (p, h')"
  "sender_from_raw p h = Some (t, h') \<longleftrightarrow> box_from_raw p h = Some (tx t, h')"
  by (auto simp: sender_into_raw_def sender_from_raw_def split: option.splits)

lemma receiver_poll_eq:
  assumes "oneshot_spec os view"
  shows "view c (rx r) = Open \<Longrightarrow> \<exists>c'. receiver_poll os r cx c = (Pending, c') \<and> view c' = view c"
    and "view c (rx r) = Sent v \<Longrightarrow>
      \<exists>c'. receiver_poll os r cx c = (Ready v, c') \<and> view c' = (view c)(rx r := Taken)"
    and "view c (rx r) = SenderGone \<Longrightarrow>
      \<exists>c'. receiver_poll os r cx c = (Ready (Inl Cancelled), c') \<and> view c' = (view c)(rx r := Taken)"
proof -
  obtain q c' where q: "os_poll os (rx r) cx c = (q, c')" by fastforce
  show "view c (rx r) = Open \<Longrightarrow> \<exists>c'. receiver_poll os r cx c = (Pending, c') \<and> view c' = view c"
    using q oneshot_poll(1) [OF assms q] by (simp add: receiver_poll_def)
  show "view c (rx r) = Sent v \<Longrightarrow>
      \<exists>c'. receiver_poll os r cx c = (Ready v, c') \<and> view c' = (view c)(rx r := Taken)"
    using q oneshot_poll(2) [OF assms q, of v] by (simp add: receiver_poll_def)
  show "view c (rx r) = SenderGone \<Longrightarrow>
      \<exists>c'. receiver_poll os r cx c = (Ready (Inl Cancelled), c') \<and> view c' = (view c)(rx r := Taken)"
    using q oneshot_poll(3) [OF assms q] by (simp add: receiver_poll_def)
qed

text \<open>
  C19: A completion pair carries one result through a C callback: a fresh pair is pending; the sender's
  raw pointer is not null and gives the sender back with the store as before; after the result is
  sent the receiver is ready with exactly it; and the raw pointer cannot be taken a second time.
\<close>

theorem completion_roundtrip:
  assumes "oneshot_spec os view" and "boxes_ok h" and "completion os c = (t, r, c1)"
    and "sender_into_raw t h = (p, h1)"
  shows "p \<noteq> null \<and> fst (receiver_poll os r cx c1) = Pending \<and>
     (\<exists>t' h2. sender_from_raw p h1 = Some (t', h2) \<and> cells h2 = cells h \<and>
        fst (receiver_poll os r cx (sender_complete os t' v c1)) = Ready v \<and>
        sender_from_raw p h2 = None)"
proof -
  from assms(3) have ch: "os_channel os c = (tx t, c1)" "rx r = tx t"
    by (auto simp: completion_def split: prod.splits)
  with oneshot_channel(2) [OF assms(1)] have op: "view c1 (rx r) = Open" by fastforce
  from assms(4) have raw: "box_into_raw (tx t) h = (p, h1)" by simp
  with box.round_trip [OF assms(2)] obtain h2 where
    h2: "box_from_raw p h1 = Some (tx t, h2)" "cells h2 = cells h" by blast
  have none: "sender_from_raw p h2 = None"
    using box.no_double_take [OF h2(1)] by (simp add: sender_from_raw_def)
  have "view (sender_complete os t v c1) (rx r) = Sent v"
    using oneshot_send(1) [OF assms(1), of c1 "tx t" v] op ch(2) by (simp add: sender_complete_def)
  from receiver_poll_eq(2) [OF assms(1) this, of cx]
  have "fst (receiver_poll os r cx (sender_complete os t v c1)) = Ready v" by auto
  moreover have "fst (receiver_poll os r cx c1) = Pending"
    using receiver_poll_eq(1) [OF assms(1) op, of cx] by auto
  moreover have "p \<noteq> null" using box.into_fresh [OF assms(2) raw] by simp
  ultimately show ?thesis using h2 none by fastforce
qed

theorem completion_roundtrip_witness:
  "\<exists>t' h2. sender_from_raw 1 (snd (sender_into_raw (CompletionSender 0) no_boxes)) = Some (t', h2) \<and>
     fst (receiver_poll ref_oneshot (CompletionReceiver 0) NoopWaker
       (sender_complete ref_oneshot t' (Inr (42 :: nat)) (snd (snd (completion ref_oneshot no_chans))))) =
     Ready (Inr 42)"
proof -
  let ?c1 = "snd (snd (completion ref_oneshot (no_chans :: (error, nat) result chan_store)))"
  let ?h1 = "snd (sender_into_raw (CompletionSender 0) no_boxes)"
  have "completion ref_oneshot no_chans = (CompletionSender 0, CompletionReceiver 0, ?c1)"
    by (simp add: completion_def ref_oneshot_def no_chans_def)
  moreover have "sender_into_raw (CompletionSender 0) no_boxes = (1, ?h1)"
    by (simp add: sender_into_raw_def box_into_raw_def no_boxes_def)
  ultimately show ?thesis
    using completion_roundtrip [OF ref_oneshot_spec boxes_ok_no_boxes, where v = "Inr 42"] by blast
qed

text \<open>
  A completion whose sender is dropped without sending resolves, with the error Cancelled, so the
  awaiting task does not hang.
\<close>

theorem dropped_sender_cancels:
  assumes "oneshot_spec os view" and "completion os c = (t, r, c1)"
  shows "fst (receiver_poll os r cx (os_drop_tx os (tx t) c1)) = Ready (Inl Cancelled)"
proof -
  from assms(2) have "os_channel os c = (tx t, c1)" "rx r = tx t"
    by (auto simp: completion_def split: prod.splits)
  with oneshot_channel(2) [OF assms(1)] oneshot_drop(1) [OF assms(1), of c1 "tx t"]
  have "view (os_drop_tx os (tx t) c1) (rx r) = SenderGone" by fastforce
  from receiver_poll_eq(3) [OF assms(1) this, of cx] show ?thesis by auto
qed

theorem dropped_sender_cancels_witness:
  "fst (receiver_poll ref_oneshot (CompletionReceiver 0) NoopWaker (os_drop_tx ref_oneshot 0
     (snd (snd (completion ref_oneshot (no_chans :: (error, unit) result chan_store)))))) =
   Ready (Inl Cancelled)"
proof -
  let ?c1 = "snd (snd (completion ref_oneshot (no_chans :: (error, unit) result chan_store)))"
  have "completion ref_oneshot no_chans = (CompletionSender 0, CompletionReceiver 0, ?c1)"
    by (simp add: completion_def ref_oneshot_def no_chans_def)
  from dropped_sender_cancels [OF ref_oneshot_spec this] show ?thesis by simp
qed

text \<open>One round of the loop while the future is pending.\<close>

definition block_on_round :: "('s \<Rightarrow> 'a poll \<times> 's) \<Rightarrow> ('s \<Rightarrow> 's) \<Rightarrow> 's \<Rightarrow> 's" where
  "block_on_round future thread_poll s = thread_poll (snd (future s))"

lemma block_on_loop_pending:
  "fst (future s) = Pending \<Longrightarrow>
     block_on_loop future tp s = block_on_loop future tp (block_on_round future tp s)"
  by (subst block_on_loop.simps) (auto simp: block_on_round_def split: prod.splits)

lemma block_on_loop_ready:
  "fst (future s) = Ready r \<Longrightarrow> block_on_loop future tp s = Some (r, snd (future s))"
  by (subst block_on_loop.simps) (auto split: prod.splits)

lemma block_on_loop_rounds:
  assumes "\<And>k. k < n \<Longrightarrow> fst (future ((block_on_round future tp ^^ k) s)) = Pending"
  shows "block_on_loop future tp s = block_on_loop future tp ((block_on_round future tp ^^ n) s)"
  using assms
proof (induction n)
  case (Suc n)
  then have "block_on_loop future tp s = block_on_loop future tp ((block_on_round future tp ^^ n) s)"
    by simp
  with Suc.prems [of n] show ?case by (simp add: block_on_loop_pending)
qed simp

text \<open>
  C20: \<open>block_on\<close> on an SPDK thread returns exactly when the future becomes ready: if it is pending for
  \<open>n\<close> polls and ready at the next, the result is returned after exactly \<open>n\<close> polls of the thread that
  was current at the start, interleaved one by one with the polls of the future.
\<close>

theorem block_on_returns:
  assumes "get_thread s = thread" and "thread \<noteq> null"
    and "\<And>k. k < n \<Longrightarrow> fst (future NoopWaker ((block_on_round (future NoopWaker) (poll thread) ^^ k) s)) = Pending"
    and "future NoopWaker ((block_on_round (future NoopWaker) (poll thread) ^^ n) s) = (Ready r, s')"
  shows "block_on get_thread poll future s = Some (Returned (r, s'))"
  using block_on_loop_rounds [of n "future NoopWaker" "poll thread" s, OF assms(3)] assms
    block_on_loop_ready [of "future NoopWaker" "(block_on_round (future NoopWaker) (poll thread) ^^ n) s" r "poll thread"]
  by (simp add: block_on_def)

theorem block_on_returns_witness:
  "block_on (\<lambda>_. 7 :: ptr) (\<lambda>_. Suc) (\<lambda>_ s. (if s = 1 then Ready ''done'' else Pending, s)) (0 :: nat) =
     Some (Returned (''done'', 1))"
  by (rule block_on_returns [where n = 1 and thread = 7]) (simp_all add: block_on_round_def)

lemma block_on_needs_thread:
  "get_thread s = null \<Longrightarrow>
     block_on get_thread poll future s = Some (Panicked ''block_on called outside SPDK thread context'')"
  by (simp add: block_on_def)

lemma block_on_loop_never:
  assumes "\<And>k. fst (future ((block_on_round future tp ^^ k) s)) = Pending"
  shows "block_on_loop future tp s = None"
proof (rule ccontr)
  assume "block_on_loop future tp s \<noteq> None"
  then obtain x where x: "block_on_loop future tp s = Some x" by blast
  have "\<exists>k r. fst (future ((block_on_round future tp ^^ k) s)) = Ready r"
  proof (rule block_on_loop.raw_induct
      [where P = "\<lambda>future tp s x. \<exists>k r. fst (future ((block_on_round future tp ^^ k) s)) = Ready r", OF _ x])
    fix bl :: "('s \<Rightarrow> 'a poll \<times> 's) \<Rightarrow> ('s \<Rightarrow> 's) \<Rightarrow> 's \<Rightarrow> ('a \<times> 's) option"
      and f :: "'s \<Rightarrow> 'a poll \<times> 's" and t :: "'s \<Rightarrow> 's" and u y
    assume IH: "\<And>f t s x. bl f t s = Some x \<Longrightarrow>
        \<exists>k r. fst (f ((block_on_round f t ^^ k) s)) = Ready r"
      and eq: "(case f u of (Ready r, s') \<Rightarrow> Some (r, s') | (Pending, s') \<Rightarrow> bl f t (t s')) = Some y"
    show "\<exists>k r. fst (f ((block_on_round f t ^^ k) u)) = Ready r"
    proof (cases "f u")
      case (Pair q u')
      show ?thesis
      proof (cases q)
        case (Ready r)
        with Pair show ?thesis by (intro exI [of _ 0]) simp
      next
        case Pending
        with Pair eq have "bl f t (block_on_round f t u) = Some y" by (simp add: block_on_round_def)
        then obtain k r where "fst (f ((block_on_round f t ^^ k) (block_on_round f t u))) = Ready r"
          using IH by blast
        then show ?thesis by (intro exI [of _ "Suc k"]) (auto simp: funpow_swap1)
      qed
    qed
  qed
  with assms show False by simp
qed

end
