(* ===== verification/AsyncIo.thy ===== *)
theory AsyncIo
  imports Complete
begin

text \<open>
  The protocol that every asynchronous operation of the crate follows: make a completion pair, box the
  sender, submit with the raw pointer as callback context, return early if the submission is refused,
  otherwise await the receiver; SPDK later calls the callback, which unboxes the sender and sends the
  result. \<open>io_protocol\<close> is the interface an operation and its callback provide; \<open>io_step\<close> interleaves
  any number of tasks, cancellations and callbacks in any order; the invariant holds in every
  reachable state, whatever SPDK does within its contract. It accounts for the boxes, for the code of
  each refused submission and for the waker that each open channel was last polled with.
\<close>

section \<open>Running one operation\<close>

text \<open>
  The boxed senders, the channels, the state of SPDK, and the context that whoever polls passes on: every
  \<open>rx.await\<close> below it polls the receiver with this waker.
\<close>

record ('c, 'w) runtime =
  sender_boxes :: "chan boxes"
  chans :: 'c
  dev :: 'w
  poll_cx :: waker

text \<open>The future of an \<open>async fn\<close>: not polled yet, suspended at its \<open>rx.await\<close>, or finished.\<close>

datatype future = Unstarted | Awaiting completion_receiver | Finished

type_synonym io_result = "(error, unit) result"

type_synonym ('c, 'w) resumed = "(io_result poll \<times> future \<times> ('c, 'w) runtime) option"

text \<open>Polling the receiver inside an \<open>async fn\<close> that returns its result; the receiver is then dropped.\<close>

definition await_rx ::
  "('c, io_result) oneshot \<Rightarrow> completion_receiver \<Rightarrow> ('c, 'w) runtime \<Rightarrow>
     io_result poll \<times> future \<times> ('c, 'w) runtime" where
  "await_rx os r s =
     (case receiver_poll os r (poll_cx s) (chans s) of
        (Ready v, c) \<Rightarrow> (Ready v, Finished, s\<lparr>chans := os_drop_rx os (rx r) c\<rparr>)
      | (Pending, c) \<Rightarrow> (Pending, Awaiting r, s\<lparr>chans := c\<rparr>))"

text \<open>Dropping a future drops the receiver it holds.\<close>

fun drop_future :: "('c, io_result) oneshot \<Rightarrow> future \<Rightarrow> ('c, 'w) runtime \<Rightarrow> ('c, 'w) runtime" where
  "drop_future os (Awaiting r) s = s\<lparr>chans := os_drop_rx os (rx r) (chans s)\<rparr>"
| "drop_future os _ s = s"

text \<open>
  A call that is given a callback and its context. SPDK may run the callback before the call returns:
  the call yields its return code and, if it ran the callback, the status it passed.
\<close>

type_synonym ('w, 'st) submission = "ptr \<Rightarrow> 'w \<Rightarrow> (i32 \<times> 'st option) \<times> 'w"

definition submit_call ::
  "('w, 'st) submission \<Rightarrow> ('st \<Rightarrow> ptr \<Rightarrow> ('c, 'w) runtime \<Rightarrow> ('c, 'w) runtime option) \<Rightarrow> ptr \<Rightarrow>
     ('c, 'w) runtime \<Rightarrow> (i32 \<times> ('c, 'w) runtime) option" where
  "submit_call f callback ctx s =
     (case f ctx (dev s) of
        ((rc, None), w) \<Rightarrow> Some (rc, s\<lparr>dev := w\<rparr>)
      | ((rc, Some st), w) \<Rightarrow> map_option (Pair rc) (callback st ctx (s\<lparr>dev := w\<rparr>)))"

text \<open>The first poll, as every operation of the crate performs it.\<close>

definition submit_then_await ::
  "('c, io_result) oneshot \<Rightarrow> ('w, 'st) submission \<Rightarrow>
   ('st \<Rightarrow> ptr \<Rightarrow> ('c, 'w) runtime \<Rightarrow> ('c, 'w) runtime option) \<Rightarrow> (i32 \<Rightarrow> error) \<Rightarrow>
   ('c, 'w) runtime \<Rightarrow> ('c, 'w) resumed" where
  "submit_then_await os submit callback err_of s =
     (case completion os (chans s) of (t, r, c) \<Rightarrow>
      case sender_into_raw t (sender_boxes s) of (ctx, h) \<Rightarrow>
      case submit_call submit callback ctx (s\<lparr>sender_boxes := h, chans := c\<rparr>) of
        None \<Rightarrow> None
      | Some (rc, s') \<Rightarrow>
          Some (if rc \<noteq> 0
                then (Ready (Inl (err_of rc)), Finished, s'\<lparr>chans := os_drop_rx os (rx r) (chans s')\<rparr>)
                else await_rx os r s'))"

section \<open>Tasks, cancellations and callbacks interleaved\<close>

text \<open>
  The tasks by number, and ghost fields: the result a task returned, the channel made for it, the
  status the callback of a channel was given, how many submissions were refused, the return code of the
  task's own submission if it was refused, and the waker a task was last polled with.
\<close>

record ('c, 'w, 'st) io_system =
  rt :: "('c, 'w) runtime"
  tasks :: "nat \<rightharpoonup> future"
  outcome :: "nat \<rightharpoonup> io_result"
  chan_of :: "nat \<rightharpoonup> chan"
  told :: "chan \<rightharpoonup> 'st"
  refused :: nat
  rejected :: "nat \<rightharpoonup> i32"
  polled_by :: "nat \<Rightarrow> waker"

text \<open>What the first poll of a task submits: its channel, the return code, the status if told at once.\<close>

definition submitted ::
  "('c, io_result) oneshot \<Rightarrow> ('w, 'st) submission \<Rightarrow> ('c, 'w) runtime \<Rightarrow> chan \<times> i32 \<times> 'st option" where
  "submitted os submit s =
     (case completion os (chans s) of (t, r, c) \<Rightarrow>
      case sender_into_raw t (sender_boxes s) of (ctx, h) \<Rightarrow>
      case submit ctx (dev s) of ((rc, now), w) \<Rightarrow> (tx t, rc, now))"

definition record_poll ::
  "nat \<Rightarrow> future \<Rightarrow> io_result poll \<Rightarrow> future \<Rightarrow> ('c, 'w) runtime \<Rightarrow> chan \<times> i32 \<times> 'st option \<Rightarrow>
     ('c, 'w, 'st) io_system \<Rightarrow> ('c, 'w, 'st) io_system" where
  "record_poll i f q f' s sub S =
     (let S' = S\<lparr>rt := s, tasks := (tasks S)(i \<mapsto> f'),
                 polled_by := (polled_by S)(i := poll_cx (rt S)),
                 outcome := (case q of Ready r \<Rightarrow> (outcome S)(i \<mapsto> r) | Pending \<Rightarrow> outcome S)\<rparr>
      in if f \<noteq> Unstarted then S'
         else case sub of (ch, rc, now) \<Rightarrow>
           if rc \<noteq> 0 then S'\<lparr>refused := Suc (refused S), rejected := (rejected S)(i \<mapsto> rc)\<rparr>
           else S'\<lparr>chan_of := (chan_of S)(i \<mapsto> ch),
                   told := (case now of Some st \<Rightarrow> (told S)(ch \<mapsto> st) | None \<Rightarrow> told S)\<rparr>)"

lemma record_poll_fields:
  "rt (record_poll i f q f' s sub S) = s"
  "tasks (record_poll i f q f' s sub S) = (tasks S)(i \<mapsto> f')"
  "polled_by (record_poll i f q f' s sub S) = (polled_by S)(i := poll_cx (rt S))"
  by (simp_all add: record_poll_def Let_def split: prod.split)

text \<open>Somebody is about to poll in the context of the waker \<open>cx\<close>.\<close>

definition entered :: "waker \<Rightarrow> ('c, 'w, 'st) io_system \<Rightarrow> ('c, 'w, 'st) io_system" where
  "entered cx S = S\<lparr>rt := (rt S)\<lparr>poll_cx := cx\<rparr>\<rparr>"

lemma entered_fields [simp]:
  "rt (entered cx S) = (rt S)\<lparr>poll_cx := cx\<rparr>" "tasks (entered cx S) = tasks S"
  "outcome (entered cx S) = outcome S" "chan_of (entered cx S) = chan_of S" "told (entered cx S) = told S"
  "refused (entered cx S) = refused S" "rejected (entered cx S) = rejected S"
  "polled_by (entered cx S) = polled_by S"
  by (simp_all add: entered_def)

text \<open>
  \<open>pending\<close> is the set of callback contexts SPDK holds. SPDK may finish any of them, once, with any
  status, and change its own state at any time; any task may be polled in the context of any waker. Task
  \<open>i\<close> runs the request \<open>job i\<close>.
\<close>

inductive io_step ::
  "('c, io_result) oneshot \<Rightarrow> ('q \<Rightarrow> future \<Rightarrow> ('c, 'w) runtime \<Rightarrow> ('c, 'w) resumed) \<Rightarrow>
   ('q \<Rightarrow> ('w, 'st) submission) \<Rightarrow>
   ('st \<Rightarrow> ptr \<Rightarrow> ('c, 'w) runtime \<Rightarrow> ('c, 'w) runtime option) \<Rightarrow> ('w \<Rightarrow> ptr set) \<Rightarrow> (nat \<Rightarrow> 'q) \<Rightarrow>
   ('c, 'w, 'st) io_system \<Rightarrow> ('c, 'w, 'st) io_system \<Rightarrow> bool"
  for os resume submit callback pending job
where
  spawn: "tasks S i = None \<Longrightarrow>
     io_step os resume submit callback pending job S (S\<lparr>tasks := (tasks S)(i \<mapsto> Unstarted)\<rparr>)"
| poll: "tasks S i = Some f \<Longrightarrow> f \<noteq> Finished \<Longrightarrow> resume (job i) f (rt S) = Some (q, f', s) \<Longrightarrow>
     io_step os resume submit callback pending job S
       (record_poll i f q f' s (submitted os (submit (job i)) (rt S)) S)"
| cancel: "tasks S i = Some f \<Longrightarrow> f \<noteq> Finished \<Longrightarrow>
     io_step os resume submit callback pending job S
       (S\<lparr>rt := drop_future os f (rt S), tasks := (tasks S)(i \<mapsto> Finished)\<rparr>)"
| complete: "p \<in> pending (dev (rt S)) \<Longrightarrow> pending w = pending (dev (rt S)) - {p} \<Longrightarrow>
     callback st p ((rt S)\<lparr>dev := w\<rparr>) = Some s \<Longrightarrow> cells (sender_boxes (rt S)) p = Some ch \<Longrightarrow>
     io_step os resume submit callback pending job S (S\<lparr>rt := s, told := (told S)(ch \<mapsto> st)\<rparr>)"
| device: "pending w = pending (dev (rt S)) \<Longrightarrow>
     io_step os resume submit callback pending job S (S\<lparr>rt := (rt S)\<lparr>dev := w\<rparr>\<rparr>)"
| enter: "io_step os resume submit callback pending job S (entered cx S)"

definition io_start :: "('c, 'w) runtime \<Rightarrow> ('c, 'w, 'st) io_system" where
  "io_start s = \<lparr>rt = s, tasks = Map.empty, outcome = Map.empty, chan_of = Map.empty,
                 told = Map.empty, refused = 0, rejected = Map.empty, polled_by = (\<lambda>_. NoopWaker)\<rparr>"

inductive io_reachable ::
  "('c, io_result) oneshot \<Rightarrow> ('q \<Rightarrow> future \<Rightarrow> ('c, 'w) runtime \<Rightarrow> ('c, 'w) resumed) \<Rightarrow>
   ('q \<Rightarrow> ('w, 'st) submission) \<Rightarrow>
   ('st \<Rightarrow> ptr \<Rightarrow> ('c, 'w) runtime \<Rightarrow> ('c, 'w) runtime option) \<Rightarrow> ('w \<Rightarrow> ptr set) \<Rightarrow> (nat \<Rightarrow> 'q) \<Rightarrow>
   ('c, 'w, 'st) io_system \<Rightarrow> bool"
  for os resume submit callback pending job
where
  start: "boxes_ok (sender_boxes s) \<Longrightarrow> cells (sender_boxes s) = Map.empty \<Longrightarrow> pending (dev s) = {} \<Longrightarrow>
     io_reachable os resume submit callback pending job (io_start s)"
| step: "io_reachable os resume submit callback pending job S \<Longrightarrow>
     io_step os resume submit callback pending job S T \<Longrightarrow>
     io_reachable os resume submit callback pending job T"

text \<open>
  The contract of SPDK: a submission that returns 0 takes the context over, or has run its callback
  with it; one that returns an error code has done neither; what a callback calls into SPDK (freeing
  the I/O) gives no context back.
\<close>

definition submit_contract ::
  "('q \<Rightarrow> ('w, 'st) submission) \<Rightarrow> ('st \<Rightarrow> 'w \<Rightarrow> 'w) \<Rightarrow> ('w \<Rightarrow> ptr set) \<Rightarrow> bool" where
  "submit_contract submit release pending \<longleftrightarrow>
     (\<forall>q p w. let ((rc, now), w') = submit q p w in
        (rc \<noteq> 0 \<longrightarrow> now = None) \<and>
        pending w' = (if rc = 0 \<and> now = None then insert p (pending w) else pending w)) \<and>
     (\<forall>st w. pending (release st w) = pending w)"

lemma submit_contract_submit:
  assumes "submit_contract submit release pending" "submit q p w = ((rc, now), w')"
  shows "pending w' = (if rc = 0 \<and> now = None then insert p (pending w) else pending w)"
    and "rc \<noteq> 0 \<Longrightarrow> now = None"
proof -
  from assms(1) have "let ((rc, now), w') = submit q p w in (rc \<noteq> 0 \<longrightarrow> now = None) \<and>
      pending w' = (if rc = 0 \<and> now = None then insert p (pending w) else pending w)"
    unfolding submit_contract_def by blast
  with assms(2) show "pending w' = (if rc = 0 \<and> now = None then insert p (pending w) else pending w)"
    "rc \<noteq> 0 \<Longrightarrow> now = None" by simp_all
qed

lemma submit_contract_release:
  "submit_contract submit release pending \<Longrightarrow> pending (release st w) = pending w"
  by (simp add: submit_contract_def)

section \<open>The invariant\<close>

text \<open>
  On what matters of a state: the boxed channels, the contexts SPDK holds, the views of the channels
  and the ghost fields. Every context SPDK holds is a live box; no two boxes hold one channel; a boxed
  channel has not been told a status, and is open only while SPDK holds its context; a suspended task
  waits on its own channel, which is open with its context held by SPDK, or holds the decoded status;
  a result is a refusal or the decoded status of the task's own channel; every live box that SPDK does
  not hold was leaked by a refusal.
\<close>

definition boxes_inv :: "(ptr \<rightharpoonup> chan) \<Rightarrow> ptr set \<Rightarrow> (chan \<Rightarrow> 'v chan_view) \<Rightarrow> (chan \<rightharpoonup> 'st) \<Rightarrow> nat \<Rightarrow> bool"
where
  "boxes_inv B P V T n \<longleftrightarrow>
     finite (dom B) \<and> P \<subseteq> dom B \<and>
     (\<forall>p p' ch. B p = Some ch \<longrightarrow> B p' = Some ch \<longrightarrow> p = p') \<and>
     (\<forall>p ch. B p = Some ch \<longrightarrow> T ch = None \<and> (V ch = ReceiverGone \<or> V ch = Open \<and> p \<in> P)) \<and>
     card (dom B) = card P + n"

definition tasks_inv ::
  "('st \<Rightarrow> io_result) \<Rightarrow> (ptr \<rightharpoonup> chan) \<Rightarrow> ptr set \<Rightarrow> (chan \<Rightarrow> io_result chan_view) \<Rightarrow> (chan \<rightharpoonup> 'st) \<Rightarrow>
     (nat \<rightharpoonup> future) \<Rightarrow> (nat \<rightharpoonup> chan) \<Rightarrow> bool" where
  "tasks_inv decode B P V T F C \<longleftrightarrow>
     (\<forall>i r. F i = Some (Awaiting r) \<longrightarrow> C i = Some (rx r) \<and>
        (V (rx r) = Open \<and> (\<exists>p \<in> P. B p = Some (rx r)) \<or>
         (\<exists>st. T (rx r) = Some st \<and> V (rx r) = Sent (decode st)))) \<and>
     (\<forall>i. F i = None \<or> F i = Some Unstarted \<longrightarrow> C i = None) \<and>
     (\<forall>i j ch. C i = Some ch \<longrightarrow> C j = Some ch \<longrightarrow> i = j)"

definition fresh_inv ::
  "(ptr \<rightharpoonup> chan) \<Rightarrow> (chan \<Rightarrow> io_result chan_view) \<Rightarrow> (chan \<rightharpoonup> 'st) \<Rightarrow> (nat \<rightharpoonup> chan) \<Rightarrow> bool" where
  "fresh_inv B V T C \<longleftrightarrow>
     (\<forall>ch. V ch = Unmade \<longrightarrow> T ch = None \<and> ch \<notin> ran C \<and> ch \<notin> ran B)"

definition outcome_inv ::
  "('st \<Rightarrow> io_result) \<Rightarrow> (i32 \<Rightarrow> error) \<Rightarrow> (chan \<rightharpoonup> 'st) \<Rightarrow> (nat \<rightharpoonup> future) \<Rightarrow> (nat \<rightharpoonup> chan) \<Rightarrow>
     (nat \<rightharpoonup> io_result) \<Rightarrow> bool" where
  "outcome_inv decode err_of T F C R \<longleftrightarrow>
     (\<forall>i r. R i = Some r \<longrightarrow> F i = Some Finished \<and>
        ((\<exists>rc. rc \<noteq> 0 \<and> r = Inl (err_of rc)) \<or>
         (\<exists>ch st. C i = Some ch \<and> T ch = Some st \<and> r = decode st)))"

definition io_inv ::
  "('st \<Rightarrow> io_result) \<Rightarrow> (i32 \<Rightarrow> error) \<Rightarrow> (ptr \<rightharpoonup> chan) \<Rightarrow> ptr set \<Rightarrow> (chan \<Rightarrow> io_result chan_view) \<Rightarrow>
     (nat \<rightharpoonup> future) \<Rightarrow> (nat \<rightharpoonup> io_result) \<Rightarrow> (nat \<rightharpoonup> chan) \<Rightarrow> (chan \<rightharpoonup> 'st) \<Rightarrow> nat \<Rightarrow> bool" where
  "io_inv decode err_of B P V F R C T n \<longleftrightarrow>
     boxes_inv B P V T n \<and> tasks_inv decode B P V T F C \<and> fresh_inv B V T C \<and>
     outcome_inv decode err_of T F C R"

lemmas io_inv_defs = io_inv_def boxes_inv_def tasks_inv_def fresh_inv_def outcome_inv_def

lemma boxes_invD:
  assumes "boxes_inv B P V T n"
  shows "finite (dom B)" "P \<subseteq> dom B" "finite P" "card (dom B) = card P + n"
    and "\<And>p p' ch. B p = Some ch \<Longrightarrow> B p' = Some ch \<Longrightarrow> p = p'"
    and "\<And>p ch. B p = Some ch \<Longrightarrow> T ch = None \<and> (V ch = ReceiverGone \<or> V ch = Open \<and> p \<in> P)"
  using assms unfolding boxes_inv_def by (blast intro: finite_subset)+

lemma boxes_invI:
  assumes "finite (dom B)" "P \<subseteq> dom B" "card (dom B) = card P + n"
    and "\<And>p p' ch. B p = Some ch \<Longrightarrow> B p' = Some ch \<Longrightarrow> p = p'"
    and "\<And>p ch. B p = Some ch \<Longrightarrow> T ch = None \<and> (V ch = ReceiverGone \<or> V ch = Open \<and> p \<in> P)"
  shows "boxes_inv B P V T n"
  using assms unfolding boxes_inv_def by blast

definition waits ::
  "('st \<Rightarrow> io_result) \<Rightarrow> (ptr \<rightharpoonup> chan) \<Rightarrow> ptr set \<Rightarrow> (chan \<Rightarrow> io_result chan_view) \<Rightarrow> (chan \<rightharpoonup> 'st) \<Rightarrow>
     chan \<Rightarrow> bool" where
  "waits decode B P V T ch \<longleftrightarrow> V ch = Open \<and> (\<exists>p \<in> P. B p = Some ch) \<or>
     (\<exists>st. T ch = Some st \<and> V ch = Sent (decode st))"

lemma tasks_invD:
  assumes "tasks_inv decode B P V T F C"
  shows "\<And>i r. F i = Some (Awaiting r) \<Longrightarrow> C i = Some (rx r)"
    and "\<And>i r. F i = Some (Awaiting r) \<Longrightarrow> waits decode B P V T (rx r)"
    and "\<And>i. F i = None \<Longrightarrow> C i = None"
    and "\<And>i. F i = Some Unstarted \<Longrightarrow> C i = None"
    and "\<And>i j ch. C i = Some ch \<Longrightarrow> C j = Some ch \<Longrightarrow> i = j"
  using assms unfolding tasks_inv_def waits_def by blast+

lemma tasks_invI:
  assumes "\<And>i r. F i = Some (Awaiting r) \<Longrightarrow> C i = Some (rx r)"
    and "\<And>i r. F i = Some (Awaiting r) \<Longrightarrow> waits decode B P V T (rx r)"
    and "\<And>i. F i = None \<Longrightarrow> C i = None"
    and "\<And>i. F i = Some Unstarted \<Longrightarrow> C i = None"
    and "\<And>i j ch. C i = Some ch \<Longrightarrow> C j = Some ch \<Longrightarrow> i = j"
  shows "tasks_inv decode B P V T F C"
  using assms unfolding tasks_inv_def waits_def by blast

lemma outcome_invD:
  assumes "outcome_inv decode err_of T F C R" "R i = Some r"
  shows "F i = Some Finished"
    and "(\<exists>rc. rc \<noteq> 0 \<and> r = Inl (err_of rc)) \<or> (\<exists>ch st. C i = Some ch \<and> T ch = Some st \<and> r = decode st)"
  using assms unfolding outcome_inv_def by blast+

lemma outcome_invI:
  assumes "\<And>i r. R i = Some r \<Longrightarrow> F i = Some Finished"
    and "\<And>i r. R i = Some r \<Longrightarrow> (\<exists>rc. rc \<noteq> 0 \<and> r = Inl (err_of rc)) \<or>
      (\<exists>ch st. C i = Some ch \<and> T ch = Some st \<and> r = decode st)"
  shows "outcome_inv decode err_of T F C R"
  using assms unfolding outcome_inv_def by blast

lemma fresh_invD:
  assumes "fresh_inv B V T C" "V ch = Unmade"
  shows "T ch = None" "\<And>i. C i \<noteq> Some ch" "\<And>p. B p \<noteq> Some ch"
  using assms unfolding fresh_inv_def ran_def by blast+

lemma fresh_invI:
  assumes "\<And>ch. V ch = Unmade \<Longrightarrow> T ch = None"
    and "\<And>ch i. V ch = Unmade \<Longrightarrow> C i \<noteq> Some ch"
    and "\<And>ch p. V ch = Unmade \<Longrightarrow> B p \<noteq> Some ch"
  shows "fresh_inv B V T C"
  using assms unfolding fresh_inv_def ran_def by blast

lemma io_invD:
  assumes "io_inv decode err_of B P V F R C T n"
  shows "boxes_inv B P V T n" "tasks_inv decode B P V T F C" "fresh_inv B V T C"
    "outcome_inv decode err_of T F C R"
  using assms by (simp_all add: io_inv_def)

text \<open>The steps on these components, one lemma each.\<close>

lemma io_inv_start: "io_inv decode err_of Map.empty {} V Map.empty Map.empty Map.empty Map.empty 0"
  by (simp add: io_inv_defs)

lemma io_inv_spawn:
  assumes inv: "io_inv decode err_of B P V F R C T n" and i: "F i = None"
  shows "io_inv decode err_of B P V (F(i \<mapsto> Unstarted)) R C T n"
proof -
  note B = tasks_invD [OF io_invD(2) [OF inv]] and O = outcome_invD [OF io_invD(4) [OF inv]]
  have "tasks_inv decode B P V T (F(i \<mapsto> Unstarted)) C"
    by (rule tasks_invI) (use i in \<open>auto split: if_splits intro: B\<close>)
  moreover have "outcome_inv decode err_of T (F(i \<mapsto> Unstarted)) C R"
  proof (rule outcome_invI)
    fix j r assume "R j = Some r"
    with O [OF this] i show "(F(i \<mapsto> Unstarted)) j = Some Finished" by auto
  qed (rule O(2))
  ultimately show ?thesis using io_invD [OF inv] by (simp add: io_inv_def)
qed

lemma io_inv_submitted:
  assumes inv: "io_inv decode err_of B P V F R C T n" and i: "F i = Some Unstarted"
    and ch: "V ch = Unmade" and p: "B p = None"
  shows "io_inv decode err_of (B(p \<mapsto> ch)) (insert p P) (V(ch := Open))
           (F(i \<mapsto> Awaiting (CompletionReceiver ch))) R (C(i \<mapsto> ch)) T n"
proof -
  note X = boxes_invD [OF io_invD(1) [OF inv]] and Y = tasks_invD [OF io_invD(2) [OF inv]]
    and Z = fresh_invD [OF io_invD(3) [OF inv]] and O = outcome_invD [OF io_invD(4) [OF inv]]
  note new = Z [OF ch]
  from p X(2) have np: "p \<notin> P" by auto
  have wait: "waits decode (B(p \<mapsto> ch)) (insert p P) (V(ch := Open)) T c"
    if "waits decode B P V T c" for c
    using that ch p np unfolding waits_def by (cases "c = ch") (auto intro!: bexI)
  have "boxes_inv (B(p \<mapsto> ch)) (insert p P) (V(ch := Open)) T n"
  proof (rule boxes_invI)
    show "card (dom (B(p \<mapsto> ch))) = card (insert p P) + n"
      using X(1,3,4) p np by (simp add: domIff)
    show "a = b" if "(B(p \<mapsto> ch)) a = Some c" "(B(p \<mapsto> ch)) b = Some c" for a b c
      using that new(3) X(5) by (auto split: if_splits)
    show "T c = None \<and> ((V(ch := Open)) c = ReceiverGone \<or> (V(ch := Open)) c = Open \<and> a \<in> insert p P)"
      if "(B(p \<mapsto> ch)) a = Some c" for a c
      using that new(1,3) X(6) by (auto split: if_splits)
  qed (use X in auto)
  moreover have "tasks_inv decode (B(p \<mapsto> ch)) (insert p P) (V(ch := Open)) T
      (F(i \<mapsto> Awaiting (CompletionReceiver ch))) (C(i \<mapsto> ch))"
  proof (rule tasks_invI)
    show "waits decode (B(p \<mapsto> ch)) (insert p P) (V(ch := Open)) T (rx r)"
      if "(F(i \<mapsto> Awaiting (CompletionReceiver ch))) j = Some (Awaiting r)" for j r
    proof (cases "j = i")
      case True
      with that show ?thesis by (auto simp: waits_def)
    next
      case False
      with that show ?thesis by (auto intro: wait Y(2))
    qed
    show "a = b" if "(C(i \<mapsto> ch)) a = Some c" "(C(i \<mapsto> ch)) b = Some c" for a b c
      using that new(2) Y(5) by (auto split: if_splits)
  qed (use i in \<open>auto split: if_splits intro: Y\<close>)
  moreover have "fresh_inv (B(p \<mapsto> ch)) (V(ch := Open)) T (C(i \<mapsto> ch))"
    by (rule fresh_invI) (auto split: if_splits dest: Z)
  moreover have "outcome_inv decode err_of T (F(i \<mapsto> Awaiting (CompletionReceiver ch))) (C(i \<mapsto> ch)) R"
  proof (rule outcome_invI)
    fix j r assume r: "R j = Some r"
    from O [OF r] i have "j \<noteq> i" by auto
    with O [OF r] show "(F(i \<mapsto> Awaiting (CompletionReceiver ch))) j = Some Finished"
      "(\<exists>rc. rc \<noteq> 0 \<and> r = Inl (err_of rc)) \<or>
       (\<exists>c st. (C(i \<mapsto> ch)) j = Some c \<and> T c = Some st \<and> r = decode st)" by simp_all
  qed
  ultimately show ?thesis by (simp add: io_inv_def)
qed

lemma io_inv_refused:
  assumes inv: "io_inv decode err_of B P V F R C T n" and i: "F i = Some Unstarted"
    and ch: "V ch = Unmade" and p: "B p = None" and rc: "rc \<noteq> 0"
  shows "io_inv decode err_of (B(p \<mapsto> ch)) P (V(ch := ReceiverGone))
           (F(i \<mapsto> Finished)) (R(i \<mapsto> Inl (err_of rc))) C T (Suc n)"
proof -
  note X = boxes_invD [OF io_invD(1) [OF inv]] and Y = tasks_invD [OF io_invD(2) [OF inv]]
    and Z = fresh_invD [OF io_invD(3) [OF inv]] and O = outcome_invD [OF io_invD(4) [OF inv]]
  note new = Z [OF ch]
  from p X(2) have np: "p \<notin> P" by auto
  have wait: "waits decode (B(p \<mapsto> ch)) P (V(ch := ReceiverGone)) T c" if "waits decode B P V T c" for c
    using that ch p np unfolding waits_def by (cases "c = ch") auto
  have "boxes_inv (B(p \<mapsto> ch)) P (V(ch := ReceiverGone)) T (Suc n)"
  proof (rule boxes_invI)
    show "card (dom (B(p \<mapsto> ch))) = card P + Suc n" using X(1,4) p by (simp add: domIff)
    show "a = b" if "(B(p \<mapsto> ch)) a = Some c" "(B(p \<mapsto> ch)) b = Some c" for a b c
      using that new(3) X(5) by (auto split: if_splits)
    show "T c = None \<and> ((V(ch := ReceiverGone)) c = ReceiverGone \<or>
        (V(ch := ReceiverGone)) c = Open \<and> a \<in> P)" if "(B(p \<mapsto> ch)) a = Some c" for a c
      using that new(1,3) X(6) by (auto split: if_splits)
  qed (use X in auto)
  moreover have "tasks_inv decode (B(p \<mapsto> ch)) P (V(ch := ReceiverGone)) T (F(i \<mapsto> Finished)) C"
    by (rule tasks_invI) (auto split: if_splits intro: Y wait)
  moreover have "fresh_inv (B(p \<mapsto> ch)) (V(ch := ReceiverGone)) T C"
    by (rule fresh_invI) (auto split: if_splits dest: Z)
  moreover have "outcome_inv decode err_of T (F(i \<mapsto> Finished)) C (R(i \<mapsto> Inl (err_of rc)))"
    by (rule outcome_invI) (use rc O in \<open>auto split: if_splits\<close>)
  ultimately show ?thesis by (simp add: io_inv_def)
qed

lemma io_inv_received:
  assumes inv: "io_inv decode err_of B P V F R C T n" and i: "F i = Some (Awaiting r)"
    and v: "V (rx r) = Sent v"
  shows "io_inv decode err_of B P (V(rx r := ReceiverGone)) (F(i \<mapsto> Finished)) (R(i \<mapsto> v)) C T n"
proof -
  note X = boxes_invD [OF io_invD(1) [OF inv]] and Y = tasks_invD [OF io_invD(2) [OF inv]]
    and Z = fresh_invD [OF io_invD(3) [OF inv]] and O = outcome_invD [OF io_invD(4) [OF inv]]
  from Y(2) [OF i] v obtain st where st: "T (rx r) = Some st" "v = decode st"
    by (auto simp: waits_def)
  have "boxes_inv B P (V(rx r := ReceiverGone)) T n"
    by (rule boxes_invI) (use X in auto)
  moreover have "tasks_inv decode B P (V(rx r := ReceiverGone)) T (F(i \<mapsto> Finished)) C"
  proof (rule tasks_invI)
    show "waits decode B P (V(rx r := ReceiverGone)) T (rx q)"
      if "(F(i \<mapsto> Finished)) j = Some (Awaiting q)" for j q
    proof -
      from that have j: "j \<noteq> i" "F j = Some (Awaiting q)" by (auto split: if_splits)
      with Y(1) [OF i] Y(1) [OF j(2)] Y(5) have "rx q \<noteq> rx r" by metis
      with Y(2) [OF j(2)] show ?thesis by (simp add: waits_def)
    qed
  qed (auto split: if_splits intro: Y)
  moreover have "fresh_inv B (V(rx r := ReceiverGone)) T C"
    by (rule fresh_invI) (auto split: if_splits dest: Z)
  moreover have "outcome_inv decode err_of T (F(i \<mapsto> Finished)) C (R(i \<mapsto> v))"
    by (rule outcome_invI) (use st O Y(1) [OF i] in \<open>auto split: if_splits\<close>)
  ultimately show ?thesis by (simp add: io_inv_def)
qed

lemma io_inv_dropped:
  assumes inv: "io_inv decode err_of B P V F R C T n" and i: "F i = Some f" "f \<noteq> Finished"
    and V': "V' = (case f of Awaiting r \<Rightarrow> V(rx r := ReceiverGone) | _ \<Rightarrow> V)"
  shows "io_inv decode err_of B P V' (F(i \<mapsto> Finished)) R C T n"
proof -
  note X = boxes_invD [OF io_invD(1) [OF inv]] and Y = tasks_invD [OF io_invD(2) [OF inv]]
    and Z = fresh_invD [OF io_invD(3) [OF inv]] and O = outcome_invD [OF io_invD(4) [OF inv]]
  have gone: "V' c = ReceiverGone \<or> V' c = V c" for c using V' by (cases f) auto
  have "boxes_inv B P V' T n"
  proof (rule boxes_invI)
    show "T c = None \<and> (V' c = ReceiverGone \<or> V' c = Open \<and> a \<in> P)" if "B a = Some c" for a c
      using X(6) [OF that] gone [of c] by auto
  qed (fact X)+
  moreover have "tasks_inv decode B P V' T (F(i \<mapsto> Finished)) C"
  proof (rule tasks_invI)
    show "waits decode B P V' T (rx q)" if "(F(i \<mapsto> Finished)) j = Some (Awaiting q)" for j q
    proof -
      from that have j: "j \<noteq> i" "F j = Some (Awaiting q)" by (auto split: if_splits)
      have "V' (rx q) = V (rx q)"
      proof (cases f)
        case (Awaiting r)
        with i have "C i = Some (rx r)" by (auto intro: Y)
        with Y(1) [OF j(2)] Y(5) j(1) have "rx q \<noteq> rx r" by metis
        with Awaiting V' show ?thesis by simp
      qed (simp_all add: V')
      with Y(2) [OF j(2)] show ?thesis by (simp add: waits_def)
    qed
  qed (auto split: if_splits intro: Y)
  moreover have "fresh_inv B V' T C"
  proof (rule fresh_invI)
    fix c assume "V' c = Unmade"
    with gone [of c] have "V c = Unmade" by auto
    then show "T c = None" "C j \<noteq> Some c" "B p \<noteq> Some c" for j p by (auto dest: Z)
  qed
  moreover have "outcome_inv decode err_of T (F(i \<mapsto> Finished)) C R"
    by (rule outcome_invI) (use O in \<open>auto split: if_splits\<close>)
  ultimately show ?thesis by (simp add: io_inv_def)
qed

lemma io_inv_completed:
  assumes inv: "io_inv decode err_of B P V F R C T n" and p: "p \<in> P" "B p = Some ch"
    and V': "V ch = Open \<Longrightarrow> V' = V(ch := Sent (decode st))" "V ch = ReceiverGone \<Longrightarrow> V' = V"
  shows "io_inv decode err_of (B(p := None)) (P - {p}) V' F R C (T(ch \<mapsto> st)) n"
proof -
  note X = boxes_invD [OF io_invD(1) [OF inv]] and Y = tasks_invD [OF io_invD(2) [OF inv]]
    and Z = fresh_invD [OF io_invD(3) [OF inv]] and O = outcome_invD [OF io_invD(4) [OF inv]]
  from X(6) [OF p(2)] have T: "T ch = None" and V: "V ch = Open \<or> V ch = ReceiverGone" by auto
  from V V' have other: "c \<noteq> ch \<Longrightarrow> V' c = V c" for c by auto
  have wait: "waits decode (B(p := None)) (P - {p}) V' (T(ch \<mapsto> st)) c" if w: "waits decode B P V T c" for c
  proof (cases "c = ch")
    case True
    with w T have "V ch = Open" by (auto simp: waits_def)
    with True V' show ?thesis by (simp add: waits_def)
  next
    case False
    with w other p(2) show ?thesis by (auto simp: waits_def intro!: bexI)
  qed
  have only: "c \<noteq> ch" if "(B(p := None)) a = Some c" for a c
    using that p(2) X(5) by (auto split: if_splits)
  have "boxes_inv (B(p := None)) (P - {p}) V' (T(ch \<mapsto> st)) n"
  proof (rule boxes_invI)
    from X(3) p obtain m where "card P = Suc m" by (cases "card P") (auto simp: card_eq_0_iff)
    with X(1,3,4) p show "card (dom (B(p := None))) = card (P - {p}) + n"
      by (simp add: card_Diff_singleton domI)
    show "a = b" if "(B(p := None)) a = Some c" "(B(p := None)) b = Some c" for a b c
      using that X(5) by (auto split: if_splits)
    show "(T(ch \<mapsto> st)) c = None \<and> (V' c = ReceiverGone \<or> V' c = Open \<and> a \<in> P - {p})"
      if "(B(p := None)) a = Some c" for a c
      using that X(6) only [OF that] other by (auto split: if_splits)
  qed (use X in auto)
  moreover have "tasks_inv decode (B(p := None)) (P - {p}) V' (T(ch \<mapsto> st)) F C"
    by (rule tasks_invI) (auto intro: Y wait)
  moreover have "fresh_inv (B(p := None)) V' (T(ch \<mapsto> st)) C"
  proof (rule fresh_invI)
    fix c assume c: "V' c = Unmade"
    with V V' have "c \<noteq> ch" by auto
    with c other have "V c = Unmade" by simp
    with \<open>c \<noteq> ch\<close> show "(T(ch \<mapsto> st)) c = None" "C j \<noteq> Some c" "(B(p := None)) a \<noteq> Some c" for j a
      by (auto dest: Z)
  qed
  moreover have "outcome_inv decode err_of (T(ch \<mapsto> st)) F C R"
  proof (rule outcome_invI)
    fix j r assume "R j = Some r"
    from O [OF this] T show "F j = Some Finished"
      "(\<exists>rc. rc \<noteq> 0 \<and> r = Inl (err_of rc)) \<or>
       (\<exists>c s. C j = Some c \<and> (T(ch \<mapsto> st)) c = Some s \<and> r = decode s)" by auto
  qed
  ultimately show ?thesis by (simp add: io_inv_def)
qed

text \<open>A callback that runs inside the call: submitted, completed and received at once.\<close>

lemma io_inv_inline:
  assumes inv: "io_inv decode err_of B P V F R C T n" and i: "F i = Some Unstarted"
    and ch: "V ch = Unmade" and p: "B p = None"
  shows "io_inv decode err_of B P (V(ch := ReceiverGone)) (F(i \<mapsto> Finished)) (R(i \<mapsto> decode st))
           (C(i \<mapsto> ch)) (T(ch \<mapsto> st)) n"
proof -
  from boxes_invD(2) [OF io_invD(1) [OF inv]] p have np: "insert p P - {p} = P" by auto
  from p have B: "(B(p \<mapsto> ch))(p := None) = B" by (simp add: fun_upd_idem)
  have "io_inv decode err_of ((B(p \<mapsto> ch))(p := None)) (insert p P - {p}) (V(ch := Sent (decode st)))
      (F(i \<mapsto> Awaiting (CompletionReceiver ch))) R (C(i \<mapsto> ch)) (T(ch \<mapsto> st)) n"
    by (rule io_inv_completed [OF io_inv_submitted [OF inv i ch p]]) simp_all
  from io_inv_received [OF this [unfolded np B], of i "CompletionReceiver ch" "decode st"]
  show ?thesis by simp
qed

section \<open>The interface of an operation and its callback\<close>

text \<open>Polling an open receiver leaves it pending; polling a filled one takes the value and drops it.\<close>

lemma await_rx_eq:
  assumes os: "oneshot_spec os view"
  shows "view (chans s) (rx r) = Open \<Longrightarrow>
      \<exists>c. await_rx os r s = (Pending, Awaiting r, s\<lparr>chans := c\<rparr>) \<and> view c = view (chans s)"
    and "view (chans s) (rx r) = Sent v \<Longrightarrow>
      \<exists>c. await_rx os r s = (Ready v, Finished, s\<lparr>chans := c\<rparr>) \<and>
          view c = (view (chans s))(rx r := ReceiverGone)"
proof -
  show "view (chans s) (rx r) = Open \<Longrightarrow>
      \<exists>c. await_rx os r s = (Pending, Awaiting r, s\<lparr>chans := c\<rparr>) \<and> view c = view (chans s)"
    using receiver_poll_eq(1) [OF os, of "chans s" r "poll_cx s"] by (fastforce simp: await_rx_def)
  assume "view (chans s) (rx r) = Sent v"
  from receiver_poll_eq(2) [OF os this] obtain c where
    c: "receiver_poll os r (poll_cx s) (chans s) = (Ready v, c)" "view c = (view (chans s))(rx r := Taken)" by blast
  then have "view c (rx r) \<noteq> Unmade" by simp
  with c have "view (os_drop_rx os (rx r) c) = (view (chans s))(rx r := ReceiverGone)"
    by (simp add: oneshot_drop(3) [OF os] fun_eq_iff)
  with c(1) show "\<exists>c. await_rx os r s = (Ready v, Finished, s\<lparr>chans := c\<rparr>) \<and>
      view c = (view (chans s))(rx r := ReceiverGone)"
    by (auto simp: await_rx_def)
qed

text \<open>What a callback does: take the box, hand the context back to SPDK, send the decoded status.\<close>

definition complete_boxed ::
  "('c, io_result) oneshot \<Rightarrow> ('st \<Rightarrow> io_result) \<Rightarrow> ('st \<Rightarrow> 'w \<Rightarrow> 'w) \<Rightarrow> 'st \<Rightarrow> ptr \<Rightarrow>
     ('c, 'w) runtime \<Rightarrow> ('c, 'w) runtime option" where
  "complete_boxed os decode release st p s =
     (case sender_from_raw p (sender_boxes s) of
        None \<Rightarrow> None
      | Some (t, h) \<Rightarrow> Some (s\<lparr>sender_boxes := h, chans := sender_complete os t (decode st) (chans s),
                             dev := release st (dev s)\<rparr>))"

lemma complete_boxed_Some:
  assumes os: "oneshot_spec os view" and ok: "boxes_ok (sender_boxes s)"
    and p: "cells (sender_boxes s) p = Some ch"
  shows "\<exists>h c. complete_boxed os decode release st p s =
        Some (s\<lparr>sender_boxes := h, chans := c, dev := release st (dev s)\<rparr>) \<and> boxes_ok h \<and>
      cells h = (cells (sender_boxes s))(p := None) \<and>
      (view (chans s) ch = Open \<longrightarrow> view c = (view (chans s))(ch := Sent (decode st))) \<and>
      (view (chans s) ch = ReceiverGone \<longrightarrow> view c = view (chans s))"
proof -
  from box.from_Some [OF p] obtain h where
    h: "box_from_raw p (sender_boxes s) = Some (ch, h)" "cells h = (cells (sender_boxes s))(p := None)"
    by blast
  moreover have "boxes_ok h" using box.from_ok [OF ok h(1)] .
  moreover have "sender_from_raw p (sender_boxes s) = Some (CompletionSender ch, h)" using h by simp
  ultimately have "complete_boxed os decode release st p s = Some (s\<lparr>sender_boxes := h,
      chans := snd (os_send os ch (decode st) (chans s)), dev := release st (dev s)\<rparr>)"
    by (simp add: complete_boxed_def sender_complete_def sender_from_raw_def)
  with \<open>boxes_ok h\<close> h(2) oneshot_send [OF os, of "chans s" ch "decode st"] show ?thesis
    by (intro exI [of _ h] exI [of _ "snd (os_send os ch (decode st) (chans s))"]) simp
qed

lemma complete_boxed_None:
  "complete_boxed os decode release st p s = None \<longleftrightarrow> cells (sender_boxes s) p = None"
  by (auto simp: complete_boxed_def sender_from_raw_def box_from_raw_def split: option.splits)

text \<open>The invariant of a whole system.\<close>

definition sys_inv ::
  "('st \<Rightarrow> io_result) \<Rightarrow> (i32 \<Rightarrow> error) \<Rightarrow> ('c \<Rightarrow> chan \<Rightarrow> io_result chan_view) \<Rightarrow> ('w \<Rightarrow> ptr set) \<Rightarrow>
     ('c, 'w, 'st) io_system \<Rightarrow> bool" where
  "sys_inv decode err_of view pending S \<longleftrightarrow> boxes_ok (sender_boxes (rt S)) \<and>
     io_inv decode err_of (cells (sender_boxes (rt S))) (pending (dev (rt S))) (view (chans (rt S)))
       (tasks S) (outcome S) (chan_of S) (told S) (refused S)"

text \<open>
  Wakers: while a task waits on an open channel, the waker registered with the channel is the one the
  task was last polled with.
\<close>

definition awake_inv ::
  "('c \<Rightarrow> chan \<Rightarrow> io_result chan_view) \<Rightarrow> ('c \<Rightarrow> chan \<Rightarrow> waker option) \<Rightarrow> ('c, 'w, 'st) io_system \<Rightarrow> bool"
where
  "awake_inv view registered S \<longleftrightarrow>
     (\<forall>i r. tasks S i = Some (Awaiting r) \<longrightarrow> view (chans (rt S)) (rx r) = Open \<longrightarrow>
        registered (chans (rt S)) (rx r) = Some (polled_by S i))"

text \<open>Only the channels a step makes, polls, sends on or drops change their wakers.\<close>

lemma await_rx_registered:
  assumes w: "waker_spec os view registered" and a: "await_rx os r s = (x, f', s')"
  shows "d \<noteq> rx r \<Longrightarrow> registered (chans s') d = registered (chans s) d"
    and "view (chans s) (rx r) = Open \<Longrightarrow> f' = Awaiting q \<Longrightarrow>
      q = r \<and> registered (chans s') (rx r) = Some (poll_cx s)"
proof -
  obtain y c where y: "os_poll os (rx r) (poll_cx s) (chans s) = (y, c)" by fastforce
  note W = waker_specD(1) [OF w _ y] waker_specD(2) [OF w _ y] waker_specD(4) [OF w]
  show "d \<noteq> rx r \<Longrightarrow> registered (chans s') d = registered (chans s) d"
    using a y W(2,3) by (auto simp: await_rx_def receiver_poll_def split: poll.splits sum.splits)
  show "view (chans s) (rx r) = Open \<Longrightarrow> f' = Awaiting q \<Longrightarrow>
      q = r \<and> registered (chans s') (rx r) = Some (poll_cx s)"
    using a y W(1) by (auto simp: await_rx_def receiver_poll_def split: poll.splits sum.splits)
qed

lemma complete_boxed_registered:
  assumes w: "waker_spec os view registered" and p: "cells (sender_boxes s) p = Some ch"
    and c: "complete_boxed os decode release st p s = Some s'"
  shows "d \<noteq> ch \<Longrightarrow> registered (chans s') d = registered (chans s) d" and "poll_cx s' = poll_cx s"
  using c p waker_specD(3) [OF w]
  by (auto simp: complete_boxed_def sender_from_raw_def sender_complete_def box_from_raw_def
    split: option.splits)

text \<open>
  An operation provides its resumption, its submission and its callback; the laws say that the first
  poll submits and awaits, that a later poll awaits, and that the callback completes the boxed sender.
\<close>

locale io_protocol =
  fixes os :: "('c, io_result) oneshot"
    and resume :: "'q \<Rightarrow> future \<Rightarrow> ('c, 'w) runtime \<Rightarrow> ('c, 'w) resumed"
    and submit :: "'q \<Rightarrow> ('w, 'st) submission"
    and callback :: "'st \<Rightarrow> ptr \<Rightarrow> ('c, 'w) runtime \<Rightarrow> ('c, 'w) runtime option"
    and err_of :: "i32 \<Rightarrow> error"
    and decode :: "'st \<Rightarrow> io_result"
    and release :: "'st \<Rightarrow> 'w \<Rightarrow> 'w"
  assumes resume_first: "resume q Unstarted s = submit_then_await os (submit q) callback err_of s"
    and resume_await: "resume q (Awaiting r) s = Some (await_rx os r s)"
    and callback_eq: "callback st p s = complete_boxed os decode release st p s"
begin

lemma first_poll_submitted:
  assumes "completion os (chans s) = (CompletionSender ch, CompletionReceiver ch, c)"
    and "sender_into_raw (CompletionSender ch) (sender_boxes s) = (p, h)"
    and "submit q p (dev s) = ((rc, now), w)"
  shows "submitted os (submit q) s = (ch, rc, now)"
  using assms by (simp add: submitted_def sender_into_raw_def)

lemma first_poll_call:
  assumes comp: "completion os (chans s) = (CompletionSender ch, CompletionReceiver ch, c)"
    and raw: "sender_into_raw (CompletionSender ch) (sender_boxes s) = (p, h)"
    and sub: "submit q p (dev s) = ((rc, now), w)"
  shows "resume q Unstarted s = (case (case now of
        None \<Rightarrow> Some (rc, s\<lparr>sender_boxes := h, chans := c, dev := w\<rparr>)
      | Some st \<Rightarrow> map_option (Pair rc) (complete_boxed os decode release st p
          (s\<lparr>sender_boxes := h, chans := c, dev := w\<rparr>))) of
      None \<Rightarrow> None
    | Some (rc, s') \<Rightarrow> Some (if rc \<noteq> 0
        then (Ready (Inl (err_of rc)), Finished, s'\<lparr>chans := os_drop_rx os ch (chans s')\<rparr>)
        else await_rx os (CompletionReceiver ch) s'))"
  by (cases now) (use sub in \<open>simp_all add: resume_first submit_then_await_def comp
    raw submit_call_def callback_eq split: option.split\<close>)

lemma first_poll:
  assumes os: "oneshot_spec os view" and con: "submit_contract submit release pending"
    and ok: "boxes_ok (sender_boxes s)"
  obtains (accepted) p ch s' where "submitted os (submit q) s = (ch, 0, None)"
      "resume q Unstarted s = Some (Pending, Awaiting (CompletionReceiver ch), s')"
      "boxes_ok (sender_boxes s')" "cells (sender_boxes s) p = None" "view (chans s) ch = Unmade"
      "cells (sender_boxes s') = (cells (sender_boxes s))(p \<mapsto> ch)"
      "view (chans s') = (view (chans s))(ch := Open)"
      "pending (dev s') = insert p (pending (dev s))"
  | (told) p ch st s' where "submitted os (submit q) s = (ch, 0, Some st)"
      "resume q Unstarted s = Some (Ready (decode st), Finished, s')"
      "boxes_ok (sender_boxes s')" "cells (sender_boxes s) p = None" "view (chans s) ch = Unmade"
      "cells (sender_boxes s') = cells (sender_boxes s)"
      "view (chans s') = (view (chans s))(ch := ReceiverGone)"
      "pending (dev s') = pending (dev s)"
  | (refused) p ch rc s' where "submitted os (submit q) s = (ch, rc, None)" "rc \<noteq> 0"
      "resume q Unstarted s = Some (Ready (Inl (err_of rc)), Finished, s')"
      "boxes_ok (sender_boxes s')" "cells (sender_boxes s) p = None" "view (chans s) ch = Unmade"
      "cells (sender_boxes s') = (cells (sender_boxes s))(p \<mapsto> ch)"
      "view (chans s') = (view (chans s))(ch := ReceiverGone)"
      "pending (dev s') = pending (dev s)"
proof -
  obtain ch c where ch: "os_channel os (chans s) = (ch, c)" by fastforce
  then have comp: "completion os (chans s) = (CompletionSender ch, CompletionReceiver ch, c)"
    by (simp add: completion_def)
  note V = oneshot_channel [OF os ch]
  obtain p h where p: "box_into_raw ch (sender_boxes s) = (p, h)" by fastforce
  then have box: "cells h = (cells (sender_boxes s))(p \<mapsto> ch)" "cells (sender_boxes s) p = None"
    "boxes_ok h" "sender_into_raw (CompletionSender ch) (sender_boxes s) = (p, h)"
    using box.into_contents [OF p] box.into_fresh [OF ok p] box.into_ok [OF ok p] by simp_all
  obtain rc now w where sub: "submit q p (dev s) = ((rc, now), w)" by (metis surj_pair)
  note con = submit_contract_submit [OF con sub] submit_contract_release [OF con]
  let ?s = "s\<lparr>sender_boxes := h, chans := c, dev := w\<rparr>"
  note call = first_poll_call [OF comp box(4) sub]
    and subm = first_poll_submitted [OF comp box(4) sub]
  show thesis
  proof (cases "rc = 0")
    case False
    with con have now: "now = None" by simp
    with V have "view (os_drop_rx os ch c) = (view (chans s))(ch := ReceiverGone)"
      using oneshot_drop(3) [OF os, of c ch] by simp
    with False now show thesis using con(1) box V subm call
      by (intro refused [of ch rc "?s\<lparr>chans := os_drop_rx os ch c\<rparr>" p]) simp_all
  next
    case rc: True
    show thesis
    proof (cases now)
      case None
      from await_rx_eq(1) [OF os, of ?s "CompletionReceiver ch"] V obtain c' where
        "await_rx os (CompletionReceiver ch) ?s =
           (Pending, Awaiting (CompletionReceiver ch), ?s\<lparr>chans := c'\<rparr>)" "view c' = view c" by auto
      with rc None show thesis using con(1) box V subm call
        by (intro accepted [of ch "?s\<lparr>chans := c'\<rparr>" p]) simp_all
    next
      case (Some st)
      from complete_boxed_Some [OF os, of ?s p ch decode release st] box V obtain h' c' where
        d: "complete_boxed os decode release st p ?s =
            Some (s\<lparr>sender_boxes := h', chans := c', dev := release st w\<rparr>)"
          "boxes_ok h'" "cells h' = (cells h)(p := None)" "view c' = (view c)(ch := Sent (decode st))"
        by auto
      let ?t = "s\<lparr>sender_boxes := h', chans := c', dev := release st w\<rparr>"
      from await_rx_eq(2) [OF os, of ?t "CompletionReceiver ch" "decode st"] d(4) obtain c'' where
        a: "await_rx os (CompletionReceiver ch) ?t = (Ready (decode st), Finished, ?t\<lparr>chans := c''\<rparr>)"
          "view c'' = (view c')(ch := ReceiverGone)" by auto
      have "cells h' = cells (sender_boxes s)" using d(3) box by (simp add: fun_upd_idem)
      with rc Some d a show thesis using con box V subm call
        by (intro told [of ch st "?t\<lparr>chans := c''\<rparr>" p]) simp_all
    qed
  qed
qed

lemma start_inv:
  assumes "boxes_ok (sender_boxes s)" "cells (sender_boxes s) = Map.empty" "pending (dev s) = {}"
  shows "sys_inv decode err_of view pending (io_start s)"
  using assms io_inv_start by (simp add: sys_inv_def io_start_def)

lemma poll_first_inv:
  assumes os: "oneshot_spec os view" and con: "submit_contract submit release pending"
    and inv: "sys_inv decode err_of view pending S" and i: "tasks S i = Some Unstarted"
    and res: "resume q Unstarted (rt S) = Some (x, f', s)"
  shows "sys_inv decode err_of view pending
    (record_poll i Unstarted x f' s (submitted os (submit q) (rt S)) S)"
proof -
  from inv have ok: "boxes_ok (sender_boxes (rt S))" by (simp add: sys_inv_def)
  from inv have io: "io_inv decode err_of (cells (sender_boxes (rt S))) (pending (dev (rt S)))
      (view (chans (rt S))) (tasks S) (outcome S) (chan_of S) (told S) (refused S)"
    by (simp add: sys_inv_def)
  show ?thesis
  proof (rule first_poll [OF os con ok, of q])
    fix p ch s'
    assume *: "submitted os (submit q) (rt S) = (ch, 0, None)"
      "resume q Unstarted (rt S) = Some (Pending, Awaiting (CompletionReceiver ch), s')"
      "boxes_ok (sender_boxes s')" "cells (sender_boxes (rt S)) p = None" "view (chans (rt S)) ch = Unmade"
      "cells (sender_boxes s') = (cells (sender_boxes (rt S)))(p \<mapsto> ch)"
      "view (chans s') = (view (chans (rt S)))(ch := Open)"
      "pending (dev s') = insert p (pending (dev (rt S)))"
    from io_inv_submitted [OF io i *(5,4)] *(1,2,3,6-8) res show ?thesis
      by (simp add: sys_inv_def record_poll_def)
  next
    fix p ch st s'
    assume *: "submitted os (submit q) (rt S) = (ch, 0, Some st)"
      "resume q Unstarted (rt S) = Some (Ready (decode st), Finished, s')"
      "boxes_ok (sender_boxes s')" "cells (sender_boxes (rt S)) p = None" "view (chans (rt S)) ch = Unmade"
      "cells (sender_boxes s') = cells (sender_boxes (rt S))"
      "view (chans s') = (view (chans (rt S)))(ch := ReceiverGone)"
      "pending (dev s') = pending (dev (rt S))"
    from io_inv_inline [OF io i *(5,4), of st] *(1,2,3,6-8) res show ?thesis
      by (simp add: sys_inv_def record_poll_def)
  next
    fix p ch rc s'
    assume *: "submitted os (submit q) (rt S) = (ch, rc, None)" "rc \<noteq> 0"
      "resume q Unstarted (rt S) = Some (Ready (Inl (err_of rc)), Finished, s')"
      "boxes_ok (sender_boxes s')" "cells (sender_boxes (rt S)) p = None" "view (chans (rt S)) ch = Unmade"
      "cells (sender_boxes s') = (cells (sender_boxes (rt S)))(p \<mapsto> ch)"
      "view (chans s') = (view (chans (rt S)))(ch := ReceiverGone)"
      "pending (dev s') = pending (dev (rt S))"
    from io_inv_refused [OF io i *(6,5,2)] *(1-4,7-9) res show ?thesis
      by (simp add: sys_inv_def record_poll_def)
  qed
qed

text \<open>A later poll: pending while SPDK holds the context, ready with the decoded status afterwards.\<close>

lemma later_poll:
  assumes os: "oneshot_spec os view" and inv: "sys_inv decode err_of view pending S"
    and i: "tasks S i = Some (Awaiting r)"
  obtains (waiting) p c where "p \<in> pending (dev (rt S))" "cells (sender_boxes (rt S)) p = Some (rx r)"
      "resume q (Awaiting r) (rt S) = Some (Pending, Awaiting r, (rt S)\<lparr>chans := c\<rparr>)"
      "view c = view (chans (rt S))" "told S (rx r) = None"
  | (finished) st c where "told S (rx r) = Some st" "view (chans (rt S)) (rx r) = Sent (decode st)"
      "resume q (Awaiting r) (rt S) = Some (Ready (decode st), Finished, (rt S)\<lparr>chans := c\<rparr>)"
      "view c = (view (chans (rt S)))(rx r := ReceiverGone)"
proof -
  from inv have io: "io_inv decode err_of (cells (sender_boxes (rt S))) (pending (dev (rt S)))
      (view (chans (rt S))) (tasks S) (outcome S) (chan_of S) (told S) (refused S)"
    by (simp add: sys_inv_def)
  note X = boxes_invD [OF io_invD(1) [OF io]] and Y = tasks_invD [OF io_invD(2) [OF io]]
  from Y(2) [OF i] consider
      (opened) p where "view (chans (rt S)) (rx r) = Open" "p \<in> pending (dev (rt S))"
        "cells (sender_boxes (rt S)) p = Some (rx r)"
    | (sent) st where "told S (rx r) = Some st" "view (chans (rt S)) (rx r) = Sent (decode st)"
    unfolding waits_def by blast
  then show thesis
  proof cases
    case (opened p)
    from await_rx_eq(1) [OF os opened(1)] obtain c where
      "await_rx os r (rt S) = (Pending, Awaiting r, (rt S)\<lparr>chans := c\<rparr>)" "view c = view (chans (rt S))"
      by blast
    with opened X(6) [OF opened(3)] show thesis by (intro waiting [of p c]) (simp_all add: resume_await)
  next
    case (sent st)
    from await_rx_eq(2) [OF os sent(2)] obtain c where
      "await_rx os r (rt S) = (Ready (decode st), Finished, (rt S)\<lparr>chans := c\<rparr>)"
      "view c = (view (chans (rt S)))(rx r := ReceiverGone)" by blast
    with sent show thesis by (intro finished [of st c]) (simp_all add: resume_await)
  qed
qed

lemma poll_later_inv:
  assumes os: "oneshot_spec os view" and inv: "sys_inv decode err_of view pending S"
    and i: "tasks S i = Some (Awaiting r)" and res: "resume q (Awaiting r) (rt S) = Some (x, f', s)"
  shows "sys_inv decode err_of view pending (record_poll i (Awaiting r) x f' s sub S)"
proof -
  from inv have io: "io_inv decode err_of (cells (sender_boxes (rt S))) (pending (dev (rt S)))
      (view (chans (rt S))) (tasks S) (outcome S) (chan_of S) (told S) (refused S)"
    by (simp add: sys_inv_def)
  from os inv i show ?thesis
  proof (cases rule: later_poll [where q = q])
    case (waiting p c)
    with i have "(tasks S)(i \<mapsto> Awaiting r) = tasks S" by (simp add: fun_upd_idem)
    with waiting res inv show ?thesis by (simp add: sys_inv_def record_poll_def)
  next
    case (finished st c)
    from finished(3) res have "x = Ready (decode st)" "f' = Finished" "s = (rt S)\<lparr>chans := c\<rparr>"
      by simp_all
    with io_inv_received [OF io i finished(2)] inv finished(4) show ?thesis
      by (simp add: sys_inv_def record_poll_def)
  qed
qed

lemma cancel_inv:
  assumes os: "oneshot_spec os view" and inv: "sys_inv decode err_of view pending S"
    and i: "tasks S i = Some f" "f \<noteq> Finished"
  shows "sys_inv decode err_of view pending
    (S\<lparr>rt := drop_future os f (rt S), tasks := (tasks S)(i \<mapsto> Finished)\<rparr>)"
proof -
  from inv have io: "io_inv decode err_of (cells (sender_boxes (rt S))) (pending (dev (rt S)))
      (view (chans (rt S))) (tasks S) (outcome S) (chan_of S) (told S) (refused S)"
    by (simp add: sys_inv_def)
  have drop: "view (chans (drop_future os f (rt S))) = (case f of
      Awaiting r \<Rightarrow> (view (chans (rt S)))(rx r := ReceiverGone) | _ \<Rightarrow> view (chans (rt S)))"
  proof (cases f)
    case (Awaiting r)
    with tasks_invD(2) [OF io_invD(2) [OF io]] i have "view (chans (rt S)) (rx r) \<noteq> Unmade"
      by (fastforce simp: waits_def)
    with Awaiting oneshot_drop(3) [OF os] show ?thesis by simp
  qed simp_all
  have "sender_boxes (drop_future os f (rt S)) = sender_boxes (rt S)"
    "dev (drop_future os f (rt S)) = dev (rt S)" by (cases f; simp)+
  with io_inv_dropped [OF io i drop] inv show ?thesis by (simp add: sys_inv_def)
qed

lemma callback_defined:
  assumes os: "oneshot_spec os view" and inv: "sys_inv decode err_of view pending S"
    and p: "p \<in> pending (dev (rt S))"
  obtains ch where "cells (sender_boxes (rt S)) p = Some ch"
    "callback st p ((rt S)\<lparr>dev := w\<rparr>) \<noteq> None"
proof -
  from inv p obtain ch where "cells (sender_boxes (rt S)) p = Some ch"
    unfolding sys_inv_def io_inv_def boxes_inv_def by blast
  moreover from this have "callback st p ((rt S)\<lparr>dev := w\<rparr>) \<noteq> None"
    by (simp add: callback_eq complete_boxed_None)
  ultimately show thesis using that by blast
qed

lemma complete_inv:
  assumes os: "oneshot_spec os view" and con: "submit_contract submit release pending"
    and inv: "sys_inv decode err_of view pending S"
    and p: "p \<in> pending (dev (rt S))" "pending w = pending (dev (rt S)) - {p}"
    and cb: "callback st p ((rt S)\<lparr>dev := w\<rparr>) = Some s"
    and ch: "cells (sender_boxes (rt S)) p = Some ch"
  shows "sys_inv decode err_of view pending (S\<lparr>rt := s, told := (told S)(ch \<mapsto> st)\<rparr>)"
proof -
  from inv have ok: "boxes_ok (sender_boxes (rt S))" by (simp add: sys_inv_def)
  from inv have io: "io_inv decode err_of (cells (sender_boxes (rt S))) (pending (dev (rt S)))
      (view (chans (rt S))) (tasks S) (outcome S) (chan_of S) (told S) (refused S)"
    by (simp add: sys_inv_def)
  from complete_boxed_Some [OF os, of "(rt S)\<lparr>dev := w\<rparr>" p ch decode release st] ok ch cb obtain h c where
    s: "s = (rt S)\<lparr>sender_boxes := h, chans := c, dev := release st w\<rparr>" "boxes_ok h"
      "cells h = (cells (sender_boxes (rt S)))(p := None)"
      "view (chans (rt S)) ch = Open \<Longrightarrow> view c = (view (chans (rt S)))(ch := Sent (decode st))"
      "view (chans (rt S)) ch = ReceiverGone \<Longrightarrow> view c = view (chans (rt S))"
    by (auto simp: callback_eq)
  from io_inv_completed [OF io p(1) ch s(4,5)] s(1-3) p(2) submit_contract_release [OF con]
  show ?thesis by (simp add: sys_inv_def)
qed

theorem reachable_inv:
  assumes os: "oneshot_spec os view" and con: "submit_contract submit release pending"
    and "io_reachable os resume submit callback pending job S"
  shows "sys_inv decode err_of view pending S"
  using assms(3)
proof induction
  case (start s)
  then show ?case by (rule start_inv)
next
  case (step S T)
  note inv = step.IH
  from step.hyps(2) show ?case
  proof cases
    case (spawn i)
    with inv io_inv_spawn show ?thesis by (fastforce simp: sys_inv_def)
  next
    case (poll i f x f' s)
    then show ?thesis
    proof (cases f)
      case Unstarted
      with poll poll_first_inv [OF os con inv] show ?thesis by simp
    next
      case (Awaiting r)
      with poll poll_later_inv [OF os inv] show ?thesis by simp
    qed simp
  next
    case (cancel i f)
    with cancel_inv [OF os inv] show ?thesis by simp
  next
    case (complete p w st s ch)
    with complete_inv [OF os con inv] show ?thesis by simp
  next
    case (device w)
    with inv show ?thesis by (simp add: sys_inv_def)
  next
    case (enter cx)
    with inv show ?thesis by (simp add: sys_inv_def)
  qed
qed

text \<open>
  Refusals: when a task has returned, either its own submission was refused and its result is the error
  of the code that submission returned, or its result is the decoded status of its own channel.
\<close>

definition explained :: "(nat \<Rightarrow> 'q) \<Rightarrow> ('c, 'w, 'st) io_system \<Rightarrow> bool" where
  "explained job S \<longleftrightarrow>
     (\<forall>i rc. rejected S i = Some rc \<longrightarrow> tasks S i = Some Finished \<and> rc \<noteq> 0 \<and>
        (\<exists>p w w'. submit (job i) p w = ((rc, None), w'))) \<and>
     (\<forall>i r. outcome S i = Some r \<longrightarrow> (case rejected S i of
        Some rc \<Rightarrow> r = Inl (err_of rc)
      | None \<Rightarrow> \<exists>ch st. chan_of S i = Some ch \<and> told S ch = Some st \<and> r = decode st))"

lemma explainedD:
  assumes "explained job S"
  shows "rejected S i = Some rc \<Longrightarrow>
      tasks S i = Some Finished \<and> rc \<noteq> 0 \<and> (\<exists>p w w'. submit (job i) p w = ((rc, None), w'))"
    and "outcome S i = Some r \<Longrightarrow> rejected S i = Some rc \<Longrightarrow> r = Inl (err_of rc)"
    and "outcome S i = Some r \<Longrightarrow> rejected S i = None \<Longrightarrow>
      \<exists>ch st. chan_of S i = Some ch \<and> told S ch = Some st \<and> r = decode st"
    and "tasks S i = Some f \<Longrightarrow> f \<noteq> Finished \<Longrightarrow> rejected S i = None"
  using assms unfolding explained_def by (auto split: option.splits dest!: spec [of _ i])

lemma explainedI:
  assumes "\<And>i rc. rejected S i = Some rc \<Longrightarrow>
      tasks S i = Some Finished \<and> rc \<noteq> 0 \<and> (\<exists>p w w'. submit (job i) p w = ((rc, None), w'))"
    and "\<And>i r rc. outcome S i = Some r \<Longrightarrow> rejected S i = Some rc \<Longrightarrow> r = Inl (err_of rc)"
    and "\<And>i r. outcome S i = Some r \<Longrightarrow> rejected S i = None \<Longrightarrow>
      \<exists>ch st. chan_of S i = Some ch \<and> told S ch = Some st \<and> r = decode st"
  shows "explained job S"
  using assms unfolding explained_def by (auto split: option.splits)

lemma explained_mono:
  assumes "explained job S" "outcome T = outcome S" "rejected T = rejected S" "chan_of T = chan_of S"
    and "\<And>i. tasks S i = Some Finished \<Longrightarrow> tasks T i = Some Finished"
    and "\<And>c st. told S c = Some st \<Longrightarrow> told T c = Some st"
  shows "explained job T"
proof (rule explainedI)
  note E = explainedD [OF assms(1)]
  show "tasks T i = Some Finished \<and> rc \<noteq> 0 \<and> (\<exists>p w w'. submit (job i) p w = ((rc, None), w'))"
    if "rejected T i = Some rc" for i rc using that E(1) assms(3,5) by simp
  show "v = Inl (err_of rc)" if "outcome T i = Some v" "rejected T i = Some rc" for i v rc
    using that E(2) assms(2,3) by simp
  show "\<exists>ch st. chan_of T i = Some ch \<and> told T ch = Some st \<and> v = decode st"
    if "outcome T i = Some v" "rejected T i = None" for i v
    using that E(3) [of i v] assms(2-4,6) by fastforce
qed

lemma explained_first:
  assumes os: "oneshot_spec os view" and con: "submit_contract submit release pending"
    and inv: "sys_inv decode err_of view pending S" and ex: "explained job S"
    and i: "tasks S i = Some Unstarted"
    and res: "resume (job i) Unstarted (rt S) = Some (x, f', s)"
  shows "explained job (record_poll i Unstarted x f' s (submitted os (submit (job i)) (rt S)) S)"
proof -
  from inv have ok: "boxes_ok (sender_boxes (rt S))"
    and fresh: "fresh_inv (cells (sender_boxes (rt S))) (view (chans (rt S))) (told S) (chan_of S)"
    and out: "outcome_inv decode err_of (told S) (tasks S) (chan_of S) (outcome S)"
    by (simp_all add: sys_inv_def io_inv_def)
  from outcome_invD(1) [OF out, of i] i have none: "outcome S i = None" by (cases "outcome S i") auto
  note E = explainedD [OF ex] and rej = explainedD(4) [OF ex i]
  show ?thesis
  proof (rule first_poll [OF os con ok, of "job i"])
    fix ch s'
    assume "submitted os (submit (job i)) (rt S) = (ch, 0, None)"
      "resume (job i) Unstarted (rt S) = Some (Pending, Awaiting (CompletionReceiver ch), s')"
    with res have eq: "record_poll i Unstarted x f' s (submitted os (submit (job i)) (rt S)) S =
        S\<lparr>rt := s, tasks := (tasks S)(i \<mapsto> f'), polled_by := (polled_by S)(i := poll_cx (rt S)),
          chan_of := (chan_of S)(i \<mapsto> ch)\<rparr>" (is "_ = ?T") by (simp add: record_poll_def)
    show ?thesis unfolding eq
    proof (rule explainedI)
      fix j v assume "outcome ?T j = Some v" "rejected ?T j = None"
      with E(3) [of j v] none show "\<exists>c st. chan_of ?T j = Some c \<and> told ?T c = Some st \<and> v = decode st"
        by (cases "j = i") auto
    qed (use E(1,2) rej in \<open>auto split: if_splits\<close>)
  next
    fix ch st s'
    assume *: "submitted os (submit (job i)) (rt S) = (ch, 0, Some st)"
      "resume (job i) Unstarted (rt S) = Some (Ready (decode st), Finished, s')"
      "view (chans (rt S)) ch = Unmade"
    from fresh_invD(1) [OF fresh *(3)] have new: "told S ch = None" .
    from *(1,2) res have eq: "record_poll i Unstarted x f' s (submitted os (submit (job i)) (rt S)) S =
        S\<lparr>rt := s, tasks := (tasks S)(i \<mapsto> Finished), polled_by := (polled_by S)(i := poll_cx (rt S)),
          outcome := (outcome S)(i \<mapsto> decode st), chan_of := (chan_of S)(i \<mapsto> ch),
          told := (told S)(ch \<mapsto> st)\<rparr>" (is "_ = ?T") by (simp add: record_poll_def)
    show ?thesis unfolding eq
    proof (rule explainedI)
      fix j v assume "outcome ?T j = Some v" "rejected ?T j = None"
      with E(3) [of j v] new show "\<exists>c st. chan_of ?T j = Some c \<and> told ?T c = Some st \<and> v = decode st"
        by (cases "j = i") auto
    qed (use E(1,2) rej in \<open>auto split: if_splits\<close>)
  next
    fix ch rc s'
    assume *: "submitted os (submit (job i)) (rt S) = (ch, rc, None)" "rc \<noteq> 0"
      "resume (job i) Unstarted (rt S) = Some (Ready (Inl (err_of rc)), Finished, s')"
    from *(1) have "\<exists>p w w'. submit (job i) p w = ((rc, None), w')"
      by (auto simp: submitted_def split: prod.splits)
    moreover from * res have eq: "record_poll i Unstarted x f' s (submitted os (submit (job i)) (rt S)) S =
        S\<lparr>rt := s, tasks := (tasks S)(i \<mapsto> Finished), polled_by := (polled_by S)(i := poll_cx (rt S)),
          outcome := (outcome S)(i \<mapsto> Inl (err_of rc)), refused := Suc (refused S),
          rejected := (rejected S)(i \<mapsto> rc)\<rparr>" (is "_ = ?T") by (simp add: record_poll_def)
    ultimately show ?thesis unfolding eq
      by (intro explainedI) (use E(1-3) *(2) in \<open>auto split: if_splits\<close>)
  qed
qed

lemma explained_later:
  assumes os: "oneshot_spec os view" and inv: "sys_inv decode err_of view pending S"
    and ex: "explained job S" and i: "tasks S i = Some (Awaiting r)"
    and res: "resume (job i) (Awaiting r) (rt S) = Some (x, f', s)"
  shows "explained job (record_poll i (Awaiting r) x f' s sub S)"
proof -
  from inv have io: "tasks_inv decode (cells (sender_boxes (rt S))) (pending (dev (rt S)))
      (view (chans (rt S))) (told S) (tasks S) (chan_of S)" by (simp add: sys_inv_def io_inv_def)
  from os inv i show ?thesis
  proof (cases rule: later_poll [where q = "job i"])
    case (waiting p c)
    then have "x = Pending" "f' = Awaiting r" using res by simp_all
    with i have eq: "record_poll i (Awaiting r) x f' s sub S =
        S\<lparr>rt := s, polled_by := (polled_by S)(i := poll_cx (rt S))\<rparr>"
      by (simp add: record_poll_def fun_upd_idem)
    show ?thesis unfolding eq by (rule explained_mono [OF ex]) simp_all
  next
    case (finished st c)
    note E = explainedD [OF ex] and own = tasks_invD(1) [OF io i]
    from E(4) [OF i] have rej: "rejected S i = None" by simp
    from finished res have eq: "record_poll i (Awaiting r) x f' s sub S =
        S\<lparr>rt := s, tasks := (tasks S)(i \<mapsto> Finished), polled_by := (polled_by S)(i := poll_cx (rt S)),
          outcome := (outcome S)(i \<mapsto> decode st)\<rparr>" by (simp add: record_poll_def)
    show ?thesis unfolding eq
      by (rule explainedI) (use E(1-3) rej own finished(1) in \<open>auto split: if_splits\<close>)
  qed
qed

lemma reachable_explained:
  assumes os: "oneshot_spec os view" and con: "submit_contract submit release pending"
    and "io_reachable os resume submit callback pending job S"
  shows "explained job S"
  using assms(3)
proof induction
  case (start s)
  then show ?case by (simp add: explained_def io_start_def)
next
  case (step S T)
  note inv = reachable_inv [OF os con step.hyps(1)]
  from step.hyps(2) show ?case
  proof cases
    case (spawn i)
    show ?thesis unfolding spawn(1) by (rule explained_mono [OF step.IH]) (use spawn in auto)
  next
    case (poll i f x f' s)
    then show ?thesis
      using explained_first [OF os con inv step.IH] explained_later [OF os inv step.IH] by (cases f) auto
  next
    case (cancel i f)
    show ?thesis unfolding cancel(1) by (rule explained_mono [OF step.IH]) auto
  next
    case (complete p w st s ch)
    from inv complete(5) have "told S ch = None"
      by (simp add: sys_inv_def io_inv_def boxes_inv_def)
    then show ?thesis unfolding complete(1) by (intro explained_mono [OF step.IH]) auto
  qed (auto intro: explained_mono [OF step.IH])
qed

text \<open>The wakers in every reachable state.\<close>

lemma first_poll_registered:
  assumes os: "oneshot_spec os view" and w: "waker_spec os view registered"
    and con: "submit_contract submit release pending"
    and ok: "boxes_ok (sender_boxes s)" and sub: "submitted os (submit q) s = (ch, rc, now)"
    and res: "resume q Unstarted s = Some (x, f', s')"
  shows "d \<noteq> ch \<Longrightarrow> registered (chans s') d = registered (chans s) d"
    and "f' = Awaiting r \<Longrightarrow> rx r = ch \<and> registered (chans s') ch = Some (poll_cx s)"
proof -
  obtain c where c: "os_channel os (chans s) = (ch, c)"
    using sub by (auto simp: submitted_def completion_def split: prod.splits)
  then have comp: "completion os (chans s) = (CompletionSender ch, CompletionReceiver ch, c)"
    by (simp add: completion_def)
  obtain p h where p: "sender_into_raw (CompletionSender ch) (sender_boxes s) = (p, h)" by fastforce
  obtain w' where w': "submit q p (dev s) = ((rc, now), w')"
    using sub comp p by (auto simp: submitted_def split: prod.splits)
  let ?s = "s\<lparr>sender_boxes := h, chans := c, dev := w'\<rparr>"
  note call = first_poll_call [OF comp p w'] and drop = waker_specD(4) [OF w]
    and new = waker_specD(5) [OF w c]
    and aw = await_rx_registered [OF w, of "CompletionReceiver ch", simplified]
  have box: "cells h p = Some ch" using p by (auto simp: box_into_raw_eq)
  show "registered (chans s') d = registered (chans s) d" if d: "d \<noteq> ch"
  proof (cases now)
    case None
    with call res d show ?thesis using drop new aw(1) [of _ x f' s' d] by (auto split: if_splits)
  next
    case (Some st)
    with call res obtain t where t: "complete_boxed os decode release st p ?s = Some t"
      and r: "Some (x, f', s') = Some (if rc \<noteq> 0
        then (Ready (Inl (err_of rc)), Finished, t\<lparr>chans := os_drop_rx os ch (chans t)\<rparr>)
        else await_rx os (CompletionReceiver ch) t)" by (auto split: option.splits)
    from complete_boxed_registered(1) [OF w _ t d] box new [OF d]
    have "registered (chans t) d = registered (chans s) d" by simp
    with r d drop aw(1) [of t x f' s' d] show ?thesis by (auto split: if_splits)
  qed
  show "rx r = ch \<and> registered (chans s') ch = Some (poll_cx s)" if f': "f' = Awaiting r"
  proof -
    from first_poll [OF os con ok, of q] res f' sub have "rc = 0" "now = None" by fastforce+
    with call res have "await_rx os (CompletionReceiver ch) ?s = (x, f', s')" by simp
    moreover have "view c ch = Open" using oneshot_channel(2) [OF os c] by simp
    ultimately show ?thesis using aw(2) [of ?s x f' s' r] f' by auto
  qed
qed

lemma awake_later:
  assumes os: "oneshot_spec os view" and w: "waker_spec os view registered"
    and inv: "sys_inv decode err_of view pending S" and aw: "awake_inv view registered S"
    and i: "tasks S i = Some (Awaiting r)" and res: "resume q (Awaiting r) (rt S) = Some (x, f', s)"
  shows "awake_inv view registered (record_poll i (Awaiting r) x f' s sub S)" (is "awake_inv _ _ ?T")
proof -
  from inv have io: "tasks_inv decode (cells (sender_boxes (rt S))) (pending (dev (rt S)))
      (view (chans (rt S))) (told S) (tasks S) (chan_of S)" by (simp add: sys_inv_def io_inv_def)
  note own = tasks_invD(1,5) [OF io]
  from res have a: "await_rx os r (rt S) = (x, f', s)" by (simp add: resume_await)
  note A = await_rx_registered [OF w a]
  have same: "view (chans s) d = view (chans (rt S)) d" if "d \<noteq> rx r" for d
    using later_poll [OF os inv i, of q] res that by fastforce
  show ?thesis unfolding awake_inv_def
  proof (intro allI impI)
    fix j u assume j: "tasks ?T j = Some (Awaiting u)" "view (chans (rt ?T)) (rx u) = Open"
    show "registered (chans (rt ?T)) (rx u) = Some (polled_by ?T j)"
    proof (cases "j = i")
      case True
      with j have f': "f' = Awaiting u" by (simp add: record_poll_def)
      with later_poll [OF os inv i, of q] res j have "view (chans (rt S)) (rx r) = Open"
        by (fastforce simp: record_poll_def)
      with A(2) [OF this f'] True show ?thesis by (simp add: record_poll_def)
    next
      case False
      with j have u: "tasks S j = Some (Awaiting u)" by (simp add: record_poll_def)
      with own i False have ne: "rx u \<noteq> rx r" by metis
      with u j(2) same [OF ne] A(1) [OF ne] aw False show ?thesis
        by (simp add: record_poll_def awake_inv_def)
    qed
  qed
qed

lemma awake_first:
  assumes os: "oneshot_spec os view" and w: "waker_spec os view registered"
    and con: "submit_contract submit release pending"
    and inv: "sys_inv decode err_of view pending S" and aw: "awake_inv view registered S"
    and i: "tasks S i = Some Unstarted" and res: "resume q Unstarted (rt S) = Some (x, f', s)"
  shows "awake_inv view registered (record_poll i Unstarted x f' s (submitted os (submit q) (rt S)) S)"
    (is "awake_inv _ _ ?T")
proof -
  from inv have ok: "boxes_ok (sender_boxes (rt S))"
    and io: "tasks_inv decode (cells (sender_boxes (rt S))) (pending (dev (rt S)))
      (view (chans (rt S))) (told S) (tasks S) (chan_of S)"
    and fresh: "fresh_inv (cells (sender_boxes (rt S))) (view (chans (rt S))) (told S) (chan_of S)"
    by (simp_all add: sys_inv_def io_inv_def)
  obtain ch rc now where sub: "submitted os (submit q) (rt S) = (ch, rc, now)" by (metis surj_pair)
  note R = first_poll_registered [OF os w con ok sub res]
  have V: "view (chans (rt S)) ch = Unmade" "d \<noteq> ch \<Longrightarrow> view (chans s) d = view (chans (rt S)) d" for d
    using first_poll [OF os con ok, of q] sub res by fastforce+
  have T: "rt ?T = s" "tasks ?T = (tasks S)(i \<mapsto> f')" "polled_by ?T = (polled_by S)(i := poll_cx (rt S))"
    by (rule record_poll_fields)+
  show ?thesis unfolding awake_inv_def T
  proof (intro allI impI)
    fix j u assume j: "((tasks S)(i \<mapsto> f')) j = Some (Awaiting u)" "view (chans s) (rx u) = Open"
    show "registered (chans s) (rx u) = Some (((polled_by S)(i := poll_cx (rt S))) j)"
    proof (cases "j = i")
      case True
      with j(1) R(2) [of u] show ?thesis by simp
    next
      case False
      with j(1) have u: "tasks S j = Some (Awaiting u)" by simp
      with tasks_invD(1) [OF io u] fresh_invD(2) [OF fresh V(1)] have ne: "rx u \<noteq> ch" by metis
      with u j(2) V(2) [OF ne] R(1) [OF ne] aw False show ?thesis by (simp add: awake_inv_def)
    qed
  qed
qed

lemma awake_cancel:
  assumes os: "oneshot_spec os view" and w: "waker_spec os view registered"
    and inv: "sys_inv decode err_of view pending S" and aw: "awake_inv view registered S"
    and i: "tasks S i = Some f"
  shows "awake_inv view registered (S\<lparr>rt := drop_future os f (rt S), tasks := (tasks S)(i \<mapsto> Finished)\<rparr>)"
proof (cases f)
  case (Awaiting r)
  from inv have io: "tasks_inv decode (cells (sender_boxes (rt S))) (pending (dev (rt S)))
      (view (chans (rt S))) (told S) (tasks S) (chan_of S)" by (simp add: sys_inv_def io_inv_def)
  note own = tasks_invD(1,5) [OF io] and wait = tasks_invD(2) [OF io, of i r]
  from wait i Awaiting have "view (chans (rt S)) (rx r) \<noteq> Unmade" by (auto simp: waits_def)
  note V = oneshot_drop(3) [OF os this]
  show ?thesis unfolding awake_inv_def
  proof (intro allI impI)
    fix j u assume j: "tasks (S\<lparr>rt := drop_future os f (rt S), tasks := (tasks S)(i \<mapsto> Finished)\<rparr>) j = Some (Awaiting u)"
      "view (chans (rt (S\<lparr>rt := drop_future os f (rt S), tasks := (tasks S)(i \<mapsto> Finished)\<rparr>))) (rx u) = Open"
    from j(1) have u: "tasks S j = Some (Awaiting u)" "j \<noteq> i" by (auto split: if_splits)
    with own i Awaiting have ne: "rx u \<noteq> rx r" by metis
    with u j(2) V aw waker_specD(4) [OF w ne] Awaiting show
      "registered (chans (rt (S\<lparr>rt := drop_future os f (rt S), tasks := (tasks S)(i \<mapsto> Finished)\<rparr>))) (rx u) =
       Some (polled_by (S\<lparr>rt := drop_future os f (rt S), tasks := (tasks S)(i \<mapsto> Finished)\<rparr>) j)"
      by (simp add: awake_inv_def)
  qed
qed (use aw in \<open>auto simp: awake_inv_def split: if_splits\<close>)

lemma awake_complete:
  assumes os: "oneshot_spec os view" and w: "waker_spec os view registered"
    and inv: "sys_inv decode err_of view pending S" and aw: "awake_inv view registered S"
    and cb: "callback st p ((rt S)\<lparr>dev := w'\<rparr>) = Some s"
    and ch: "cells (sender_boxes (rt S)) p = Some ch"
  shows "awake_inv view registered (S\<lparr>rt := s, told := (told S)(ch \<mapsto> st)\<rparr>)"
proof -
  from inv have ok: "boxes_ok (sender_boxes (rt S))" and
    bx: "boxes_inv (cells (sender_boxes (rt S))) (pending (dev (rt S))) (view (chans (rt S))) (told S) (refused S)"
    by (simp_all add: sys_inv_def io_inv_def)
  have c: "complete_boxed os decode release st p ((rt S)\<lparr>dev := w'\<rparr>) = Some s"
    using cb by (simp add: callback_eq)
  have R: "registered (chans s) d = registered (chans (rt S)) d" if "d \<noteq> ch" for d
    using complete_boxed_registered(1) [OF w _ c that] ch by simp
  have "view (chans s) = (view (chans (rt S)))(ch := Sent (decode st)) \<or>
      view (chans (rt S)) ch = ReceiverGone \<and> view (chans s) = view (chans (rt S))"
    using complete_boxed_Some [OF os, of "(rt S)\<lparr>dev := w'\<rparr>" p ch decode release st] ok ch c
      boxes_invD(6) [OF bx ch] by auto
  then have "d \<noteq> ch \<and> view (chans (rt S)) d = Open" if "view (chans s) d = Open" for d
    using that by (cases "d = ch") auto
  with R aw show ?thesis by (auto simp: awake_inv_def)
qed

lemma reachable_awake:
  assumes os: "oneshot_spec os view" and w: "waker_spec os view registered"
    and con: "submit_contract submit release pending"
    and "io_reachable os resume submit callback pending job S"
  shows "awake_inv view registered S"
  using assms(4)
proof induction
  case (start s)
  then show ?case by (simp add: awake_inv_def io_start_def)
next
  case (step S T)
  note inv = reachable_inv [OF os con step.hyps(1)]
  from step.hyps(2) show ?case
  proof cases
    case (poll i f x f' s)
    then show ?thesis
      using awake_first [OF os w con inv step.IH] awake_later [OF os w inv step.IH] by (cases f) auto
  next
    case (cancel i f)
    with awake_cancel [OF os w inv step.IH] show ?thesis by simp
  next
    case (complete p w' st s ch)
    with awake_complete [OF os w inv step.IH] show ?thesis by simp
  qed (use step.IH in \<open>auto simp: awake_inv_def split: if_splits\<close>)
qed

text \<open>What the invariant gives a client.\<close>

lemma callback_safe:
  assumes "oneshot_spec os view" "submit_contract submit release pending"
    and "io_reachable os resume submit callback pending job S" "p \<in> pending (dev (rt S))"
  shows "callback st p ((rt S)\<lparr>dev := w\<rparr>) \<noteq> None"
  using callback_defined [OF assms(1) reachable_inv [OF assms(1-3)] assms(4)] by blast

lemma poll_safe:
  assumes os: "oneshot_spec os view" and con: "submit_contract submit release pending"
    and S: "io_reachable os resume submit callback pending job S"
    and i: "tasks S i = Some f" "f \<noteq> Finished"
  shows "resume q f (rt S) \<noteq> None"
proof (cases f)
  case Unstarted
  from reachable_inv [OF os con S] have "boxes_ok (sender_boxes (rt S))" by (simp add: sys_inv_def)
  from first_poll [OF os con this, of q] Unstarted show ?thesis by fastforce
next
  case (Awaiting r)
  with i(1) have "tasks S i = Some (Awaiting r)" by simp
  from later_poll [OF os reachable_inv [OF os con S] this, of q] Awaiting show ?thesis by fastforce
qed (use i in simp)

lemma told_ready:
  assumes os: "oneshot_spec os view" and con: "submit_contract submit release pending"
    and S: "io_reachable os resume submit callback pending job S"
    and i: "tasks S i = Some (Awaiting r)" and st: "told S (rx r) = Some st"
  shows "\<exists>s. resume q (Awaiting r) (rt S) = Some (Ready (decode st), Finished, s)"
  using later_poll [OF os reachable_inv [OF os con S] i, of q] st by fastforce

lemma untold_pending:
  assumes os: "oneshot_spec os view" and con: "submit_contract submit release pending"
    and S: "io_reachable os resume submit callback pending job S"
    and i: "tasks S i = Some (Awaiting r)" and st: "told S (rx r) = None"
  shows "(\<exists>s. resume q (Awaiting r) (rt S) = Some (Pending, Awaiting r, s)) \<and>
     (\<exists>p \<in> pending (dev (rt S)). cells (sender_boxes (rt S)) p = Some (rx r))"
  using later_poll [OF os reachable_inv [OF os con S] i, of q] st by fastforce

lemma outcome_justified:
  assumes "oneshot_spec os view" "submit_contract submit release pending"
    and "io_reachable os resume submit callback pending job S" "outcome S i = Some r"
  shows "case rejected S i of
      Some rc \<Rightarrow> rc \<noteq> 0 \<and> r = Inl (err_of rc) \<and> (\<exists>p w w'. submit (job i) p w = ((rc, None), w'))
    | None \<Rightarrow> \<exists>ch st. chan_of S i = Some ch \<and> told S ch = Some st \<and> r = decode st"
proof (cases "rejected S i")
  note E = explainedD [OF reachable_explained [OF assms(1-3)]]
  {
    case None
    with E(3) [OF assms(4)] show ?thesis by simp
  next
    case (Some rc)
    with E(1) [OF this] E(2) [OF assms(4) this] show ?thesis by simp
  }
qed

lemma own_channel:
  assumes "oneshot_spec os view" "submit_contract submit release pending"
    and "io_reachable os resume submit callback pending job S"
    and "chan_of S i = Some ch" "chan_of S j = Some ch"
  shows "i = j"
proof -
  from reachable_inv [OF assms(1-3)] have "tasks_inv decode (cells (sender_boxes (rt S)))
      (pending (dev (rt S))) (view (chans (rt S))) (told S) (tasks S) (chan_of S)"
    by (simp add: sys_inv_def io_inv_def)
  from tasks_invD(5) [OF this assms(4,5)] show ?thesis .
qed

lemma live_boxes:
  assumes "oneshot_spec os view" "submit_contract submit release pending"
    and "io_reachable os resume submit callback pending job S"
  shows "card (dom (cells (sender_boxes (rt S)))) = card (pending (dev (rt S))) + refused S"
proof -
  from reachable_inv [OF assms] have "boxes_inv (cells (sender_boxes (rt S))) (pending (dev (rt S)))
      (view (chans (rt S))) (told S) (refused S)" by (simp add: sys_inv_def io_inv_def)
  from boxes_invD(4) [OF this] show ?thesis .
qed

text \<open>
  An accepted request can always be carried through: SPDK calls the callback with any status it likes,
  the task is then ready, and its next poll returns the decoded status.
\<close>

lemma completes:
  fixes s :: "('c, 'w) runtime"
  assumes os: "oneshot_spec os view" and con: "submit_contract submit release pending"
    and acc: "\<And>p w. fst (submit q p w) = (0, None)"
    and any: "\<And>P w. \<exists>w'. pending w' = (P :: ptr set)"
    and s: "boxes_ok (sender_boxes s)" "cells (sender_boxes s) = Map.empty" "pending (dev s) = {}"
  shows "\<exists>S r. io_reachable os resume submit callback pending (\<lambda>_. q) S \<and>
     tasks S 0 = Some (Awaiting r) \<and> told S (rx r) = Some st \<and> chan_of S 0 = Some (rx r)"
    and "\<exists>S. io_reachable os resume submit callback pending (\<lambda>_. q) S \<and> outcome S 0 = Some (decode st)"
proof -
  let ?reach = "io_reachable os resume submit callback pending (\<lambda>_. q)"
  let ?S0 = "(io_start s :: ('c, 'w, 'st) io_system)\<lparr>tasks := [0 \<mapsto> Unstarted]\<rparr>"
  have "?reach (io_start s)" by (rule io_reachable.start) (rule s)+
  from io_reachable.step [OF this io_step.spawn [of "io_start s" 0]] have r0: "?reach ?S0"
    by (simp add: io_start_def)
  have "fst (snd (submitted os (submit q) s)) = 0 \<and> snd (snd (submitted os (submit q) s)) = None"
    by (simp add: submitted_def split: prod.splits) (metis acc fst_conv prod.inject)
  then obtain p ch s1 where sub: "submitted os (submit q) s = (ch, 0, None)"
    and res: "resume q Unstarted s = Some (Pending, Awaiting (CompletionReceiver ch), s1)"
    and s1: "boxes_ok (sender_boxes s1)" "cells (sender_boxes s1) p = Some ch" "p \<in> pending (dev s1)"
  proof (cases rule: first_poll [OF os con s(1), of q])
    case (1 p ch s1)
    then show thesis by (intro that [of ch s1 p]) simp_all
  qed simp_all
  let ?S1 = "record_poll 0 Unstarted Pending (Awaiting (CompletionReceiver ch)) s1
    (submitted os (submit q) s) ?S0"
  have r1: "?reach ?S1"
    using io_reachable.step [OF r0 io_step.poll [of ?S0 0 Unstarted]] res by (simp add: io_start_def)
  have S1: "rt ?S1 = s1" "tasks ?S1 0 = Some (Awaiting (CompletionReceiver ch))" "chan_of ?S1 0 = Some ch"
    using sub by (simp_all add: record_poll_def)
  obtain w where w: "pending w = pending (dev s1) - {p}" using any by blast
  from complete_boxed_Some [OF os, of "s1\<lparr>dev := w\<rparr>" p ch decode release st] s1
  obtain s2 where s2: "callback st p (s1\<lparr>dev := w\<rparr>) = Some s2" by (auto simp: callback_eq)
  let ?S2 = "?S1\<lparr>rt := s2, told := (told ?S1)(ch \<mapsto> st)\<rparr>"
  have r2: "?reach ?S2"
    by (rule io_reachable.step [OF r1 io_step.complete]) (use S1 s1 s2 w in \<open>simp_all\<close>)
  have S2: "tasks ?S2 0 = Some (Awaiting (CompletionReceiver ch))" "told ?S2 ch = Some st"
    using S1 by simp_all
  with r2 S1 show "\<exists>S r. ?reach S \<and> tasks S 0 = Some (Awaiting r) \<and> told S (rx r) = Some st \<and>
      chan_of S 0 = Some (rx r)"
    by (intro exI [of _ ?S2] exI [of _ "CompletionReceiver ch"]) simp
  from told_ready [OF os con r2 S2(1), of st q] S2(2) obtain s3 where
    "resume q (Awaiting (CompletionReceiver ch)) (rt ?S2) = Some (Ready (decode st), Finished, s3)"
    by auto
  then have "io_step os resume submit callback pending (\<lambda>_. q) ?S2
      (record_poll 0 (Awaiting (CompletionReceiver ch)) (Ready (decode st)) Finished s3
        (submitted os (submit q) (rt ?S2)) ?S2)" (is "io_step _ _ _ _ _ _ _ ?S3")
    by (intro io_step.poll [where job = "\<lambda>_. q", OF S2(1)]) simp_all
  with r2 have "?reach ?S3" by (rule io_reachable.step)
  moreover have "outcome ?S3 0 = Some (decode st)" by (simp add: record_poll_def)
  ultimately show "\<exists>S. ?reach S \<and> outcome S 0 = Some (decode st)" by blast
qed

end

text \<open>A device that accepts every request and remembers the contexts; the start of a system with it.\<close>

definition demo_submit :: "(ptr set, 'st) submission" where
  "demo_submit p w = ((0, None), insert p w)"

definition demo_runtime :: "(io_result chan_store, ptr set) runtime" where
  "demo_runtime = \<lparr>sender_boxes = no_boxes, chans = no_chans, dev = {}, poll_cx = NoopWaker\<rparr>"

lemma demo_contract:
  "(\<And>q. submit q = demo_submit) \<Longrightarrow> submit_contract submit (\<lambda>_ w. w) (\<lambda>w. w)"
  by (simp add: submit_contract_def demo_submit_def)

lemma demo_runtime_ok:
  "boxes_ok (sender_boxes demo_runtime)" "cells (sender_boxes demo_runtime) = Map.empty"
  "dev demo_runtime = {}"
  by (simp_all add: demo_runtime_def no_boxes_def boxes_ok_def)

end
