(* ===== verification/Dma.thy ===== *)
theory Dma
  imports Errors
begin

text \<open>
  \<open>spdk-io/src/dma.rs\<close>: DMA buffers. The allocator of SPDK is a parameter; \<open>dma_contract\<close> states its
  documentation through the map from live addresses to sizes.
\<close>

section \<open>Buffers\<close>

record 'w dma_api =
  spdk_dma_malloc :: "usize \<Rightarrow> usize \<Rightarrow> 'w \<Rightarrow> ptr \<times> 'w"
  spdk_dma_zmalloc :: "usize \<Rightarrow> usize \<Rightarrow> 'w \<Rightarrow> ptr \<times> 'w"
  spdk_dma_free :: "ptr \<Rightarrow> 'w \<Rightarrow> 'w"

record dma_buf =
  buf_ptr :: ptr
  buf_len :: usize

definition alloc :: "'w dma_api \<Rightarrow> usize \<Rightarrow> usize \<Rightarrow> 'w \<Rightarrow> (error, dma_buf) result \<times> 'w" where
  "alloc api sz align w =
     (if sz = 0 then (Inl (InvalidArgument ''size must be > 0''), w)
      else case spdk_dma_malloc api sz align w of (p, w') \<Rightarrow>
        (ok_or (map_option (\<lambda>p. \<lparr>buf_ptr = p, buf_len = sz\<rparr>) (nonnull p)) (DmaAlloc sz), w'))"

definition alloc_zeroed :: "'w dma_api \<Rightarrow> usize \<Rightarrow> usize \<Rightarrow> 'w \<Rightarrow> (error, dma_buf) result \<times> 'w" where
  "alloc_zeroed api sz align w =
     (if sz = 0 then (Inl (InvalidArgument ''size must be > 0''), w)
      else case spdk_dma_zmalloc api sz align w of (p, w') \<Rightarrow>
        (ok_or (map_option (\<lambda>p. \<lparr>buf_ptr = p, buf_len = sz\<rparr>) (nonnull p)) (DmaAlloc sz), w'))"

definition dma_len :: "dma_buf \<Rightarrow> usize" where
  "dma_len self = buf_len self"

definition dma_is_empty :: "dma_buf \<Rightarrow> bool" where
  "dma_is_empty self \<longleftrightarrow> buf_len self = 0"

definition dma_as_mut_ptr :: "dma_buf \<Rightarrow> ptr" where
  "dma_as_mut_ptr self = buf_ptr self"

definition dma_as_ptr :: "dma_buf \<Rightarrow> ptr" where
  "dma_as_ptr self = buf_ptr self"

text \<open>A slice is the pointer and the length given to \<open>from_raw_parts\<close>.\<close>

definition dma_as_slice :: "dma_buf \<Rightarrow> ptr \<times> usize" where
  "dma_as_slice self = (buf_ptr self, buf_len self)"

definition dma_as_mut_slice :: "dma_buf \<Rightarrow> ptr \<times> usize" where
  "dma_as_mut_slice self = (buf_ptr self, buf_len self)"

definition dma_as_ref :: "dma_buf \<Rightarrow> ptr \<times> usize" where
  "dma_as_ref self = dma_as_slice self"

definition dma_as_mut :: "dma_buf \<Rightarrow> ptr \<times> usize" where
  "dma_as_mut self = dma_as_mut_slice self"

definition dma_drop :: "'w dma_api \<Rightarrow> dma_buf \<Rightarrow> 'w \<Rightarrow> 'w" where
  "dma_drop api self w = spdk_dma_free api (buf_ptr self) w"

text \<open>The \<open>Debug\<close> form; a pointer is printed in hexadecimal.\<close>

fun hex_digits :: "nat \<Rightarrow> string" where
  "hex_digits n = (if n < 16 then [''0123456789abcdef'' ! n] else hex_digits (n div 16) @ [''0123456789abcdef'' ! (n mod 16)])"

declare hex_digits.simps [simp del]

definition dma_fmt :: "dma_buf \<Rightarrow> string" where
  "dma_fmt self = ''DmaBuf { ptr: 0x'' @ hex_digits (buf_ptr self) @ '', len: '' @ unsigned_to_string (buf_len self) @ '' }''"

lemma dma_fmt_example: "dma_fmt \<lparr>buf_ptr = 4096, buf_len = 512\<rparr> = ''DmaBuf { ptr: 0x1000, len: 512 }''"
  by code_simp

section \<open>The life of a buffer\<close>

text \<open>
  The allocator returns null or the address of a new block of the size asked for, and freeing a block
  ends its life; \<open>live\<close> maps the addresses of the blocks alive to their sizes.
\<close>

definition malloc_contract ::
  "(usize \<Rightarrow> usize \<Rightarrow> 'w \<Rightarrow> ptr \<times> 'w) \<Rightarrow> ('w \<Rightarrow> ptr \<rightharpoonup> usize) \<Rightarrow> bool" where
  "malloc_contract malloc live \<longleftrightarrow> (\<forall>sz align w. let (p, w') = malloc sz align w in
     (p = null \<longrightarrow> live w' = live w) \<and>
     (p \<noteq> null \<longrightarrow> live w p = None \<and> live w' = (live w)(p \<mapsto> sz)))"

definition dma_contract :: "'w dma_api \<Rightarrow> ('w \<Rightarrow> ptr \<rightharpoonup> usize) \<Rightarrow> bool" where
  "dma_contract api live \<longleftrightarrow>
     malloc_contract (spdk_dma_malloc api) live \<and> malloc_contract (spdk_dma_zmalloc api) live \<and>
     (\<forall>p w. live (spdk_dma_free api p w) = (live w)(p := None))"

definition owns :: "('w \<Rightarrow> ptr \<rightharpoonup> usize) \<Rightarrow> dma_buf \<Rightarrow> 'w \<Rightarrow> bool" where
  "owns live b w \<longleftrightarrow> buf_ptr b \<noteq> null \<and> live w (buf_ptr b) = Some (buf_len b) \<and> buf_len b \<noteq> 0"

text \<open>
  What the two constructors share: an owner that is given a buffer by \<open>get\<close> and gives it back with
  \<open>put\<close>. The laws are what the users of buffers rely on.
\<close>

locale buffer_source =
  fixes get :: "usize \<Rightarrow> usize \<Rightarrow> 'w \<Rightarrow> (error, dma_buf) result \<times> 'w"
    and put :: "dma_buf \<Rightarrow> 'w \<Rightarrow> 'w"
    and ok :: "('w \<Rightarrow> ptr \<rightharpoonup> usize) \<Rightarrow> bool"
  assumes get_Inr: "ok live \<Longrightarrow> get sz align w = (Inr b, w') \<Longrightarrow>
      owns live b w' \<and> buf_len b = sz \<and> live w (buf_ptr b) = None \<and>
      live w' = (live w)(buf_ptr b \<mapsto> sz)"
    and get_Inl: "ok live \<Longrightarrow> get sz align w = (Inl e, w') \<Longrightarrow> live w' = live w \<and>
      e = (if sz = 0 then InvalidArgument ''size must be > 0'' else DmaAlloc sz)"
    and put_live: "ok live \<Longrightarrow> live (put b w) = (live w)(buf_ptr b := None)"
begin

lemma get_put: "ok live \<Longrightarrow> get sz align w = (Inr b, w') \<Longrightarrow> live (put b w') = live w"
  by (frule (1) get_Inr) (simp add: put_live fun_upd_idem)

lemma get_disjoint:
  "ok live \<Longrightarrow> owns live a w \<Longrightarrow> get sz align w = (Inr b, w') \<Longrightarrow> buf_ptr a \<noteq> buf_ptr b \<and> owns live a w'"
  by (frule (1) get_Inr) (auto simp: owns_def)

lemma put_other: "ok live \<Longrightarrow> owns live a w \<Longrightarrow> buf_ptr a \<noteq> buf_ptr b \<Longrightarrow> owns live a (put b w)"
  by (simp add: owns_def put_live)

end

lemma malloc_contractD:
  assumes "malloc_contract malloc live" "malloc sz align w = (p, w')"
  shows "p = null \<Longrightarrow> live w' = live w"
    and "p \<noteq> null \<Longrightarrow> live w p = None \<and> live w' = (live w)(p \<mapsto> sz)"
proof -
  from assms(1) have "let (p, w') = malloc sz align w in (p = null \<longrightarrow> live w' = live w) \<and>
     (p \<noteq> null \<longrightarrow> live w p = None \<and> live w' = (live w)(p \<mapsto> sz))"
    unfolding malloc_contract_def by blast
  with assms(2) show "p = null \<Longrightarrow> live w' = live w"
    "p \<noteq> null \<Longrightarrow> live w p = None \<and> live w' = (live w)(p \<mapsto> sz)" by simp_all
qed

interpretation malloced: buffer_source "alloc api" "dma_drop api" "dma_contract api" for api :: "'w dma_api"
  by unfold_locales
    (auto simp: alloc_def dma_drop_def dma_contract_def owns_def ok_or_def nonnull_def
       split: if_splits prod.splits dest: malloc_contractD)

interpretation zeroed: buffer_source "alloc_zeroed api" "dma_drop api" "dma_contract api" for api :: "'w dma_api"
  by unfold_locales
    (auto simp: alloc_zeroed_def dma_drop_def dma_contract_def owns_def ok_or_def nonnull_def
       split: if_splits prod.splits dest: malloc_contractD)

text \<open>
  A buffer returned by \<open>alloc\<close> is a new non-null block of exactly the sz asked for, not empty,
  distinct from every buffer owned before, all of which stay owned; dropping it restores the blocks
  alive before the call.
\<close>

theorem alloc_fresh:
  assumes "dma_contract api live" "alloc api sz align w = (Inr b, w')" "owns live a w"
  shows "owns live b w' \<and> dma_len b = sz \<and> \<not> dma_is_empty b \<and> owns live a w' \<and>
     dma_as_ptr a \<noteq> dma_as_ptr b \<and> live (dma_drop api b w') = live w"
  using malloced.get_Inr [OF assms(1,2)] malloced.get_disjoint [OF assms(1,3,2)]
    malloced.get_put [OF assms(1,2)]
  by (auto simp: dma_len_def dma_is_empty_def dma_as_ptr_def owns_def)

text \<open>An allocator that never reuses an address.\<close>

definition bump :: "usize \<Rightarrow> usize \<Rightarrow> usize boxes \<Rightarrow> ptr \<times> usize boxes" where
  "bump sz align h = (let p = Suc (next_box h) in
     (p, h\<lparr>next_box := p, cells := (\<lambda>q. if q \<le> next_box h then cells h q else None)(p \<mapsto> sz)\<rparr>))"

definition bump_live :: "usize boxes \<Rightarrow> ptr \<rightharpoonup> usize" where
  "bump_live h = (\<lambda>q. if q \<le> next_box h then cells h q else None)"

definition bump_api :: "usize boxes dma_api" where
  "bump_api = \<lparr>spdk_dma_malloc = bump, spdk_dma_zmalloc = bump,
               spdk_dma_free = (\<lambda>p h. h\<lparr>cells := (cells h)(p := None)\<rparr>)\<rparr>"

lemma bump_contract: "dma_contract bump_api bump_live"
  by (auto simp: dma_contract_def malloc_contract_def bump_api_def bump_def bump_live_def Let_def
      fun_eq_iff)

theorem alloc_fresh_witness:
  "\<exists>a b w1 w2. alloc bump_api 512 0 no_boxes = (Inr a, w1) \<and> alloc bump_api 4096 512 w1 = (Inr b, w2) \<and>
     dma_len b = 4096 \<and> dma_as_ptr a \<noteq> dma_as_ptr b \<and> bump_live (dma_drop bump_api b w2) = bump_live w1"
proof -
  let ?w1 = "snd (bump 512 0 no_boxes)" and ?a = "\<lparr>buf_ptr = 2, buf_len = 512\<rparr>"
    and ?b = "\<lparr>buf_ptr = 3, buf_len = 4096\<rparr>"
  let ?w2 = "snd (bump 4096 512 ?w1)"
  have a: "alloc bump_api 512 0 no_boxes = (Inr ?a, ?w1)"
    by (simp add: alloc_def bump_api_def bump_def no_boxes_def Let_def)
  have b: "alloc bump_api 4096 512 ?w1 = (Inr ?b, ?w2)"
    by (simp add: alloc_def bump_api_def bump_def no_boxes_def Let_def)
  have "owns bump_live ?a ?w1"
    by (simp add: owns_def bump_live_def bump_def no_boxes_def Let_def)
  from alloc_fresh [OF bump_contract b this] a b show ?thesis by blast
qed

text \<open>
  A failed \<open>alloc\<close> or \<open>alloc_zeroed\<close> allocates nothing and reports the reason: a zero sz is
  refused without a call to SPDK, any other failure names the sz that was asked for.
\<close>

theorem alloc_fails:
  assumes "dma_contract api live" "get = alloc api \<or> get = alloc_zeroed api"
    and "get sz align w = (Inl e, w')"
  shows "live w' = live w \<and> (sz = 0 \<longrightarrow> w' = w) \<and>
     e = (if sz = 0 then InvalidArgument ''size must be > 0'' else DmaAlloc sz)"
proof -
  from assms(2,3) have "live w' = live w \<and>
      e = (if sz = 0 then InvalidArgument ''size must be > 0'' else DmaAlloc sz)"
    using malloced.get_Inl [OF assms(1), of sz align w e w'] zeroed.get_Inl [OF assms(1), of sz align w e w']
    by blast
  moreover from assms(2,3) have "sz = 0 \<Longrightarrow> w' = w" by (auto simp: alloc_def alloc_zeroed_def)
  ultimately show ?thesis by blast
qed

theorem alloc_fails_witness:
  "fst (alloc bump_api 0 64 no_boxes) = Inl (InvalidArgument ''size must be > 0'') \<and>
     snd (alloc bump_api 0 64 no_boxes) = no_boxes"
  using alloc_fails [OF bump_contract disjI1 [OF refl], of 0 64 no_boxes] by (simp add: alloc_def)

end
