(* ===== verification/Dispatch.thy ===== *)
theory Dispatch
  imports Complete "HOL-Library.Sublist"
begin

text \<open>
  Closures handed to SPDK as boxed contexts: what \<open>ThreadHandle::send\<close> (messages to a thread) and
  \<open>SpdkEvent::call_on\<close> (events to a core) share. A poster boxes the closure and gives SPDK the raw
  pointer; SPDK queues it and later runs a callback that takes the box and calls the closure. The
  interface \<open>dispatch\<close> states what a poster and its callback promise; the lemmas say that closures
  run exactly once and in order.
\<close>

section \<open>Closures\<close>

text \<open>
  A closure is either the user's, or the wrapper of \<open>call\<close> that runs the user's and sends its value.
  The state keeps the boxed closures, the log of the closures run, the channels, and SPDK's state.
\<close>

datatype 'f message = Run 'f | RunAndSend 'f completion_sender

record ('c, 'f, 'w) courier =
  closures :: "'f message boxes"
  executed :: "'f message list"
  courier_chans :: 'c
  host :: 'w

definition no_closures :: "'c \<Rightarrow> 'w \<Rightarrow> ('c, 'f, 'w) courier" where
  "no_closures c w = \<lparr>closures = no_boxes, executed = [], courier_chans = c, host = w\<rparr>"

text \<open>\<open>eval\<close> gives the value a user's closure returns.\<close>

definition run_message ::
  "('c, (error, 'a) result) oneshot \<Rightarrow> ('f \<Rightarrow> 'a) \<Rightarrow> 'f message \<Rightarrow> ('c, 'f, 'w) courier \<Rightarrow>
     ('c, 'f, 'w) courier" where
  "run_message os eval m s =
     (let s' = s\<lparr>executed := executed s @ [m]\<rparr>
      in case m of
           Run f \<Rightarrow> s'
         | RunAndSend f t \<Rightarrow> s'\<lparr>courier_chans := sender_success os t (eval f) (courier_chans s')\<rparr>)"

lemma run_message_simps [simp]:
  "closures (run_message os eval m s) = closures s"
  "executed (run_message os eval m s) = executed s @ [m]"
  "host (run_message os eval m s) = host s"
  by (simp_all add: run_message_def Let_def split: message.splits)

section \<open>Posting and delivering\<close>

text \<open>
  A history of posts and deliveries: a delivery takes the context at the head of the queue and runs
  the callback with it; on an empty queue it does nothing. \<open>None\<close> is undefined behaviour.
\<close>

datatype 'm dispatch_op = Post 'm | Deliver

fun dispatch_ops ::
  "('m \<Rightarrow> 's \<Rightarrow> 's) \<Rightarrow> (ptr \<Rightarrow> 's \<Rightarrow> 's option) \<Rightarrow> ('s \<Rightarrow> ptr list) \<Rightarrow> ('s \<Rightarrow> 's) \<Rightarrow>
     'm dispatch_op list \<Rightarrow> 's \<Rightarrow> 's option" where
  "dispatch_ops post callback queue pop [] s = Some s"
| "dispatch_ops post callback queue pop (Post m # ops) s =
     dispatch_ops post callback queue pop ops (post m s)"
| "dispatch_ops post callback queue pop (Deliver # ops) s =
     (case queue s of
        [] \<Rightarrow> dispatch_ops post callback queue pop ops s
      | p # _ \<Rightarrow> (case callback p (pop s) of
                   None \<Rightarrow> None
                 | Some s' \<Rightarrow> dispatch_ops post callback queue pop ops s'))"

fun posted :: "'m dispatch_op list \<Rightarrow> 'm list" where
  "posted [] = []"
| "posted (Post m # ops) = m # posted ops"
| "posted (Deliver # ops) = posted ops"

text \<open>A post either appends a new box to the queue, or only adds boxes that are not queued.\<close>

locale dispatch =
  fixes post :: "'m \<Rightarrow> 's \<Rightarrow> 's"
    and callback :: "ptr \<Rightarrow> 's \<Rightarrow> 's option"
    and queue :: "'s \<Rightarrow> ptr list"
    and pop :: "'s \<Rightarrow> 's"
    and live :: "'s \<Rightarrow> ptr \<rightharpoonup> 'm"
    and log :: "'s \<Rightarrow> 'm list"
    and ok :: "'s \<Rightarrow> bool"
    and accepts :: bool
  assumes post_ok: "ok s \<Longrightarrow> ok (post m s) \<and> log (post m s) = log s"
    and post_queue: "ok s \<Longrightarrow>
      (\<exists>p. live s p = None \<and> live (post m s) = (live s)(p \<mapsto> m) \<and> queue (post m s) = queue s @ [p]) \<or>
      (\<not> accepts \<and> live s \<subseteq>\<^sub>m live (post m s) \<and> queue (post m s) = queue s)"
    and pop_laws: "ok s \<Longrightarrow> ok (pop s) \<and> log (pop s) = log s \<and> live (pop s) = live s \<and>
      queue (pop s) = tl (queue s)"
    and callback_run: "ok s \<Longrightarrow> live s p = Some m \<Longrightarrow>
      \<exists>s'. callback p s = Some s' \<and> ok s' \<and> live s' = (live s)(p := None) \<and>
           log s' = log s @ [m] \<and> queue s' = queue s"
begin

definition queued :: "'s \<Rightarrow> 'm list" where
  "queued s = map (\<lambda>p. the (live s p)) (queue s)"

definition good :: "'s \<Rightarrow> bool" where
  "good s \<longleftrightarrow> ok s \<and> distinct (queue s) \<and> set (queue s) \<subseteq> dom (live s)"

lemma post_good:
  assumes "good s"
  shows "good (post m s) \<and> log (post m s) = log s \<and>
    (queued (post m s) = queued s @ [m] \<or> \<not> accepts \<and> queued (post m s) = queued s)"
proof -
  from assms have s: "ok s" "distinct (queue s)" "set (queue s) \<subseteq> dom (live s)" by (simp_all add: good_def)
  from post_queue [OF s(1), of m] show ?thesis
  proof
    assume "\<exists>p. live s p = None \<and> live (post m s) = (live s)(p \<mapsto> m) \<and> queue (post m s) = queue s @ [p]"
    then obtain p where p: "live s p = None" "live (post m s) = (live s)(p \<mapsto> m)"
      "queue (post m s) = queue s @ [p]" by blast
    with s(3) have "p \<notin> set (queue s)" by auto
    with p s post_ok [OF s(1), of m] show ?thesis by (auto simp: good_def queued_def)
  next
    assume n: "\<not> accepts \<and> live s \<subseteq>\<^sub>m live (post m s) \<and> queue (post m s) = queue s"
    have same: "live (post m s) p = live s p" if "p \<in> set (queue s)" for p
    proof -
      from that s(3) have "p \<in> dom (live s)" by blast
      with n show ?thesis by (simp add: map_le_def)
    qed
    from same s(3) have "set (queue s) \<subseteq> dom (live (post m s))" by fastforce
    with n same s post_ok [OF s(1), of m] show ?thesis by (simp add: good_def queued_def)
  qed
qed

lemma deliver_good:
  assumes "good s" "queue s = p # ps"
  shows "\<exists>s'. callback p (pop s) = Some s' \<and> good s' \<and> log s' @ queued s' = log s @ queued s"
proof -
  from assms have s: "ok s" "distinct (p # ps)" "set (p # ps) \<subseteq> dom (live s)" by (simp_all add: good_def)
  note pop = pop_laws [OF s(1)]
  from s(3) obtain m where m: "live s p = Some m" by auto
  with pop have "live (pop s) p = Some m" by simp
  with callback_run [of "pop s" p m] pop obtain s' where s': "callback p (pop s) = Some s'" "ok s'"
    "live s' = (live s)(p := None)" "log s' = log s @ [m]" "queue s' = ps"
    by (auto simp: assms(2))
  with s have "set ps \<subseteq> dom (live s')" by auto
  with s' s have "good s'" by (simp add: good_def)
  moreover have "map (\<lambda>q. the (live s' q)) ps = map (\<lambda>q. the (live s q)) ps"
    using s(2) s'(3) by (auto intro!: map_cong)
  then have "log s' @ queued s' = log s @ queued s"
    using s' m assms(2) by (simp add: queued_def)
  ultimately show ?thesis using s'(1) by blast
qed

lemma ops_good:
  assumes "good s"
  shows "\<exists>s' ms. dispatch_ops post callback queue pop ops s = Some s' \<and> good s' \<and>
     log s' @ queued s' = log s @ queued s @ ms \<and> subseq ms (posted ops) \<and> (accepts \<longrightarrow> ms = posted ops)"
  using assms
proof (induction ops arbitrary: s)
  case Nil
  then show ?case by auto
next
  case (Cons op ops)
  show ?case
  proof (cases op)
    case (Post m)
    from post_good [OF Cons.prems, of m] have g: "good (post m s)" "log (post m s) = log s"
      "queued (post m s) = queued s @ [m] \<or> \<not> accepts \<and> queued (post m s) = queued s" by blast+
    from Cons.IH [OF g(1)] obtain s' ms where s': "dispatch_ops post callback queue pop ops (post m s) = Some s'"
      "good s'" "log s' @ queued s' = log s @ queued (post m s) @ ms" "subseq ms (posted ops)"
      "accepts \<longrightarrow> ms = posted ops" using g(2) by auto
    from g(3) show ?thesis
    proof
      assume "queued (post m s) = queued s @ [m]"
      with s' Post show ?thesis by (intro exI [of _ s'] exI [of _ "m # ms"]) simp
    next
      assume "\<not> accepts \<and> queued (post m s) = queued s"
      with s' Post show ?thesis by (intro exI [of _ s'] exI [of _ ms]) (simp add: list_emb_Cons)
    qed
  next
    case Deliver
    show ?thesis
    proof (cases "queue s")
      case Nil
      with Cons.IH [OF Cons.prems] Deliver show ?thesis by simp
    next
      case (Cons p ps)
      from deliver_good [OF Cons.prems this] obtain t where t: "callback p (pop s) = Some t" "good t"
        "log t @ queued t = log s @ queued s" by blast
      from Cons.IH [OF t(2)] t Deliver Cons show ?thesis by (simp flip: append_assoc)
    qed
  qed
qed

lemma ops_fifo:
  assumes "ok s" "queue s = []" "log s = []"
  shows "\<exists>s'. dispatch_ops post callback queue pop ops s = Some s' \<and>
     subseq (log s' @ queued s') (posted ops) \<and> (accepts \<longrightarrow> log s' @ queued s' = posted ops)"
proof -
  from assms have "good s" "queued s = []" by (simp_all add: good_def queued_def)
  from ops_good [OF this(1), of ops] this(2) assms(3) show ?thesis by auto
qed

end

end
