(* ===== verification/Thread.thy ===== *)
theory Thread
  imports Process Dispatch
begin

text \<open>
  \<open>spdk-io/src/thread.rs\<close>: initialisation of SPDK's thread library behind the flag
  \<open>THREAD_LIB_INITIALIZED\<close>, the life of an SPDK thread, spawned threads and \<open>join\<close>, and messages to a
  thread. The functions of SPDK are the parameter \<open>thread_api\<close>; a name that is a null pointer is
  \<open>None\<close>. A loop that never ends is the value \<open>None\<close>.
\<close>

section \<open>The thread library\<close>

record 'w thread_api =
  spdk_thread_lib_init_ext :: "usize \<Rightarrow> 'w \<Rightarrow> i32 \<times> 'w"
  spdk_thread_lib_init :: "'w \<Rightarrow> i32 \<times> 'w"
  spdk_thread_lib_fini :: "'w \<Rightarrow> 'w"
  spdk_thread_create :: "string \<Rightarrow> 'w \<Rightarrow> ptr \<times> 'w"
  spdk_set_thread :: "ptr \<Rightarrow> 'w \<Rightarrow> 'w"
  spdk_get_thread :: "'w \<Rightarrow> ptr"
  spdk_thread_get_app_thread :: "'w \<Rightarrow> ptr"
  spdk_thread_poll :: "ptr \<Rightarrow> u32 \<Rightarrow> u64 \<Rightarrow> 'w \<Rightarrow> i32 \<times> 'w"
  spdk_thread_has_active_pollers :: "ptr \<Rightarrow> 'w \<Rightarrow> i32"
  spdk_thread_has_pollers :: "ptr \<Rightarrow> 'w \<Rightarrow> bool"
  spdk_thread_is_idle :: "ptr \<Rightarrow> 'w \<Rightarrow> bool"
  spdk_thread_is_running :: "ptr \<Rightarrow> 'w \<Rightarrow> bool"
  spdk_thread_is_exited :: "ptr \<Rightarrow> 'w \<Rightarrow> bool"
  spdk_thread_get_name :: "ptr \<Rightarrow> 'w \<Rightarrow> string option"
  spdk_thread_get_id :: "ptr \<Rightarrow> 'w \<Rightarrow> u64"
  spdk_thread_get_count :: "'w \<Rightarrow> u32"
  spdk_thread_exit :: "ptr \<Rightarrow> 'w \<Rightarrow> 'w"
  spdk_thread_destroy :: "ptr \<Rightarrow> 'w \<Rightarrow> 'w"
  spdk_thread_send_msg :: "ptr \<Rightarrow> ptr \<Rightarrow> 'w \<Rightarrow> i32 \<times> 'w"

definition DEFAULT_MSG_MEMPOOL_SIZE :: usize where
  "DEFAULT_MSG_MEMPOOL_SIZE = 262144 - 1"

definition SMALL_MSG_MEMPOOL_SIZE :: usize where
  "SMALL_MSG_MEMPOOL_SIZE = 1023"

definition thread_lib_init_ext ::
  "'w thread_api \<Rightarrow> usize \<Rightarrow> 'w process \<Rightarrow> (error, unit) result \<times> 'w process" where
  "thread_lib_init_ext api msg_mempool_size s =
     (let was = THREAD_LIB_INITIALIZED s; s = s\<lparr>THREAD_LIB_INITIALIZED := True\<rparr>
      in if was then (Inr (), s)
         else case call (spdk_thread_lib_init_ext api msg_mempool_size) s of (rc, s) \<Rightarrow>
           if rc \<noteq> 0
           then (Inl (EnvInit (''spdk_thread_lib_init_ext failed with error code '' @ i32_to_string rc)),
                 s\<lparr>THREAD_LIB_INITIALIZED := False\<rparr>)
           else (Inr (), s))"

definition thread_lib_init ::
  "'w thread_api \<Rightarrow> 'w process \<Rightarrow> (error, unit) result \<times> 'w process" where
  "thread_lib_init api s =
     (let was = THREAD_LIB_INITIALIZED s; s = s\<lparr>THREAD_LIB_INITIALIZED := True\<rparr>
      in if was then (Inr (), s)
         else case call (spdk_thread_lib_init api) s of (rc, s) \<Rightarrow>
           if rc \<noteq> 0
           then (Inl (EnvInit (''spdk_thread_lib_init failed with error code '' @ i32_to_string rc)),
                 s\<lparr>THREAD_LIB_INITIALIZED := False\<rparr>)
           else (Inr (), s))"

definition assume_thread_lib_initialized :: "'w process \<Rightarrow> 'w process" where
  "assume_thread_lib_initialized s = s\<lparr>THREAD_LIB_INITIALIZED := True\<rparr>"

definition thread_lib_fini :: "'w thread_api \<Rightarrow> 'w process \<Rightarrow> 'w process" where
  "thread_lib_fini api s =
     (let was = THREAD_LIB_INITIALIZED s; s = s\<lparr>THREAD_LIB_INITIALIZED := False\<rparr>
      in if was then exec (spdk_thread_lib_fini api) s else s)"

interpretation lib_init: guarded_init "thread_lib_init api" "spdk_thread_lib_init api"
  for api :: "'w thread_api"
  by unfold_locales (auto simp: thread_lib_init_def call_def Let_def)

interpretation lib_init_ext: guarded_init "thread_lib_init_ext api n" "spdk_thread_lib_init_ext api n"
  for api :: "'w thread_api" and n
  by unfold_locales (auto simp: thread_lib_init_ext_def call_def Let_def)

section \<open>Threads\<close>

datatype spdk_thread = SpdkThread (thread_ptr: ptr)

datatype current_thread = CurrentThread (current_ptr: ptr)

datatype thread_handle = ThreadHandle (handle_ptr: ptr)

definition attach ::
  "'w thread_api \<Rightarrow> string \<Rightarrow> 'w process \<Rightarrow> (error, spdk_thread) result \<times> 'w process" where
  "attach api name s =
     (case cstring name of
        Inl e \<Rightarrow> (Inl e, s)
      | Inr name_cstr \<Rightarrow>
          (case call (spdk_thread_create api name_cstr) s of (p, s) \<Rightarrow>
             (case nonnull p of
                None \<Rightarrow> (Inl (EnvInit ''spdk_thread_create returned NULL''), s)
              | Some p \<Rightarrow> (Inr (SpdkThread p), exec (spdk_set_thread api p) s))))"

definition current ::
  "'w thread_api \<Rightarrow> string \<Rightarrow> 'w process \<Rightarrow> (error, spdk_thread) result \<times> 'w process" where
  "current api name s =
     (case thread_lib_init api s of
        (Inl e, s) \<Rightarrow> (Inl e, s)
      | (Inr _, s) \<Rightarrow> attach api name s)"

definition current_with_mempool_size ::
  "'w thread_api \<Rightarrow> string \<Rightarrow> usize \<Rightarrow> 'w process \<Rightarrow> (error, spdk_thread) result \<times> 'w process" where
  "current_with_mempool_size api name msg_mempool_size s =
     (case thread_lib_init_ext api msg_mempool_size s of
        (Inl e, s) \<Rightarrow> (Inl e, s)
      | (Inr _, s) \<Rightarrow>
          (case cstring name of
             Inl e \<Rightarrow> (Inl e, s)
           | Inr name_cstr \<Rightarrow>
               (case call (spdk_thread_create api name_cstr) s of (p, s) \<Rightarrow>
                  (case nonnull p of
                     None \<Rightarrow> (Inl (EnvInit ''spdk_thread_create returned NULL''), s)
                   | Some p \<Rightarrow> (Inr (SpdkThread p), exec (spdk_set_thread api p) s)))))"

definition thread_new ::
  "'w thread_api \<Rightarrow> string \<Rightarrow> 'w process \<Rightarrow> (error, spdk_thread) result \<times> 'w process" where
  "thread_new api name = current api name"

definition new_with_mempool_size ::
  "'w thread_api \<Rightarrow> string \<Rightarrow> usize \<Rightarrow> 'w process \<Rightarrow> (error, spdk_thread) result \<times> 'w process" where
  "new_with_mempool_size api name n = current_with_mempool_size api name n"

definition get_current :: "'w thread_api \<Rightarrow> 'w process \<Rightarrow> current_thread option" where
  "get_current api s = map_option CurrentThread (nonnull (spdk_get_thread api (spdk s)))"

definition app_thread :: "'w thread_api \<Rightarrow> 'w process \<Rightarrow> current_thread option" where
  "app_thread api s = map_option CurrentThread (nonnull (spdk_thread_get_app_thread api (spdk s)))"

definition thread_poll :: "'w thread_api \<Rightarrow> spdk_thread \<Rightarrow> 'w process \<Rightarrow> i32 \<times> 'w process" where
  "thread_poll api self s = call (spdk_thread_poll api (thread_ptr self) 0 0) s"

definition poll_max :: "'w thread_api \<Rightarrow> spdk_thread \<Rightarrow> u32 \<Rightarrow> 'w process \<Rightarrow> i32 \<times> 'w process" where
  "poll_max api self max_msgs s = call (spdk_thread_poll api (thread_ptr self) max_msgs 0) s"

definition has_active_pollers :: "'w thread_api \<Rightarrow> spdk_thread \<Rightarrow> 'w process \<Rightarrow> bool" where
  "has_active_pollers api self s \<longleftrightarrow> spdk_thread_has_active_pollers api (thread_ptr self) (spdk s) \<noteq> 0"

definition has_pollers :: "'w thread_api \<Rightarrow> spdk_thread \<Rightarrow> 'w process \<Rightarrow> bool" where
  "has_pollers api self s = spdk_thread_has_pollers api (thread_ptr self) (spdk s)"

definition is_idle :: "'w thread_api \<Rightarrow> spdk_thread \<Rightarrow> 'w process \<Rightarrow> bool" where
  "is_idle api self s = spdk_thread_is_idle api (thread_ptr self) (spdk s)"

definition is_running :: "'w thread_api \<Rightarrow> spdk_thread \<Rightarrow> 'w process \<Rightarrow> bool" where
  "is_running api self s = spdk_thread_is_running api (thread_ptr self) (spdk s)"

definition thread_name :: "'w thread_api \<Rightarrow> spdk_thread \<Rightarrow> 'w process \<Rightarrow> string" where
  "thread_name api self s =
     (case spdk_thread_get_name api (thread_ptr self) (spdk s) of
        None \<Rightarrow> ''''
      | Some n \<Rightarrow> unwrap_or (cstr_to_str n) '''')"

definition thread_id :: "'w thread_api \<Rightarrow> spdk_thread \<Rightarrow> 'w process \<Rightarrow> u64" where
  "thread_id api self s = spdk_thread_get_id api (thread_ptr self) (spdk s)"

definition thread_count :: "'w thread_api \<Rightarrow> 'w process \<Rightarrow> u32" where
  "thread_count api s = spdk_thread_get_count api (spdk s)"

definition thread_as_ptr :: "spdk_thread \<Rightarrow> ptr" where
  "thread_as_ptr self = thread_ptr self"

definition thread_handle :: "spdk_thread \<Rightarrow> thread_handle" where
  "thread_handle self = ThreadHandle (thread_ptr self)"

text \<open>Dropping polls until the thread has exited; the loop is \<open>while_option\<close>, \<open>None\<close> if it never ends.\<close>

definition exit_loop :: "'w thread_api \<Rightarrow> ptr \<Rightarrow> 'w process \<Rightarrow> 'w process option" where
  "exit_loop api p =
     while_option (\<lambda>s. \<not> spdk_thread_is_exited api p (spdk s))
       (\<lambda>s. snd (call (spdk_thread_poll api p 0 0) s))"

definition thread_drop :: "'w thread_api \<Rightarrow> spdk_thread \<Rightarrow> 'w process \<Rightarrow> 'w process option" where
  "thread_drop api self s =
     (case exit_loop api (thread_ptr self) (exec (spdk_thread_exit api (thread_ptr self)) s) of
        None \<Rightarrow> None
      | Some s \<Rightarrow>
          let s = exec (spdk_set_thread api null) s;
              s = exec (spdk_thread_destroy api (thread_ptr self)) s
          in Some (if thread_count api s = 0 then thread_lib_fini api s else s))"

definition current_from_ptr :: "ptr \<Rightarrow> current_thread ending" where
  "current_from_ptr p =
     (case nonnull p of
        None \<Rightarrow> Panicked ''CurrentThread::from_ptr called with null''
      | Some p \<Rightarrow> Returned (CurrentThread p))"

definition current_poll :: "'w thread_api \<Rightarrow> current_thread \<Rightarrow> 'w process \<Rightarrow> i32 \<times> 'w process" where
  "current_poll api self s = call (spdk_thread_poll api (current_ptr self) 0 0) s"

definition current_name :: "'w thread_api \<Rightarrow> current_thread \<Rightarrow> 'w process \<Rightarrow> string" where
  "current_name api self s =
     (case spdk_thread_get_name api (current_ptr self) (spdk s) of
        None \<Rightarrow> ''''
      | Some n \<Rightarrow> unwrap_or (cstr_to_str n) '''')"

definition current_id :: "'w thread_api \<Rightarrow> current_thread \<Rightarrow> 'w process \<Rightarrow> u64" where
  "current_id api self s = spdk_thread_get_id api (current_ptr self) (spdk s)"

definition current_as_ptr :: "current_thread \<Rightarrow> ptr" where
  "current_as_ptr self = current_ptr self"

section \<open>Spawned threads\<close>

text \<open>
  The body of a spawned thread: attach (the closure panics if that fails, the text after the message
  is the error's debug form and is left out), run the user's function, drop the SPDK thread whether
  or not the function panicked.
\<close>

definition thread_main ::
  "'w thread_api \<Rightarrow> string \<Rightarrow> (spdk_thread \<Rightarrow> 'w process \<Rightarrow> 'a ending \<times> 'w process) \<Rightarrow> 'w process \<Rightarrow>
     ('a ending \<times> 'w process) option" where
  "thread_main api name f s =
     (case attach api name s of
        (Inl _, s) \<Rightarrow> Some (Panicked (''Failed to create SPDK thread in spawned thread. '' @
           ''Is the thread library initialized (e.g., via SpdkApp)?''), s)
      | (Inr t, s) \<Rightarrow> (case f t s of (e, s) \<Rightarrow> map_option (Pair e) (thread_drop api t s)))"

text \<open>A join handle, seen by the thread that joins: how the spawned thread ended.\<close>

datatype 'a join_handle = JoinHandle (handle_ending: "'a ending")

text \<open>
  \<open>os_spawns\<close> tells whether the operating system creates the thread; the standard library panics on a
  thread name with a NUL byte.
\<close>

definition spawn ::
  "'w thread_api \<Rightarrow> bool \<Rightarrow> string \<Rightarrow> (spdk_thread \<Rightarrow> 'w process \<Rightarrow> 'a ending \<times> 'w process) \<Rightarrow>
     'w process \<Rightarrow> ('a join_handle ending \<times> 'w process) option" where
  "spawn api os_spawns name f s =
     (if nul \<in> set name then Some (Panicked ''thread name may not contain interior null bytes'', s)
      else if \<not> os_spawns then Some (Panicked ''Failed to spawn OS thread'', s)
      else case thread_main api name f s of
             None \<Rightarrow> None
           | Some (e, s) \<Rightarrow> Some (Returned (JoinHandle e), s))"

definition join :: "'a join_handle \<Rightarrow> (error, 'a) result" where
  "join self = (case handle_ending self of Panicked _ \<Rightarrow> Inl ThreadPanic | Returned v \<Rightarrow> Inr v)"

section \<open>Messages\<close>

text \<open>The return code of \<open>spdk_thread_send_msg\<close> is not looked at.\<close>

definition send ::
  "'w thread_api \<Rightarrow> thread_handle \<Rightarrow> 'f message \<Rightarrow> ('c, 'f, 'w) courier \<Rightarrow> ('c, 'f, 'w) courier" where
  "send api self f s =
     (case box_into_raw f (closures s) of (ctx, h) \<Rightarrow>
      case spdk_thread_send_msg api (handle_ptr self) ctx (host s) of (_, w) \<Rightarrow>
        s\<lparr>closures := h, host := w\<rparr>)"

definition handle_call ::
  "'w thread_api \<Rightarrow> ('c, (error, 'a) result) oneshot \<Rightarrow> thread_handle \<Rightarrow> 'f \<Rightarrow> ('c, 'f, 'w) courier \<Rightarrow>
     completion_receiver \<times> ('c, 'f, 'w) courier" where
  "handle_call api os self f s =
     (case completion os (courier_chans s) of (t, r, c) \<Rightarrow>
        (r, send api self (RunAndSend f t) (s\<lparr>courier_chans := c\<rparr>)))"

definition handle_id :: "'w thread_api \<Rightarrow> thread_handle \<Rightarrow> 'w \<Rightarrow> u64" where
  "handle_id api self w = spdk_thread_get_id api (handle_ptr self) w"

definition handle_as_ptr :: "thread_handle \<Rightarrow> ptr" where
  "handle_as_ptr self = handle_ptr self"

definition msg_callback ::
  "('c, (error, 'a) result) oneshot \<Rightarrow> ('f \<Rightarrow> 'a) \<Rightarrow> ptr \<Rightarrow> ('c, 'f, 'w) courier \<Rightarrow>
     ('c, 'f, 'w) courier option" where
  "msg_callback os eval ctx s =
     (case box_from_raw ctx (closures s) of
        None \<Rightarrow> None
      | Some (boxed, h) \<Rightarrow> Some (run_message os eval boxed (s\<lparr>closures := h\<rparr>)))"

text \<open>
  SPDK's documentation: a message accepted (return code 0) is appended to the queue of its thread, one
  that is refused is not; polling the thread takes messages from the head (\<open>pop\<close>).
\<close>

definition send_contract :: "'w thread_api \<Rightarrow> ptr \<Rightarrow> ('w \<Rightarrow> ptr list) \<Rightarrow> ('w \<Rightarrow> 'w) \<Rightarrow> bool" where
  "send_contract api t queue pop \<longleftrightarrow>
     (\<forall>p w. let (rc, w') = spdk_thread_send_msg api t p w in
        queue w' = (if rc = 0 then queue w @ [p] else queue w)) \<and>
     (\<forall>w. queue (pop w) = tl (queue w))"

lemma send_contractD:
  assumes "send_contract api t queue pop" "spdk_thread_send_msg api t p w = (rc, w')"
  shows "queue w' = (if rc = 0 then queue w @ [p] else queue w)"
proof -
  from assms(1) have "let (rc, w') = spdk_thread_send_msg api t p w in
      queue w' = (if rc = 0 then queue w @ [p] else queue w)" unfolding send_contract_def by blast
  with assms(2) show ?thesis by simp
qed

interpretation messages: dispatch "send api (ThreadHandle t)" "msg_callback os eval" "\<lambda>s. queue (host s)"
    "\<lambda>s. s\<lparr>host := pop (host s)\<rparr>" "\<lambda>s. cells (closures s)" executed
    "\<lambda>s. boxes_ok (closures s) \<and> send_contract api t queue pop"
    "\<forall>p w. fst (spdk_thread_send_msg api t p w) = 0"
  for api :: "'w thread_api" and t queue pop
    and os :: "('c, (error, 'a) result) oneshot" and eval :: "'f \<Rightarrow> 'a"
proof
  fix s :: "('c, 'f, 'w) courier" and m :: "'f message" and p
  assume ok: "boxes_ok (closures s) \<and> send_contract api t queue pop"
  obtain q h where q: "box_into_raw m (closures s) = (q, h)" by fastforce
  obtain rc w where w: "spdk_thread_send_msg api t q (host s) = (rc, w)" by fastforce
  have eq: "send api (ThreadHandle t) m s = s\<lparr>closures := h, host := w\<rparr>"
    using q w by (simp add: send_def)
  note h = box.into_contents [OF q] box.into_fresh [OF conjunct1 [OF ok] q] box.into_ok [OF conjunct1 [OF ok] q]
  show "(boxes_ok (closures (send api (ThreadHandle t) m s)) \<and> send_contract api t queue pop) \<and>
      executed (send api (ThreadHandle t) m s) = executed s"
    using ok h eq by simp
  show "(\<exists>p. cells (closures s) p = None \<and>
          cells (closures (send api (ThreadHandle t) m s)) = (cells (closures s))(p \<mapsto> m) \<and>
          queue (host (send api (ThreadHandle t) m s)) = queue (host s) @ [p]) \<or>
      \<not> (\<forall>p w. fst (spdk_thread_send_msg api t p w) = 0) \<and>
      cells (closures s) \<subseteq>\<^sub>m cells (closures (send api (ThreadHandle t) m s)) \<and>
      queue (host (send api (ThreadHandle t) m s)) = queue (host s)"
  proof (cases "rc = 0")
    case True
    with send_contractD [OF conjunct2 [OF ok] w] h eq show ?thesis by (intro disjI1 exI [of _ q]) simp
  next
    case False
    with w have "\<not> (\<forall>p w. fst (spdk_thread_send_msg api t p w) = 0)" by (metis fst_conv)
    with False send_contractD [OF conjunct2 [OF ok] w] h eq show ?thesis
      by (intro disjI2) (auto simp: map_le_def)
  qed
  show "(boxes_ok (closures (s\<lparr>host := pop (host s)\<rparr>)) \<and> send_contract api t queue pop) \<and>
      executed (s\<lparr>host := pop (host s)\<rparr>) = executed s \<and>
      cells (closures (s\<lparr>host := pop (host s)\<rparr>)) = cells (closures s) \<and>
      queue (host (s\<lparr>host := pop (host s)\<rparr>)) = tl (queue (host s))"
    using ok by (simp add: send_contract_def)
next
  fix s :: "('c, 'f, 'w) courier" and m :: "'f message" and p
  assume ok: "boxes_ok (closures s) \<and> send_contract api t queue pop" and p: "cells (closures s) p = Some m"
  from box.from_Some [OF p] obtain h where h: "box_from_raw p (closures s) = Some (m, h)"
    "cells h = (cells (closures s))(p := None)" by blast
  with box.from_ok [OF conjunct1 [OF ok] h(1)] ok show "\<exists>s'. msg_callback os eval p s = Some s' \<and>
      (boxes_ok (closures s') \<and> send_contract api t queue pop) \<and>
      cells (closures s') = (cells (closures s))(p := None) \<and>
      executed s' = executed s @ [m] \<and> queue (host s') = queue (host s)"
    by (simp add: msg_callback_def)
qed

text \<open>An instance whose state counts the polls of its one thread.\<close>

definition count_thread :: "nat thread_api" where
  "count_thread = \<lparr>spdk_thread_lib_init_ext = (\<lambda>_ w. (0, w)), spdk_thread_lib_init = (\<lambda>w. (0, w)),
     spdk_thread_lib_fini = (\<lambda>w. w), spdk_thread_create = (\<lambda>_ w. (5, w)),
     spdk_set_thread = (\<lambda>_ w. w), spdk_get_thread = (\<lambda>_. 5), spdk_thread_get_app_thread = (\<lambda>_. 5),
     spdk_thread_poll = (\<lambda>_ _ _ w. (0, Suc w)),
     spdk_thread_has_active_pollers = (\<lambda>_ _. 0), spdk_thread_has_pollers = (\<lambda>_ _. False),
     spdk_thread_is_idle = (\<lambda>_ _. True), spdk_thread_is_running = (\<lambda>_ _. True),
     spdk_thread_is_exited = (\<lambda>_ w. True), spdk_thread_get_name = (\<lambda>_ _. Some ''worker''),
     spdk_thread_get_id = (\<lambda>_ _. 1), spdk_thread_get_count = (\<lambda>w. 1),
     spdk_thread_exit = (\<lambda>_ w. w), spdk_thread_destroy = (\<lambda>_ w. w),
     spdk_thread_send_msg = (\<lambda>_ p w. (0, w))\<rparr>"

text \<open>A thread whose poll changes nothing.\<close>

definition still_thread :: "'w thread_api" where
  "still_thread = \<lparr>spdk_thread_lib_init_ext = (\<lambda>_ w. (0, w)), spdk_thread_lib_init = (\<lambda>w. (0, w)),
     spdk_thread_lib_fini = (\<lambda>w. w), spdk_thread_create = (\<lambda>_ w. (5, w)),
     spdk_set_thread = (\<lambda>_ w. w), spdk_get_thread = (\<lambda>_. 5), spdk_thread_get_app_thread = (\<lambda>_. 5),
     spdk_thread_poll = (\<lambda>_ _ _ w. (0, w)),
     spdk_thread_has_active_pollers = (\<lambda>_ _. 0), spdk_thread_has_pollers = (\<lambda>_ _. False),
     spdk_thread_is_idle = (\<lambda>_ _. True), spdk_thread_is_running = (\<lambda>_ _. True),
     spdk_thread_is_exited = (\<lambda>_ w. True), spdk_thread_get_name = (\<lambda>_ _. Some ''worker''),
     spdk_thread_get_id = (\<lambda>_ _. 1), spdk_thread_get_count = (\<lambda>w. 1),
     spdk_thread_exit = (\<lambda>_ w. w), spdk_thread_destroy = (\<lambda>_ w. w),
     spdk_thread_send_msg = (\<lambda>_ p w. (0, w))\<rparr>"

end
