(* ===== verification/Channel.thy ===== *)
theory Channel
  imports Thread
begin

text \<open>
  \<open>spdk-io/src/channel.rs\<close>: I/O channels, references counted by SPDK to the channel of a device on one
  thread. The functions of SPDK are the parameter \<open>channel_api\<close>.
\<close>

record 'w channel_api =
  spdk_io_channel_get_thread :: "ptr \<Rightarrow> 'w \<Rightarrow> ptr"
  spdk_put_io_channel :: "ptr \<Rightarrow> 'w \<Rightarrow> 'w"

datatype io_channel = IoChannel (channel_ptr: ptr)

definition channel_from_ptr :: "ptr \<Rightarrow> io_channel" where
  "channel_from_ptr p = IoChannel p"

definition channel_thread :: "'w channel_api \<Rightarrow> io_channel \<Rightarrow> 'w \<Rightarrow> current_thread option ending" where
  "channel_thread api self w =
     (let p = spdk_io_channel_get_thread api (channel_ptr self) w
      in if p = null then Returned None else map_ending Some (current_from_ptr p))"

definition channel_as_ptr :: "io_channel \<Rightarrow> ptr" where
  "channel_as_ptr self = channel_ptr self"

definition channel_drop :: "'w channel_api \<Rightarrow> io_channel \<Rightarrow> 'w \<Rightarrow> 'w" where
  "channel_drop api self w = spdk_put_io_channel api (channel_ptr self) w"

text \<open>Asking for the thread of a channel never panics: the null pointer is caught before.\<close>

lemma channel_thread_returns:
  "channel_thread api c w = Returned (map_option CurrentThread
     (nonnull (spdk_io_channel_get_thread api (channel_ptr c) w)))"
  by (simp add: channel_thread_def current_from_ptr_def Let_def)

end
