(* ===== verification/Bdev.thy ===== *)
theory Bdev
  imports AsyncIo Dma Channel
begin

text \<open>
  \<open>spdk-io/src/bdev.rs\<close>: block devices, open descriptors, and asynchronous reads and writes. A device
  and a descriptor are their non-null pointers. The functions of SPDK are the parameter
  \<open>bdev_api\<close>; a completed request reports its \<open>spdk_bdev_io\<close> and whether it succeeded.
\<close>

section \<open>Devices and descriptors\<close>

record 'w bdev_api =
  spdk_bdev_get_by_name :: "string \<Rightarrow> 'w \<Rightarrow> ptr"
  spdk_bdev_get_name :: "ptr \<Rightarrow> 'w \<Rightarrow> string"
  spdk_bdev_get_block_size :: "ptr \<Rightarrow> 'w \<Rightarrow> u32"
  spdk_bdev_get_num_blocks :: "ptr \<Rightarrow> 'w \<Rightarrow> u64"
  spdk_bdev_open_ext :: "string \<Rightarrow> bool \<Rightarrow> 'w \<Rightarrow> (i32 \<times> ptr) \<times> 'w"
  spdk_bdev_close :: "ptr \<Rightarrow> 'w \<Rightarrow> 'w"
  spdk_bdev_get_io_channel :: "ptr \<Rightarrow> 'w \<Rightarrow> ptr \<times> 'w"
  spdk_bdev_desc_get_bdev :: "ptr \<Rightarrow> 'w \<Rightarrow> ptr"
  spdk_bdev_read :: "ptr \<Rightarrow> ptr \<Rightarrow> ptr \<Rightarrow> u64 \<Rightarrow> u64 \<Rightarrow> ('w, ptr \<times> bool) submission"
  spdk_bdev_write :: "ptr \<Rightarrow> ptr \<Rightarrow> ptr \<Rightarrow> u64 \<Rightarrow> u64 \<Rightarrow> ('w, ptr \<times> bool) submission"
  spdk_bdev_free_io :: "ptr \<Rightarrow> 'w \<Rightarrow> 'w"

datatype bdev = Bdev (bdev_ptr: ptr)

datatype bdev_desc = BdevDesc (desc_ptr: ptr)

definition bdev_get_by_name :: "'w bdev_api \<Rightarrow> string \<Rightarrow> 'w \<Rightarrow> bdev option" where
  "bdev_get_by_name api name w =
     (case cstring_new name of
        Inl _ \<Rightarrow> None
      | Inr name_cstr \<Rightarrow> map_option Bdev (nonnull (spdk_bdev_get_by_name api name_cstr w)))"

definition bdev_name :: "'w bdev_api \<Rightarrow> bdev \<Rightarrow> 'w \<Rightarrow> string" where
  "bdev_name api self w =
     unwrap_or (cstr_to_str (spdk_bdev_get_name api (bdev_ptr self) w)) ''<invalid utf8>''"

definition bdev_block_size :: "'w bdev_api \<Rightarrow> bdev \<Rightarrow> 'w \<Rightarrow> u32" where
  "bdev_block_size api self w = spdk_bdev_get_block_size api (bdev_ptr self) w"

definition bdev_num_blocks :: "'w bdev_api \<Rightarrow> bdev \<Rightarrow> 'w \<Rightarrow> u64" where
  "bdev_num_blocks api self w = spdk_bdev_get_num_blocks api (bdev_ptr self) w"

text \<open>The product wraps, as in a release build; a debug build panics where it would.\<close>

definition bdev_size_bytes :: "'w bdev_api \<Rightarrow> bdev \<Rightarrow> 'w \<Rightarrow> u64" where
  "bdev_size_bytes api self w = ucast (bdev_block_size api self w) * bdev_num_blocks api self w"

definition bdev_open :: "'w bdev_api \<Rightarrow> bdev \<Rightarrow> bool \<Rightarrow> 'w \<Rightarrow> (error, bdev_desc) result \<times> 'w" where
  "bdev_open api self write w =
     (case cstring (bdev_name api self w) of
        Inl e \<Rightarrow> (Inl e, w)
      | Inr name_cstr \<Rightarrow>
          (case spdk_bdev_open_ext api name_cstr write w of ((rc, desc), w') \<Rightarrow>
            (if rc \<noteq> 0 then Inl (Os rc)
             else ok_or (map_option BdevDesc (nonnull desc)) (InvalidArgument ''null descriptor''), w')))"

definition bdev_as_ptr :: "bdev \<Rightarrow> ptr" where
  "bdev_as_ptr self = bdev_ptr self"

definition bdev_clone :: "bdev \<Rightarrow> bdev" where
  "bdev_clone self = self"

definition bdev_from_ptr :: "ptr \<Rightarrow> bdev option" where
  "bdev_from_ptr p = map_option Bdev (nonnull p)"

definition desc_get_io_channel :: "'w bdev_api \<Rightarrow> bdev_desc \<Rightarrow> 'w \<Rightarrow> (error, io_channel) result \<times> 'w" where
  "desc_get_io_channel api self w =
     (case spdk_bdev_get_io_channel api (desc_ptr self) w of (ch, w') \<Rightarrow>
       (ok_or (map_option channel_from_ptr (nonnull ch)) ChannelAlloc, w'))"

definition desc_as_ptr :: "bdev_desc \<Rightarrow> ptr" where
  "desc_as_ptr self = desc_ptr self"

definition desc_bdev :: "'w bdev_api \<Rightarrow> bdev_desc \<Rightarrow> 'w \<Rightarrow> bdev ending" where
  "desc_bdev api self w =
     (case nonnull (spdk_bdev_desc_get_bdev api (desc_ptr self) w) of
        None \<Rightarrow> Panicked ''descriptor has null bdev''
      | Some p \<Rightarrow> Returned (Bdev p))"

definition desc_drop :: "'w bdev_api \<Rightarrow> bdev_desc \<Rightarrow> 'w \<Rightarrow> 'w" where
  "desc_drop api self w = spdk_bdev_close api (desc_ptr self) w"

section \<open>Reading and writing\<close>

definition bdev_io_completion_cb ::
  "('c, io_result) oneshot \<Rightarrow> 'w bdev_api \<Rightarrow> ptr \<times> bool \<Rightarrow> ptr \<Rightarrow> ('c, 'w) runtime \<Rightarrow>
     ('c, 'w) runtime option" where
  "bdev_io_completion_cb os api st cb_arg s =
     (case st of (bdev_io, success) \<Rightarrow>
        let s = s\<lparr>dev := spdk_bdev_free_io api bdev_io (dev s)\<rparr>
        in case sender_from_raw cb_arg (sender_boxes s) of
             None \<Rightarrow> None
           | Some (t, h) \<Rightarrow>
               let s = s\<lparr>sender_boxes := h\<rparr>
               in Some (if success then s\<lparr>chans := sender_success os t () (chans s)\<rparr>
                        else s\<lparr>chans := sender_error os t IoError (chans s)\<rparr>))"

definition bdev_read ::
  "('c, io_result) oneshot \<Rightarrow> 'w bdev_api \<Rightarrow> bdev_desc \<Rightarrow> io_channel \<Rightarrow> dma_buf \<Rightarrow> u64 \<Rightarrow> future \<Rightarrow>
     ('c, 'w) runtime \<Rightarrow> ('c, 'w) resumed" where
  "bdev_read os api self channel buf offset f s =
     (case f of
        Unstarted \<Rightarrow>
          (case completion os (chans s) of (t, r, c) \<Rightarrow>
           case sender_into_raw t (sender_boxes s) of (ctx, h) \<Rightarrow>
           case submit_call
                  (spdk_bdev_read api (desc_ptr self) (channel_as_ptr channel) (dma_as_mut_ptr buf) offset (dma_len buf))
                  (bdev_io_completion_cb os api) ctx (s\<lparr>sender_boxes := h, chans := c\<rparr>) of
             None \<Rightarrow> None
           | Some (rc, s') \<Rightarrow>
               Some (if rc \<noteq> 0
                     then (Ready (Inl (Os rc)), Finished, s'\<lparr>chans := os_drop_rx os (rx r) (chans s')\<rparr>)
                     else await_rx os r s'))
      | Awaiting r \<Rightarrow> Some (await_rx os r s)
      | Finished \<Rightarrow> None)"

definition bdev_write ::
  "('c, io_result) oneshot \<Rightarrow> 'w bdev_api \<Rightarrow> bdev_desc \<Rightarrow> io_channel \<Rightarrow> dma_buf \<Rightarrow> u64 \<Rightarrow> future \<Rightarrow>
     ('c, 'w) runtime \<Rightarrow> ('c, 'w) resumed" where
  "bdev_write os api self channel buf offset f s =
     (case f of
        Unstarted \<Rightarrow>
          (case completion os (chans s) of (t, r, c) \<Rightarrow>
           case sender_into_raw t (sender_boxes s) of (ctx, h) \<Rightarrow>
           case submit_call
                  (spdk_bdev_write api (desc_ptr self) (channel_as_ptr channel) (dma_as_ptr buf) offset (dma_len buf))
                  (bdev_io_completion_cb os api) ctx (s\<lparr>sender_boxes := h, chans := c\<rparr>) of
             None \<Rightarrow> None
           | Some (rc, s') \<Rightarrow>
               Some (if rc \<noteq> 0
                     then (Ready (Inl (Os rc)), Finished, s'\<lparr>chans := os_drop_rx os (rx r) (chans s')\<rparr>)
                     else await_rx os r s'))
      | Awaiting r \<Rightarrow> Some (await_rx os r s)
      | Finished \<Rightarrow> None)"

text \<open>The values of \<open>spdk_bdev_event_type\<close> are generated, hence a parameter; the result is the line logged.\<close>

record bdev_events =
  EVENT_REMOVE :: u32
  EVENT_RESIZE :: u32
  EVENT_MEDIA_MANAGEMENT :: u32

definition bdev_event_callback :: "bdev_events \<Rightarrow> 'w bdev_api \<Rightarrow> u32 \<Rightarrow> ptr \<Rightarrow> 'w \<Rightarrow> string" where
  "bdev_event_callback ev api event_type b w =
     (let name = (if b \<noteq> null then unwrap_or (cstr_to_str (spdk_bdev_get_name api b w)) ''<unknown>''
                  else ''<null>'')
      in if event_type = EVENT_REMOVE ev then ''bdev event: '' @ name @ '' is being removed''
         else if event_type = EVENT_RESIZE ev then ''bdev event: '' @ name @ '' was resized''
         else if event_type = EVENT_MEDIA_MANAGEMENT ev then ''bdev event: '' @ name @ '' media management''
         else ''bdev event: '' @ name @ '' unknown event '' @ unsigned_to_string event_type)"

section \<open>Requests as an instance of the protocol\<close>

datatype bdev_request =
    BdevRead bdev_desc io_channel dma_buf u64
  | BdevWrite bdev_desc io_channel dma_buf u64

fun bdev_submit :: "'w bdev_api \<Rightarrow> bdev_request \<Rightarrow> ('w, ptr \<times> bool) submission" where
  "bdev_submit api (BdevRead d ch b off) =
     spdk_bdev_read api (desc_ptr d) (channel_as_ptr ch) (dma_as_mut_ptr b) off (dma_len b)"
| "bdev_submit api (BdevWrite d ch b off) =
     spdk_bdev_write api (desc_ptr d) (channel_as_ptr ch) (dma_as_ptr b) off (dma_len b)"

fun bdev_resume ::
  "('c, io_result) oneshot \<Rightarrow> 'w bdev_api \<Rightarrow> bdev_request \<Rightarrow> future \<Rightarrow> ('c, 'w) runtime \<Rightarrow>
     ('c, 'w) resumed" where
  "bdev_resume os api (BdevRead d ch b off) f s = bdev_read os api d ch b off f s"
| "bdev_resume os api (BdevWrite d ch b off) f s = bdev_write os api d ch b off f s"

definition bdev_decode :: "ptr \<times> bool \<Rightarrow> io_result" where
  "bdev_decode st = (if snd st then Inr () else Inl IoError)"

definition bdev_release :: "'w bdev_api \<Rightarrow> ptr \<times> bool \<Rightarrow> 'w \<Rightarrow> 'w" where
  "bdev_release api st w = spdk_bdev_free_io api (fst st) w"

interpretation bdev_io: io_protocol os "bdev_resume os api" "bdev_submit api" "bdev_io_completion_cb os api"
    Os bdev_decode "bdev_release api"
  for os :: "('c, io_result) oneshot" and api :: "'w bdev_api"
proof
  fix q and r and s :: "('c, 'w) runtime" and st :: "ptr \<times> bool" and p
  show "bdev_resume os api q Unstarted s =
      submit_then_await os (bdev_submit api q) (bdev_io_completion_cb os api) Os s"
    by (cases q) (simp_all add: bdev_read_def bdev_write_def submit_then_await_def)
  show "bdev_resume os api q (Awaiting r) s = Some (await_rx os r s)"
    by (cases q) (simp_all add: bdev_read_def bdev_write_def)
  show "bdev_io_completion_cb os api st p s = complete_boxed os bdev_decode (bdev_release api) st p s"
    by (cases st) (simp add: bdev_io_completion_cb_def complete_boxed_def bdev_decode_def
        bdev_release_def sender_success_def sender_error_def sender_complete_def Let_def
        split: option.splits)
qed

definition demo_bdev :: "ptr set bdev_api" where
  "demo_bdev = \<lparr>spdk_bdev_get_by_name = (\<lambda>n _. if n = ''Null0'' then 7 else 0),
     spdk_bdev_get_name = (\<lambda>_ _. ''Null0''), spdk_bdev_get_block_size = (\<lambda>_ _. 512),
     spdk_bdev_get_num_blocks = (\<lambda>_ _. 2048), spdk_bdev_open_ext = (\<lambda>_ _ w. ((0, 8), w)),
     spdk_bdev_close = (\<lambda>_ w. w), spdk_bdev_get_io_channel = (\<lambda>_ w. (9, w)),
     spdk_bdev_desc_get_bdev = (\<lambda>_ _. 7), spdk_bdev_read = (\<lambda>_ _ _ _ _. demo_submit),
     spdk_bdev_write = (\<lambda>_ _ _ _ _. demo_submit), spdk_bdev_free_io = (\<lambda>_ w. w)\<rparr>"

lemma demo_bdev_submit: "bdev_submit demo_bdev q = demo_submit"
  by (cases q) (simp_all add: demo_bdev_def)

lemma demo_bdev_contract: "submit_contract (bdev_submit demo_bdev) (bdev_release demo_bdev) (\<lambda>w. w)"
  unfolding submit_contract_def demo_bdev_submit
  by (simp add: demo_submit_def bdev_release_def demo_bdev_def)

abbreviation demo_bdev_reachable where
  "demo_bdev_reachable q S \<equiv> io_reachable ref_oneshot (bdev_resume ref_oneshot demo_bdev)
     (bdev_submit demo_bdev) (bdev_io_completion_cb ref_oneshot demo_bdev) (\<lambda>w. w) (\<lambda>_. q) S"

lemma demo_bdev_run:
  obtains S r where "demo_bdev_reachable q S" "tasks S 0 = Some (Awaiting r)" "told S (rx r) = Some st"
proof -
  have "fst (bdev_submit demo_bdev q p w) = (0, None)" for p w
    by (simp add: demo_bdev_submit demo_submit_def)
  from bdev_io.completes(1) [OF ref_oneshot_spec demo_bdev_contract this _ demo_runtime_ok(1,2), where st = st]
  show thesis using that by (auto simp: demo_runtime_ok(3))
qed

lemma demo_bdev_done:
  obtains S where "demo_bdev_reachable q S" "outcome S 0 = Some (bdev_decode st)"
proof -
  have "fst (bdev_submit demo_bdev q p w) = (0, None)" for p w
    by (simp add: demo_bdev_submit demo_submit_def)
  from bdev_io.completes(2) [OF ref_oneshot_spec demo_bdev_contract this _ demo_runtime_ok(1,2), where st = st]
  show thesis using that by (auto simp: demo_runtime_ok(3))
qed

section \<open>Properties\<close>

text \<open>
  C2: Whatever reads and writes run, in any interleaving with cancellations and with completions by
  SPDK: if SPDK refused the request's own submission, the request returns exactly the code that this
  submission returned; otherwise it returns the status that SPDK reported for this very request, never
  for another one.
\<close>

theorem bdev_io_outcome:
  assumes "oneshot_spec os view" "submit_contract (bdev_submit api) (bdev_release api) pending"
    and "io_reachable os (bdev_resume os api) (bdev_submit api) (bdev_io_completion_cb os api) pending job S"
    and "outcome S i = Some r"
  shows "case rejected S i of
       Some rc \<Rightarrow> rc \<noteq> 0 \<and> r = Inl (Os rc) \<and> (\<exists>p w w'. bdev_submit api (job i) p w = ((rc, None), w'))
     | None \<Rightarrow> \<exists>ch io ok. chan_of S i = Some ch \<and> (\<forall>j. chan_of S j = Some ch \<longrightarrow> j = i) \<and>
         told S ch = Some (io, ok) \<and> r = (if ok then Inr () else Inl IoError)"
proof (cases "rejected S i")
  case None
  with bdev_io.outcome_justified [OF assms] obtain ch st where
    "chan_of S i = Some ch" "told S ch = Some st" "r = bdev_decode st" by auto
  with None bdev_io.own_channel [OF assms(1-3)] show ?thesis
    by (cases st) (auto simp: bdev_decode_def)
qed (use bdev_io.outcome_justified [OF assms] in simp)

theorem bdev_io_outcome_witness:
  "\<exists>S. demo_bdev_reachable (BdevRead (BdevDesc 8) (IoChannel 9) \<lparr>buf_ptr = 16, buf_len = 512\<rparr> 0) S \<and>
     outcome S 0 = Some (Inl IoError) \<and>
     (\<exists>ch io. chan_of S 0 = Some ch \<and> told S ch = Some (io, False))"
proof -
  let ?q = "BdevRead (BdevDesc 8) (IoChannel 9) \<lparr>buf_ptr = 16, buf_len = 512\<rparr> 0"
  obtain S where S: "demo_bdev_reachable ?q S" "outcome S 0 = Some (bdev_decode (5, False))"
    by (rule demo_bdev_done)
  from bdev_io_outcome [OF ref_oneshot_spec demo_bdev_contract S] S show ?thesis
    by (auto simp: bdev_decode_def split: option.splits if_splits)
qed

text \<open>
  C3: In every reachable state the completion callback may run for any context SPDK holds, without
  undefined behaviour, and polling an unfinished request does not panic; the live boxed senders are
  the requests in flight and one leaked sender for each refused submission.
\<close>

theorem bdev_io_safe:
  assumes "oneshot_spec os view" "submit_contract (bdev_submit api) (bdev_release api) pending"
    and "io_reachable os (bdev_resume os api) (bdev_submit api) (bdev_io_completion_cb os api) pending job S"
  shows "(\<forall>p \<in> pending (dev (rt S)). \<forall>st w. bdev_io_completion_cb os api st p ((rt S)\<lparr>dev := w\<rparr>) \<noteq> None) \<and>
     (\<forall>i f. tasks S i = Some f \<longrightarrow> f \<noteq> Finished \<longrightarrow> bdev_resume os api (job i) f (rt S) \<noteq> None) \<and>
     card (dom (cells (sender_boxes (rt S)))) = card (pending (dev (rt S))) + refused S"
  using bdev_io.callback_safe [OF assms] bdev_io.poll_safe [OF assms] bdev_io.live_boxes [OF assms]
  by blast

theorem bdev_io_safe_witness:
  "\<exists>S r. demo_bdev_reachable (BdevWrite (BdevDesc 8) (IoChannel 9) \<lparr>buf_ptr = 16, buf_len = 512\<rparr> 0) S \<and>
     tasks S 0 = Some (Awaiting r) \<and>
     bdev_resume ref_oneshot demo_bdev (BdevWrite (BdevDesc 8) (IoChannel 9) \<lparr>buf_ptr = 16, buf_len = 512\<rparr> 0)
       (Awaiting r) (rt S) \<noteq> None"
proof -
  let ?q = "BdevWrite (BdevDesc 8) (IoChannel 9) \<lparr>buf_ptr = 16, buf_len = 512\<rparr> 0"
  obtain S r where S: "demo_bdev_reachable ?q S" "tasks S 0 = Some (Awaiting r)"
    using demo_bdev_run [of ?q] by blast
  from bdev_io_safe [OF ref_oneshot_spec demo_bdev_contract S(1)] S show ?thesis by blast
qed

text \<open>
  Once SPDK has reported the status of a suspended request, its next poll returns that status.
\<close>

theorem bdev_io_ready:
  assumes "oneshot_spec os view" "submit_contract (bdev_submit api) (bdev_release api) pending"
    and "io_reachable os (bdev_resume os api) (bdev_submit api) (bdev_io_completion_cb os api) pending job S"
    and "tasks S i = Some (Awaiting r)" "told S (rx r) = Some (io, ok)"
  shows "\<exists>s. bdev_resume os api (job i) (Awaiting r) (rt S) =
     Some (Ready (if ok then Inr () else Inl IoError), Finished, s)"
  using bdev_io.told_ready [OF assms] by (simp add: bdev_decode_def)

theorem bdev_io_ready_witness:
  "\<exists>S r s. demo_bdev_reachable (BdevRead (BdevDesc 8) (IoChannel 9) \<lparr>buf_ptr = 16, buf_len = 512\<rparr> 0) S \<and>
     bdev_resume ref_oneshot demo_bdev (BdevRead (BdevDesc 8) (IoChannel 9) \<lparr>buf_ptr = 16, buf_len = 512\<rparr> 0)
     (Awaiting r) (rt S) = Some (Ready (Inr ()), Finished, s) \<and> told S (rx r) = Some (5 :: ptr, True)"
proof -
  let ?q = "BdevRead (BdevDesc 8) (IoChannel 9) \<lparr>buf_ptr = 16, buf_len = 512\<rparr> 0"
  obtain S r where S: "demo_bdev_reachable ?q S" "tasks S 0 = Some (Awaiting r)"
    "told S (rx r) = Some (5, True)"
    by (rule demo_bdev_run)
  from bdev_io_ready [OF ref_oneshot_spec demo_bdev_contract S] obtain s where
    "bdev_resume ref_oneshot demo_bdev ?q (Awaiting r) (rt S) = Some (Ready (Inr ()), Finished, s)"
    unfolding if_True by blast
  with S(1,3) show ?thesis by blast
qed

text \<open>
  The size of a device in bytes is the product of its block size and its block count, reduced
  modulo two to the 64: it is exact whenever the product fits.
\<close>

theorem size_bytes_mod:
  "unat (bdev_size_bytes api b w) =
     unat (bdev_block_size api b w) * unat (bdev_num_blocks api b w) mod 2 ^ 64"
  by (simp add: bdev_size_bytes_def unat_word_ariths unat_ucast_u64)

lemma bdev_open_ok:
  "bdev_open api b write w = (Inr d, w') \<longleftrightarrow> nul \<notin> set (bdev_name api b w) \<and> desc_ptr d \<noteq> null \<and>
     spdk_bdev_open_ext api (bdev_name api b w) write w = ((0, desc_ptr d), w')"
  by (cases d) (auto simp: bdev_open_def ok_or_def nonnull_def split: sum.splits prod.splits option.splits
      if_splits dest: cstring_eq_Inl)

end
