(* ===== verification/Thread_Correct.thy ===== *)
theory Thread_Correct
  imports Thread
begin

text \<open>
  The properties of \<open>Thread\<close>: initialisation happens once and can be retried, attaching makes the
  thread current, dropping a thread ends exactly when SPDK lets it exit, \<open>join\<close> reports how the spawned
  function ended, and messages run once and in order.
\<close>

section \<open>Initialisation\<close>

text \<open>
  The thread library is initialised once: a successful initialisation sets the flag, and every
  later one, by either function, returns Ok without calling SPDK; a failed one clears the flag, so
  that the next attempt calls SPDK again and succeeds if SPDK then does.
\<close>

theorem lib_init_once:
  "(case thread_lib_init api s of
      (Inr _, s') \<Rightarrow> THREAD_LIB_INITIALIZED s' \<and> thread_lib_init api s' = (Inr (), s') \<and>
        (\<forall>n. thread_lib_init_ext api n s' = (Inr (), s'))
    | (Inl e, s') \<Rightarrow> \<not> THREAD_LIB_INITIALIZED s' \<and> (\<exists>m. e = EnvInit m) \<and>
        (case spdk_thread_lib_init api (spdk s') of (rc, w) \<Rightarrow>
           fst (thread_lib_init api s') = Inr () \<longleftrightarrow> rc = 0))"
proof (cases "thread_lib_init api s" rule: prod.exhaust)
  case (Pair r s')
  then show ?thesis
  proof (cases rule: lib_init.init_cases)
    case (fail rc w m)
    obtain rc' w' where w': "spdk_thread_lib_init api w = (rc', w')" by fastforce
    with fail Pair show ?thesis
      using lib_init.init_ok [of s' api w'] lib_init.init_fail [of s' api rc' w'] by (cases "rc' = 0") auto
  qed (use Pair lib_init.init_set [of s'] lib_init_ext.init_set [of s'] in simp_all)
qed

text \<open>What the parameters of an instance look like: threads by number, a log of the queue.\<close>

record demo_host =
  cur :: ptr
  polls :: nat
  threads :: nat
  msgs :: "ptr list"

definition demo_host :: demo_host where
  "demo_host = \<lparr>cur = 0, polls = 0, threads = 0, msgs = []\<rparr>"

definition demo_thread :: "demo_host thread_api" where
  "demo_thread = \<lparr>spdk_thread_lib_init_ext = (\<lambda>_ w. (0, w)), spdk_thread_lib_init = (\<lambda>w. (0, w)),
     spdk_thread_lib_fini = (\<lambda>w. w),
     spdk_thread_create = (\<lambda>_ w. (5, w\<lparr>threads := Suc (threads w)\<rparr>)),
     spdk_set_thread = (\<lambda>p w. w\<lparr>cur := p\<rparr>), spdk_get_thread = cur, spdk_thread_get_app_thread = (\<lambda>_. 5),
     spdk_thread_poll = (\<lambda>_ _ _ w. (0, w\<lparr>polls := Suc (polls w)\<rparr>)),
     spdk_thread_has_active_pollers = (\<lambda>_ _. 0), spdk_thread_has_pollers = (\<lambda>_ _. False),
     spdk_thread_is_idle = (\<lambda>_ _. True), spdk_thread_is_running = (\<lambda>_ _. True),
     spdk_thread_is_exited = (\<lambda>_ w. 2 \<le> polls w), spdk_thread_get_name = (\<lambda>_ _. Some ''worker''),
     spdk_thread_get_id = (\<lambda>_ _. 1), spdk_thread_get_count = (\<lambda>w. of_nat (threads w)),
     spdk_thread_exit = (\<lambda>_ w. w), spdk_thread_destroy = (\<lambda>_ w. w\<lparr>threads := threads w - 1\<rparr>),
     spdk_thread_send_msg = (\<lambda>_ p w. (0, w\<lparr>msgs := msgs w @ [p]\<rparr>))\<rparr>"

section \<open>The life of a thread\<close>

text \<open>
  Attaching succeeds exactly when the name has no NUL byte and SPDK creates the thread; the new
  thread is then the current one of this OS thread, and the initialisation flag is untouched.
\<close>

theorem attach_current:
  assumes "\<And>p w. spdk_get_thread api (spdk_set_thread api p w) = p"
  shows "(\<exists>t s'. attach api name s = (Inr t, s') \<and> get_current api s' = Some (CurrentThread (thread_ptr t)) \<and>
       THREAD_LIB_INITIALIZED s' = THREAD_LIB_INITIALIZED s) \<longleftrightarrow>
     nul \<notin> set name \<and> fst (spdk_thread_create api name (spdk s)) \<noteq> null"
proof (cases "nul \<in> set name")
  case True
  then show ?thesis by (simp add: attach_def cstring_nul)
next
  case False
  obtain p w where p: "spdk_thread_create api name (spdk s) = (p, w)" by fastforce
  with False have "attach api name s = (if p = null then (Inl (EnvInit ''spdk_thread_create returned NULL''), s\<lparr>spdk := w\<rparr>)
      else (Inr (SpdkThread p), s\<lparr>spdk := spdk_set_thread api p w\<rparr>))"
    by (simp add: attach_def call_def exec_def)
  with False p assms show ?thesis by (auto simp: get_current_def)
qed

theorem attach_current_witness:
  "\<exists>t s'. attach demo_thread ''worker'' (fresh_process demo_host) = (Inr t, s') \<and>
     get_current demo_thread s' = Some (CurrentThread (thread_ptr t)) \<and>
     THREAD_LIB_INITIALIZED s' = THREAD_LIB_INITIALIZED (fresh_process demo_host)"
  by (subst attach_current) (simp_all add: demo_thread_def nul_def)

lemma exit_loop_rounds:
  "((\<lambda>s. snd (call f s)) ^^ n) s = s\<lparr>spdk := ((\<lambda>w. snd (f w)) ^^ n) (spdk s)\<rparr>"
  by (induction n) (simp_all add: call_def split: prod.splits)

lemma thread_drop_after:
  assumes "\<And>k. k < n \<Longrightarrow> \<not> spdk_thread_is_exited api p
      (((\<lambda>w. snd (spdk_thread_poll api p 0 0 w)) ^^ k) (spdk_thread_exit api p (spdk s)))"
    and "spdk_thread_is_exited api p
      (((\<lambda>w. snd (spdk_thread_poll api p 0 0 w)) ^^ n) (spdk_thread_exit api p (spdk s)))"
    and "w = spdk_thread_destroy api p (spdk_set_thread api null
      (((\<lambda>w. snd (spdk_thread_poll api p 0 0 w)) ^^ n) (spdk_thread_exit api p (spdk s))))"
  shows "thread_drop api (SpdkThread p) s = Some (if spdk_thread_get_count api w = 0
     then s\<lparr>THREAD_LIB_INITIALIZED := False,
            spdk := if THREAD_LIB_INITIALIZED s then spdk_thread_lib_fini api w else w\<rparr>
     else s\<lparr>spdk := w\<rparr>)"
proof -
  let ?s = "exec (spdk_thread_exit api p) s"
  have "exit_loop api p ?s = Some (((\<lambda>s. snd (call (spdk_thread_poll api p 0 0) s)) ^^ n) ?s)"
    unfolding exit_loop_def using assms(1,2) by (intro while_option_funpow) (simp_all add: exit_loop_rounds)
  then show ?thesis using assms(3)
    by (simp add: thread_drop_def exit_loop_rounds thread_count_def thread_lib_fini_def exec_def Let_def)
qed

text \<open>
  C15: Dropping a thread that exits after \<open>n\<close> polls returns after exactly \<open>n\<close> polls; there is then no
  current thread, the thread is destroyed, and the library is finalised, with its flag cleared, if and
  only if it was initialised and this was the last thread.
\<close>

theorem thread_drop_returns:
  assumes "\<And>k. k < n \<Longrightarrow> \<not> spdk_thread_is_exited api p
      (((\<lambda>w. snd (spdk_thread_poll api p 0 0 w)) ^^ k) (spdk_thread_exit api p (spdk s)))"
    and "spdk_thread_is_exited api p
      (((\<lambda>w. snd (spdk_thread_poll api p 0 0 w)) ^^ n) (spdk_thread_exit api p (spdk s)))"
    and "w = spdk_thread_destroy api p (spdk_set_thread api null
      (((\<lambda>w. snd (spdk_thread_poll api p 0 0 w)) ^^ n) (spdk_thread_exit api p (spdk s))))"
  shows "thread_drop api (SpdkThread p) s = Some (if spdk_thread_get_count api w = 0
     then s\<lparr>THREAD_LIB_INITIALIZED := False,
            spdk := if THREAD_LIB_INITIALIZED s then spdk_thread_lib_fini api w else w\<rparr>
     else s\<lparr>spdk := w\<rparr>)"
  using assms by (rule thread_drop_after)

theorem thread_drop_returns_witness:
  "thread_drop demo_thread (SpdkThread 5)
     \<lparr>ENV_INITIALIZED = False, THREAD_LIB_INITIALIZED = True, ATTACHED_CTRLR = None,
      spdk = \<lparr>cur = 5, polls = 0, threads = 1, msgs = []\<rparr>\<rparr> =
   Some \<lparr>ENV_INITIALIZED = False, THREAD_LIB_INITIALIZED = False, ATTACHED_CTRLR = None,
      spdk = \<lparr>cur = 0, polls = 2, threads = 0, msgs = []\<rparr>\<rparr>"
  by (subst thread_drop_returns [where n = 2, OF _ _ refl])
    (auto simp: demo_thread_def numeral_2_eq_2 less_Suc_eq)

lemma thread_drop_hangs:
  assumes "\<And>k. \<not> spdk_thread_is_exited api p
      (((\<lambda>w. snd (spdk_thread_poll api p 0 0 w)) ^^ k) (spdk_thread_exit api p (spdk s)))"
  shows "thread_drop api (SpdkThread p) s = None"
proof -
  have "exit_loop api p (exec (spdk_thread_exit api p) s) = None"
    unfolding exit_loop_def using assms by (intro while_option_None) (simp add: exit_loop_rounds)
  then show ?thesis by (simp add: thread_drop_def)
qed

text \<open>
  Joining a spawned thread yields the value of its function; if the function panicked, or the
  SPDK thread could not be created, it yields the error ThreadPanic. In every case in which the
  function ran, the SPDK thread was dropped afterwards.
\<close>

theorem spawn_join:
  assumes "spawn api True name f s = Some (Returned h, s')"
  shows "(\<exists>t s1 e s2. attach api name s = (Inr t, s1) \<and> f t s1 = (e, s2) \<and> thread_drop api t s2 = Some s' \<and>
       join h = (case e of Returned v \<Rightarrow> Inr v | Panicked _ \<Rightarrow> Inl ThreadPanic)) \<or>
     (\<exists>err. attach api name s = (Inl err, s') \<and> join h = Inl ThreadPanic)"
  using assms
  by (auto simp: spawn_def thread_main_def join_def split: if_splits option.splits prod.splits sum.splits
      ending.splits)

theorem spawn_join_witness:
  "\<exists>h s'. spawn demo_thread True ''worker'' (\<lambda>t s. (Returned (42 :: nat), s)) (fresh_process demo_host) =
       Some (Returned h, s') \<and> join h = Inr 42"
proof -
  let ?f = "\<lambda>t s. (Returned (42 :: nat), s)"
  let ?s1 = "(fresh_process demo_host)\<lparr>spdk := \<lparr>cur = 5, polls = 0, threads = 1, msgs = []\<rparr>\<rparr>"
  have a: "attach demo_thread ''worker'' (fresh_process demo_host) = (Inr (SpdkThread 5), ?s1)"
    by (simp add: attach_def demo_thread_def call_def exec_def nul_def fresh_process_def demo_host_def)
  have "\<exists>s'. thread_drop demo_thread (SpdkThread 5) ?s1 = Some s'"
    by (subst thread_drop_after [where n = 2, OF _ _ refl])
      (auto simp: demo_thread_def numeral_2_eq_2 less_Suc_eq)
  then obtain s' where "thread_drop demo_thread (SpdkThread 5) ?s1 = Some s'" by blast
  with a have sp: "spawn demo_thread True ''worker'' ?f (fresh_process demo_host) =
      Some (Returned (JoinHandle (Returned 42)), s')"
    by (simp add: spawn_def thread_main_def nul_def)
  from spawn_join [OF sp] a have "join (JoinHandle (Returned (42 :: nat))) = Inr 42" by auto
  with sp show ?thesis by blast
qed

section \<open>Messages\<close>

text \<open>
  C12: Whatever is sent to a thread and whenever the thread is polled, every delivery finds its
  closure, no closure runs twice, and the closures run, followed by those still queued, are a
  subsequence of the ones sent, in the order sent; it is all of them if SPDK refuses no message.
\<close>

theorem messages_fifo:
  assumes "send_contract api t queue pop" "queue w = []"
  shows "\<exists>s. dispatch_ops (send api (ThreadHandle t)) (msg_callback os eval) (\<lambda>s. queue (host s))
         (\<lambda>s. s\<lparr>host := pop (host s)\<rparr>) ops (no_closures c w) = Some s \<and>
     subseq (executed s @ map (\<lambda>p. the (cells (closures s) p)) (queue (host s))) (posted ops) \<and>
     ((\<forall>p w. fst (spdk_thread_send_msg api t p w) = 0) \<longrightarrow>
       executed s @ map (\<lambda>p. the (cells (closures s) p)) (queue (host s)) = posted ops)"
proof -
  have "boxes_ok (closures (no_closures c w)) \<and> send_contract api t queue pop"
    "queue (host (no_closures c w)) = []" "executed (no_closures c w) = []"
    using assms by (simp_all add: no_closures_def)
  from messages.ops_fifo [OF this] show ?thesis unfolding messages.queued_def .
qed

definition demo_pop :: "demo_host \<Rightarrow> demo_host" where
  "demo_pop w = w\<lparr>msgs := tl (msgs w)\<rparr>"

lemma demo_send_contract: "send_contract demo_thread t msgs demo_pop"
  by (simp add: send_contract_def demo_thread_def demo_pop_def)

theorem messages_fifo_witness:
  "\<exists>s. dispatch_ops (send demo_thread (ThreadHandle 5)) (msg_callback ref_oneshot (\<lambda>n :: nat. n))
         (\<lambda>s. msgs (host s)) (\<lambda>s. s\<lparr>host := demo_pop (host s)\<rparr>)
         [Post (Run 1), Post (Run 2), Deliver, Deliver, Deliver, Post (Run 3)]
         (no_closures no_chans demo_host) = Some s \<and>
     executed s @ map (\<lambda>p. the (cells (closures s) p)) (msgs (host s)) = [Run 1, Run 2, Run 3]"
proof -
  have acc: "\<forall>p w. fst (spdk_thread_send_msg demo_thread 5 p w) = 0" by (simp add: demo_thread_def)
  from messages_fifo [OF demo_send_contract, where w = demo_host and os = ref_oneshot and t = 5
      and eval = "\<lambda>n :: nat. n" and c = no_chans
      and ops = "[Post (Run 1), Post (Run 2), Deliver, Deliver, Deliver, Post (Run 3)]"] acc
  show ?thesis by (auto simp: demo_host_def)
qed

text \<open>
  A call to another thread returns a pending receiver; when the target runs the message, in any
  later state of SPDK, the receiver is ready with exactly the value of the closure, and the closure's
  box is gone.
\<close>

theorem call_delivers:
  assumes os: "oneshot_spec os view" and ok: "boxes_ok (closures s)"
    and con: "send_contract api t queue pop"
    and c: "handle_call api os (ThreadHandle t) f s = (r, s')"
    and acc: "\<And>p w. fst (spdk_thread_send_msg api t p w) = 0"
  shows "\<exists>p s''. queue (host s') = queue (host s) @ [p] \<and>
     fst (receiver_poll os r cx (courier_chans s')) = Pending \<and>
     msg_callback os eval p (s'\<lparr>host := w\<rparr>) = Some s'' \<and>
     cells (closures s'') = cells (closures s) \<and>
     executed s'' = executed s @ [RunAndSend f (CompletionSender (rx r))] \<and>
     fst (receiver_poll os r cx (courier_chans s'')) = Ready (Inr (eval f))"
proof -
  obtain ch c' where ch: "os_channel os (courier_chans s) = (ch, c')" by fastforce
  obtain p h where p: "box_into_raw (RunAndSend f (CompletionSender ch)) (closures s) = (p, h)" by fastforce
  obtain rc w' where w': "spdk_thread_send_msg api t p (host s) = (rc, w')" by fastforce
  with acc have rc: "rc = 0" by (metis fst_conv)
  have r: "r = CompletionReceiver ch" and s': "s' = s\<lparr>courier_chans := c', closures := h, host := w'\<rparr>"
    using c ch p w' by (auto simp: handle_call_def completion_def send_def)
  from oneshot_channel(2) [OF os ch] have op: "view c' ch = Open" by simp
  from oneshot_send(1) [OF os op, of "Inr (eval f)"] have sent:
    "view (sender_success os (CompletionSender ch) (eval f) c') ch = Sent (Inr (eval f))"
    by (simp add: sender_success_def)
  from box.round_trip [OF ok p] obtain h' where h': "box_from_raw p h = Some (RunAndSend f (CompletionSender ch), h')"
    "cells h' = cells (closures s)" by blast
  let ?s = "run_message os eval (RunAndSend f (CompletionSender ch)) (s'\<lparr>host := w, closures := h'\<rparr>)"
  have "msg_callback os eval p (s'\<lparr>host := w\<rparr>) = Some ?s" using h' by (simp add: msg_callback_def s')
  moreover have "courier_chans ?s = sender_success os (CompletionSender ch) (eval f) c'"
    by (simp add: run_message_def s')
  moreover have "queue (host s') = queue (host s) @ [p]"
    using send_contractD [OF con w'] rc by (simp add: s')
  moreover have "fst (receiver_poll os r cx (courier_chans s')) = Pending"
    using receiver_poll_eq(1) [OF os, of c' r cx] op r by (auto simp: s')
  moreover have "fst (receiver_poll os r cx (sender_success os (CompletionSender ch) (eval f) c')) =
      Ready (Inr (eval f))"
    using receiver_poll_eq(2) [OF os, of "sender_success os (CompletionSender ch) (eval f) c'" r "Inr (eval f)" cx]
      sent r by auto
  ultimately show ?thesis using h'(2) by (intro exI [of _ p] exI [of _ ?s]) (simp add: r s')
qed

theorem call_delivers_witness:
  "\<exists>r s' p s''. handle_call demo_thread ref_oneshot (ThreadHandle 5) (20 :: nat)
       (no_closures no_chans demo_host) = (r, s') \<and> msgs (host s') = [p] \<and>
     msg_callback ref_oneshot (\<lambda>n. n + 22) p (s'\<lparr>host := demo_pop (host s')\<rparr>) = Some s'' \<and>
     fst (receiver_poll ref_oneshot r NoopWaker (courier_chans s'')) = Ready (Inr (42 :: nat))"
proof -
  obtain r s' where c: "handle_call demo_thread ref_oneshot (ThreadHandle 5) (20 :: nat)
      (no_closures (no_chans :: (error, nat) result chan_store) demo_host) = (r, s')" by fastforce
  have "boxes_ok (closures (no_closures (no_chans :: (error, nat) result chan_store) demo_host))"
    by (simp add: no_closures_def)
  from call_delivers [OF ref_oneshot_spec this demo_send_contract c, where eval = "\<lambda>n. n + 22" and w = "demo_pop (host s')" and cx = NoopWaker]
  have "\<exists>p s''. msgs (host s') = msgs (host (no_closures no_chans demo_host)) @ [p] \<and>
     msg_callback ref_oneshot (\<lambda>n. n + 22) p (s'\<lparr>host := demo_pop (host s')\<rparr>) = Some s'' \<and>
     fst (receiver_poll ref_oneshot r NoopWaker (courier_chans s'')) = Ready (Inr (20 + 22))"
    by (auto simp: demo_thread_def no_closures_def)
  with c show ?thesis by (fastforce simp: no_closures_def demo_host_def)
qed

text \<open>
  A message SPDK refuses stays boxed with nobody to free it, and the receiver of the call never
  resolves: \<open>send\<close> does not look at the return code.
\<close>

lemma call_refused_hangs:
  assumes os: "oneshot_spec os view" and ok: "boxes_ok (closures s)"
    and con: "send_contract api t queue pop"
    and c: "handle_call api os (ThreadHandle t) f s = (r, s')"
    and ref: "\<And>p w. fst (spdk_thread_send_msg api t p w) \<noteq> 0"
  shows "queue (host s') = queue (host s) \<and> view (courier_chans s') (rx r) = Open \<and>
     (\<exists>p. cells (closures s) p = None \<and> cells (closures s') p = Some (RunAndSend f (CompletionSender (rx r))))"
proof -
  obtain ch c' where ch: "os_channel os (courier_chans s) = (ch, c')" by fastforce
  obtain p h where p: "box_into_raw (RunAndSend f (CompletionSender ch)) (closures s) = (p, h)" by fastforce
  obtain rc w' where w': "spdk_thread_send_msg api t p (host s) = (rc, w')" by fastforce
  with ref have rc: "rc \<noteq> 0" by (metis fst_conv)
  have "r = CompletionReceiver ch" and s': "s' = s\<lparr>courier_chans := c', closures := h, host := w'\<rparr>"
    using c ch p w' by (auto simp: handle_call_def completion_def send_def)
  with oneshot_channel(2) [OF os ch] send_contractD [OF con w'] rc box.into_contents [OF p]
    box.into_fresh [OF ok p] show ?thesis by auto
qed

section \<open>Concurrent initialisation\<close>

text \<open>
  \<open>thread_lib_init\<close> called by any number of OS threads at once, one step for each access to the shared
  flag and each end of the call into SPDK.
\<close>

datatype init_pc = Calling | InLib | LibFailed i32 | ReturnedOk | ReturnedErr i32

record init_state =
  flag :: bool
  inits :: nat
  pc :: "nat \<Rightarrow> init_pc"

inductive init_step :: "init_state \<Rightarrow> init_state \<Rightarrow> bool" where
  swap_set: "pc S i = Calling \<Longrightarrow> flag S \<Longrightarrow> init_step S (S\<lparr>pc := (pc S)(i := ReturnedOk)\<rparr>)"
| swap_clear: "pc S i = Calling \<Longrightarrow> \<not> flag S \<Longrightarrow>
     init_step S (S\<lparr>flag := True, pc := (pc S)(i := InLib)\<rparr>)"
| lib_ok: "pc S i = InLib \<Longrightarrow>
     init_step S (S\<lparr>inits := Suc (inits S), pc := (pc S)(i := ReturnedOk)\<rparr>)"
| lib_fail: "pc S i = InLib \<Longrightarrow> rc \<noteq> 0 \<Longrightarrow> init_step S (S\<lparr>pc := (pc S)(i := LibFailed rc)\<rparr>)"
| reset: "pc S i = LibFailed rc \<Longrightarrow>
     init_step S (S\<lparr>flag := False, pc := (pc S)(i := ReturnedErr rc)\<rparr>)"

definition init_start :: init_state where
  "init_start = \<lparr>flag = False, inits = 0, pc = (\<lambda>_. Calling)\<rparr>"

definition busy :: "init_pc \<Rightarrow> bool" where
  "busy x \<longleftrightarrow> x = InLib \<or> (\<exists>rc. x = LibFailed rc)"

definition init_inv :: "init_state \<Rightarrow> bool" where
  "init_inv S \<longleftrightarrow> (\<forall>i j. busy (pc S i) \<longrightarrow> busy (pc S j) \<longrightarrow> i = j) \<and>
     (flag S \<longleftrightarrow> inits S = 1 \<or> (\<exists>i. busy (pc S i))) \<and>
     inits S \<le> 1 \<and> (inits S = 1 \<longrightarrow> (\<forall>i. \<not> busy (pc S i)))"

lemma busy_simps [simp]:
  "busy InLib" "busy (LibFailed rc)" "\<not> busy Calling" "\<not> busy ReturnedOk" "\<not> busy (ReturnedErr rc)"
  by (simp_all add: busy_def)

lemma init_inv_step:
  assumes inv: "init_inv S" and step: "init_step S T"
  shows "init_inv T"
  using step
proof cases
  case (swap_set i)
  with inv show ?thesis unfolding init_inv_def by (simp, metis busy_simps(3))
next
  case (swap_clear i)
  with inv show ?thesis unfolding init_inv_def by auto
next
  case (lib_ok i)
  then have "busy (pc S i)" by simp
  with inv have "inits S = 0" "flag S" "\<And>j. busy (pc S j) \<Longrightarrow> j = i"
    unfolding init_inv_def by (auto simp: le_Suc_eq)
  with lib_ok show ?thesis unfolding init_inv_def by auto
next
  case (lib_fail i rc)
  then have "busy (pc S i)" by simp
  with inv have "inits S = 0" "flag S" "\<And>j. busy (pc S j) \<Longrightarrow> j = i"
    unfolding init_inv_def by (auto simp: le_Suc_eq)
  with lib_fail show ?thesis unfolding init_inv_def by auto
next
  case (reset i rc)
  then have "busy (pc S i)" by simp
  with inv have "inits S = 0" "flag S" "\<And>j. busy (pc S j) \<Longrightarrow> j = i"
    unfolding init_inv_def by (auto simp: le_Suc_eq)
  with reset show ?thesis unfolding init_inv_def by auto
qed

text \<open>
  C24: However the OS threads that call \<open>thread_lib_init\<close> interleave, at most one of them is ever inside
  SPDK's initialiser or about to report its failure, SPDK's initialiser succeeds at most once, and
  nobody enters it after that.
\<close>

theorem init_mutual_exclusion:
  assumes "init_step\<^sup>*\<^sup>* init_start S"
  shows "(busy (pc S i) \<longrightarrow> busy (pc S j) \<longrightarrow> i = j) \<and> inits S \<le> 1 \<and> (inits S = 1 \<longrightarrow> \<not> busy (pc S i))"
proof -
  from assms have "init_inv S"
  proof induction
    case base
    show ?case by (simp add: init_inv_def init_start_def)
  next
    case (step T U)
    then show ?case by (blast intro: init_inv_step)
  qed
  then show ?thesis unfolding init_inv_def by blast
qed

lemma init_race_run:
  "init_step\<^sup>*\<^sup>* init_start \<lparr>flag = True, inits = 0, pc = (\<lambda>_. Calling)(0 := InLib, 1 := ReturnedOk)\<rparr>"
proof -
  let ?S = "\<lparr>flag = True, inits = 0, pc = (\<lambda>_. Calling)(0 := InLib)\<rparr>"
  have "init_step init_start ?S"
    using swap_clear [of init_start 0] by (simp add: init_start_def)
  moreover have "init_step ?S \<lparr>flag = True, inits = 0, pc = (\<lambda>_. Calling)(0 := InLib, 1 := ReturnedOk)\<rparr>"
    using swap_set [of ?S 1] by simp
  ultimately show ?thesis by (meson converse_rtranclp_into_rtranclp r_into_rtranclp)
qed

theorem init_mutual_exclusion_witness:
  "\<exists>S. init_step\<^sup>*\<^sup>* init_start S \<and> busy (pc S 0) \<and> inits S \<le> 1 \<and> (\<forall>j. busy (pc S j) \<longrightarrow> 0 = j)"
proof -
  let ?S = "\<lparr>flag = True, inits = 0, pc = (\<lambda>_. Calling)(0 := InLib, 1 := ReturnedOk)\<rparr>"
  have "busy (pc ?S 0)" by simp
  with init_mutual_exclusion [OF init_race_run, of 0] init_race_run show ?thesis
    by (intro exI [of _ ?S]) blast
qed

text \<open>
  The flag is set before the library is up: a second OS thread can be told Ok while the first is still
  inside SPDK's initialiser, which may yet fail.
\<close>

lemma init_ok_too_early:
  "\<exists>S. init_step\<^sup>*\<^sup>* init_start S \<and> pc S 1 = ReturnedOk \<and> pc S 0 = InLib \<and> inits S = 0"
  using init_race_run by (intro exI [of _ "\<lparr>flag = True, inits = 0,
    pc = (\<lambda>_. Calling)(0 := InLib, 1 := ReturnedOk)\<rparr>"]) simp

end
