(* ===== verification/NvmeTransport.thy ===== *)
theory NvmeTransport
  imports Errors
begin

text \<open>
  \<open>spdk-io/src/nvme/transport.rs\<close>: transport identifiers, a C struct of fixed-size character arrays.
  The sizes of the arrays and the numbers of the transport types come from generated bindings and are
  the parameter \<open>trid_layout\<close>. An \<open>i8\<close> of an array is the byte it holds, a \<open>char\<close>.
\<close>

record trid_layout =
  trstring_size :: nat
  traddr_size :: nat
  trsvcid_size :: nat
  subnqn_size :: nat
  TRANSPORT_PCIE :: u32
  TRANSPORT_TCP :: u32
  TRANSPORT_RDMA :: u32
  ADRFAM_IPV4 :: u32

text \<open>Every array has room for a terminator.\<close>

definition layout_ok :: "trid_layout \<Rightarrow> bool" where
  "layout_ok L \<longleftrightarrow> 5 \<le> trstring_size L \<and> 0 < traddr_size L \<and> 0 < trsvcid_size L \<and> 0 < subnqn_size L"

record transport_id =
  trstring :: string
  trtype :: u32
  adrfam :: u32
  traddr :: string
  trsvcid :: string
  trid_subnqn :: string

definition zeroed_trid :: "trid_layout \<Rightarrow> transport_id" where
  "zeroed_trid L = \<lparr>trstring = replicate (trstring_size L) nul, trtype = 0, adrfam = 0,
     traddr = replicate (traddr_size L) nul, trsvcid = replicate (trsvcid_size L) nul,
     trid_subnqn = replicate (subnqn_size L) nul\<rparr>"

text \<open>The loop \<open>for (i, &byte) in bytes.iter().enumerate() { field[i] = byte }\<close>.\<close>

fun write_from :: "nat \<Rightarrow> string \<Rightarrow> string \<Rightarrow> string" where
  "write_from i [] field = field"
| "write_from i (b # bs) field = write_from (Suc i) bs (field[i := b])"

definition nat_to_string :: "nat \<Rightarrow> string" where
  "nat_to_string n = int_to_string (int n)"

definition copy_to_field :: "string \<Rightarrow> string \<Rightarrow> string \<Rightarrow> (error, string) result" where
  "copy_to_field field v name =
     (let max_len = length field - 1
      in if length v > max_len
         then Inl (InvalidArgument (name @ '' too long: '' @ nat_to_string (length v) @ '' (max '' @
                nat_to_string max_len @ '')''))
         else Inr (write_from 0 v field))"

definition field_to_str :: "string \<Rightarrow> string" where
  "field_to_str field = takeWhile (\<lambda>c. c \<noteq> nul) field"

definition pcie :: "trid_layout \<Rightarrow> string \<Rightarrow> (error, transport_id) result" where
  "pcie L addr =
     (let trid = (zeroed_trid L)\<lparr>trtype := TRANSPORT_PCIE L\<rparr>
      in case copy_to_field (trstring trid) ''PCIe'' ''trstring'' of
           Inl e \<Rightarrow> Inl e
         | Inr x \<Rightarrow>
             let trid = trid\<lparr>trstring := x\<rparr>; max_len = length (traddr trid) - 1
             in if length addr > max_len
                then Inl (InvalidArgument (''PCI address too long: '' @ nat_to_string (length addr) @
                       '' (max '' @ nat_to_string max_len @ '')''))
                else Inr (trid\<lparr>traddr := write_from 0 addr (traddr trid)\<rparr>))"

definition tcp :: "trid_layout \<Rightarrow> string \<Rightarrow> string \<Rightarrow> string \<Rightarrow> (error, transport_id) result" where
  "tcp L addr port subnqn =
     (let trid = (zeroed_trid L)\<lparr>trtype := TRANSPORT_TCP L, adrfam := ADRFAM_IPV4 L\<rparr>
      in case copy_to_field (trstring trid) ''TCP'' ''trstring'' of
           Inl e \<Rightarrow> Inl e
         | Inr x \<Rightarrow> let trid = trid\<lparr>trstring := x\<rparr> in case copy_to_field (traddr trid) addr ''address'' of
           Inl e \<Rightarrow> Inl e
         | Inr x \<Rightarrow> let trid = trid\<lparr>traddr := x\<rparr> in case copy_to_field (trsvcid trid) port ''port'' of
           Inl e \<Rightarrow> Inl e
         | Inr x \<Rightarrow> let trid = trid\<lparr>trsvcid := x\<rparr> in case copy_to_field (trid_subnqn trid) subnqn ''subnqn'' of
           Inl e \<Rightarrow> Inl e
         | Inr x \<Rightarrow> Inr (trid\<lparr>trid_subnqn := x\<rparr>))"

definition rdma :: "trid_layout \<Rightarrow> string \<Rightarrow> string \<Rightarrow> string \<Rightarrow> (error, transport_id) result" where
  "rdma L addr port subnqn =
     (let trid = (zeroed_trid L)\<lparr>trtype := TRANSPORT_RDMA L, adrfam := ADRFAM_IPV4 L\<rparr>
      in case copy_to_field (trstring trid) ''RDMA'' ''trstring'' of
           Inl e \<Rightarrow> Inl e
         | Inr x \<Rightarrow> let trid = trid\<lparr>trstring := x\<rparr> in case copy_to_field (traddr trid) addr ''address'' of
           Inl e \<Rightarrow> Inl e
         | Inr x \<Rightarrow> let trid = trid\<lparr>traddr := x\<rparr> in case copy_to_field (trsvcid trid) port ''port'' of
           Inl e \<Rightarrow> Inl e
         | Inr x \<Rightarrow> let trid = trid\<lparr>trsvcid := x\<rparr> in case copy_to_field (trid_subnqn trid) subnqn ''subnqn'' of
           Inl e \<Rightarrow> Inl e
         | Inr x \<Rightarrow> Inr (trid\<lparr>trid_subnqn := x\<rparr>))"

text \<open>\<open>parse\<close> calls \<open>spdk_nvme_transport_id_parse\<close>, a parameter.\<close>

definition trid_parse ::
  "trid_layout \<Rightarrow> (transport_id \<Rightarrow> string \<Rightarrow> i32 \<times> transport_id) \<Rightarrow> string \<Rightarrow> (error, transport_id) result"
where
  "trid_parse L spdk_nvme_transport_id_parse s =
     (case cstring s of
        Inl e \<Rightarrow> Inl e
      | Inr c_str \<Rightarrow>
          (case spdk_nvme_transport_id_parse (zeroed_trid L) c_str of (rc, trid) \<Rightarrow>
             if rc \<noteq> 0 then Inl (InvalidArgument (''Failed to parse transport ID: '' @ s)) else Inr trid))"

definition transport_type :: "transport_id \<Rightarrow> u32" where
  "transport_type self = trtype self"

definition address :: "transport_id \<Rightarrow> string" where
  "address self = field_to_str (traddr self)"

definition service_id :: "transport_id \<Rightarrow> string" where
  "service_id self = field_to_str (trsvcid self)"

definition trid_get_subnqn :: "transport_id \<Rightarrow> string" where
  "trid_get_subnqn self = field_to_str (trid_subnqn self)"

text \<open>The name and the fields given to \<open>debug_struct\<close>.\<close>

definition debug_trid :: "trid_layout \<Rightarrow> transport_id \<Rightarrow> string \<times> (string \<times> string) list" where
  "debug_trid L self =
     (let ty = (if trtype self = TRANSPORT_PCIE L then ''PCIe''
                else if trtype self = TRANSPORT_TCP L then ''TCP''
                else if trtype self = TRANSPORT_RDMA L then ''RDMA''
                else ''Unknown'')
      in (''TransportId'', [(''trtype'', ty), (''traddr'', address self), (''trsvcid'', service_id self),
                            (''subnqn'', trid_get_subnqn self)]))"

section \<open>Fields\<close>

lemma write_from_append: "i = length xs \<Longrightarrow> length bs \<le> length ys \<Longrightarrow>
    write_from i bs (xs @ ys) = xs @ bs @ drop (length bs) ys"
proof (induction bs arbitrary: i xs ys)
  case (Cons b bs)
  then obtain y ys' where ys: "ys = y # ys'" by (cases ys) auto
  from Cons.IH [of "Suc i" "xs @ [b]" ys'] Cons.prems ys show ?case by (simp add: list_update_append)
qed simp

lemma copy_to_zeroed:
  "copy_to_field (replicate n nul) v name =
     (if length v > n - 1
      then Inl (InvalidArgument (name @ '' too long: '' @ nat_to_string (length v) @ '' (max '' @
             nat_to_string (n - 1) @ '')''))
      else Inr (v @ replicate (n - length v) nul))"
  using write_from_append [of 0 "[]" v "replicate n nul"] by (auto simp: copy_to_field_def Let_def)

lemma field_to_str_padded:
  "field_to_str (v @ replicate (Suc n) nul) = takeWhile (\<lambda>c. c \<noteq> nul) v"
proof (cases "nul \<in> set v")
  case True
  then show ?thesis by (simp add: field_to_str_def takeWhile_append1)
next
  case False
  then have v: "takeWhile (\<lambda>c. c \<noteq> nul) v = v" by (auto simp: takeWhile_eq_all_conv)
  have "takeWhile (\<lambda>c. c \<noteq> nul) (v @ nul # replicate n nul) = v @ takeWhile (\<lambda>c. c \<noteq> nul) (nul # replicate n nul)"
    using False by (intro takeWhile_append2) auto
  then show ?thesis by (simp add: field_to_str_def v)
qed

lemma field_to_str_zeroed: "field_to_str (replicate n nul) = ''''"
  by (cases n) (simp_all add: field_to_str_def)

definition padded :: "nat \<Rightarrow> string \<Rightarrow> string" where
  "padded n s = s @ replicate (n - length s) nul"

lemma field_to_str_padded':
  "length s < n \<Longrightarrow> nul \<notin> set s \<Longrightarrow> field_to_str (padded n s) = s"
proof -
  assume "length s < n" "nul \<notin> set s"
  moreover from this have "takeWhile (\<lambda>c. c \<noteq> nul) s = s" by (auto simp: takeWhile_eq_all_conv)
  ultimately show ?thesis
    using field_to_str_padded [of s "n - length s - 1"]
    by (simp add: padded_def Suc_diff_Suc del: replicate_Suc)
qed

definition too_long :: "string \<Rightarrow> string \<Rightarrow> nat \<Rightarrow> error" where
  "too_long name s n = InvalidArgument (name @ '' too long: '' @ nat_to_string (length s) @ '' (max '' @
     nat_to_string (n - 1) @ '')'')"

lemma copy_to_zeroed': "0 < n \<Longrightarrow> copy_to_field (replicate n nul) s name =
    (if length s < n then Inr (padded n s) else Inl (too_long name s n))"
  by (auto simp: copy_to_zeroed padded_def too_long_def)

text \<open>
  C39: A TCP identifier is made exactly when each of the address, the port and the subsystem name fits
  its field with a terminator; otherwise the error names the first that does not, its length and the
  most the field holds.
\<close>

theorem tcp_spec:
  assumes "layout_ok L"
  shows "tcp L addr port nqn =
     (if traddr_size L \<le> length addr then Inl (too_long ''address'' addr (traddr_size L))
      else if trsvcid_size L \<le> length port then Inl (too_long ''port'' port (trsvcid_size L))
      else if subnqn_size L \<le> length nqn then Inl (too_long ''subnqn'' nqn (subnqn_size L))
      else Inr \<lparr>trstring = padded (trstring_size L) ''TCP'', trtype = TRANSPORT_TCP L,
                adrfam = ADRFAM_IPV4 L, traddr = padded (traddr_size L) addr,
                trsvcid = padded (trsvcid_size L) port, trid_subnqn = padded (subnqn_size L) nqn\<rparr>)"
  using assms
  by (simp add: tcp_def zeroed_trid_def layout_ok_def copy_to_zeroed' Let_def not_less)

definition spdk_layout :: trid_layout where
  "spdk_layout = \<lparr>trstring_size = 33, traddr_size = 257, trsvcid_size = 33, subnqn_size = 224,
     TRANSPORT_PCIE = 256, TRANSPORT_TCP = 3, TRANSPORT_RDMA = 1, ADRFAM_IPV4 = 1\<rparr>"

lemma spdk_layout_ok: "layout_ok spdk_layout"
  by (simp add: layout_ok_def spdk_layout_def)

theorem tcp_spec_witness:
  "tcp spdk_layout ''127.0.0.1'' (replicate 33 CHR ''9'') ''nqn.test'' =
     Inl (too_long ''port'' (replicate 33 CHR ''9'') 33)"
  by (subst tcp_spec [OF spdk_layout_ok]) (simp add: spdk_layout_def)

text \<open>
  C27: An identifier made by \<open>tcp\<close> or \<open>rdma\<close> from strings without NUL bytes gives back exactly the
  address, the port and the subsystem name it was made from; one made by \<open>tcp\<close> has the TCP transport type
  and one made by \<open>rdma\<close> the RDMA transport type, both for IPv4.
\<close>

theorem trid_roundtrip:
  assumes "layout_ok L" "nul \<notin> set addr" "nul \<notin> set port" "nul \<notin> set nqn"
  shows "(tcp L addr port nqn = Inr t \<longrightarrow> address t = addr \<and> service_id t = port \<and> trid_get_subnqn t = nqn \<and>
       transport_type t = TRANSPORT_TCP L \<and> adrfam t = ADRFAM_IPV4 L) \<and>
     (rdma L addr port nqn = Inr t \<longrightarrow> address t = addr \<and> service_id t = port \<and> trid_get_subnqn t = nqn \<and>
       transport_type t = TRANSPORT_RDMA L \<and> adrfam t = ADRFAM_IPV4 L)"
  using assms
  by (auto simp: tcp_def rdma_def zeroed_trid_def layout_ok_def copy_to_zeroed' Let_def address_def
      service_id_def trid_get_subnqn_def transport_type_def field_to_str_padded' split: if_splits)

theorem trid_roundtrip_witness:
  "(\<exists>t. rdma spdk_layout ''10.0.0.1'' ''4420'' ''nqn.test'' = Inr t \<and> address t = ''10.0.0.1'' \<and>
     service_id t = ''4420'' \<and> trid_get_subnqn t = ''nqn.test'' \<and> transport_type t = 1) \<and>
   (\<exists>t. tcp spdk_layout ''10.0.0.1'' ''4420'' ''nqn.test'' = Inr t \<and> transport_type t = 3)"
proof -
  obtain t u where t: "rdma spdk_layout ''10.0.0.1'' ''4420'' ''nqn.test'' = Inr t"
    and u: "tcp spdk_layout ''10.0.0.1'' ''4420'' ''nqn.test'' = Inr u"
    by (simp add: rdma_def tcp_def zeroed_trid_def spdk_layout_def copy_to_zeroed' Let_def)
  have n: "nul \<notin> set ''10.0.0.1''" "nul \<notin> set ''4420''" "nul \<notin> set ''nqn.test''" by (simp_all add: nul_def)
  from trid_roundtrip [OF spdk_layout_ok n, of t] trid_roundtrip [OF spdk_layout_ok n, of u] t u show ?thesis
    by (simp add: spdk_layout_def)
qed

text \<open>
  A PCIe identifier gives back its address, up to the first NUL byte of the string it was made from
  (the constructors do not reject such a byte), and has no port and no subsystem name.
\<close>

theorem pcie_roundtrip:
  assumes "layout_ok L"
  shows "(case pcie L addr of
      Inl e \<Rightarrow> traddr_size L \<le> length addr \<and> e = too_long ''PCI address'' addr (traddr_size L)
    | Inr t \<Rightarrow> length addr < traddr_size L \<and> address t = takeWhile (\<lambda>c. c \<noteq> nul) addr \<and>
        service_id t = '''' \<and> trid_get_subnqn t = '''' \<and> transport_type t = TRANSPORT_PCIE L)"
proof (cases "length addr < traddr_size L")
  case True
  then have "write_from 0 addr (replicate (traddr_size L) nul) =
      addr @ replicate (Suc (traddr_size L - length addr - 1)) nul"
    using write_from_append [of 0 "[]" addr "replicate (traddr_size L) nul"]
    by (simp add: Suc_diff_Suc del: replicate_Suc)
  with True assms have "pcie L addr = Inr ((zeroed_trid L)\<lparr>trtype := TRANSPORT_PCIE L,
      trstring := padded (trstring_size L) ''PCIe'',
      traddr := addr @ replicate (Suc (traddr_size L - length addr - 1)) nul\<rparr>)"
    by (auto simp: pcie_def zeroed_trid_def layout_ok_def copy_to_zeroed' Let_def simp del: replicate_Suc)
  with True show ?thesis
    by (simp add: zeroed_trid_def address_def service_id_def trid_get_subnqn_def transport_type_def
        field_to_str_padded field_to_str_zeroed del: replicate_Suc)
next
  case False
  with assms have "traddr_size L - 1 < length addr" unfolding layout_ok_def by linarith
  with False assms show ?thesis
    by (simp add: pcie_def zeroed_trid_def layout_ok_def copy_to_zeroed' Let_def too_long_def)
qed

theorem pcie_roundtrip_witness:
  "\<exists>t. pcie spdk_layout ''0000:00:04.0'' = Inr t \<and> address t = ''0000:00:04.0''"
proof -
  obtain t where t: "pcie spdk_layout ''0000:00:04.0'' = Inr t"
    by (simp add: pcie_def zeroed_trid_def spdk_layout_def copy_to_zeroed' Let_def)
  from pcie_roundtrip [OF spdk_layout_ok, of "''0000:00:04.0''"] t show ?thesis by (simp add: nul_def)
qed

text \<open>
  The type of an identifier: every array has the size of its C field and holds a terminator, which is
  what SPDK's functions on it rely on.
\<close>

definition c_field :: "nat \<Rightarrow> string \<Rightarrow> bool" where
  "c_field n f \<longleftrightarrow> length f = n \<and> nul \<in> set f"

definition trid_wf :: "trid_layout \<Rightarrow> transport_id \<Rightarrow> bool" where
  "trid_wf L t \<longleftrightarrow> c_field (trstring_size L) (trstring t) \<and> c_field (traddr_size L) (traddr t) \<and>
     c_field (trsvcid_size L) (trsvcid t) \<and> c_field (subnqn_size L) (trid_subnqn t)"

lemma c_field_zeroed: "0 < n \<Longrightarrow> c_field n (replicate n nul)"
  by (simp add: c_field_def)

lemma c_field_padded: "length s < n \<Longrightarrow> c_field n (padded n s)"
  by (simp add: c_field_def padded_def)

lemma copy_to_field_wf: "0 < n \<Longrightarrow> copy_to_field (replicate n nul) v name = Inr f \<Longrightarrow> c_field n f"
  by (auto simp: copy_to_zeroed' c_field_padded split: if_splits)

lemma c_field_str: "c_field n f \<Longrightarrow> length (field_to_str f) < n \<and> take (length (field_to_str f)) f @ [nul] =
    take (Suc (length (field_to_str f))) f"
proof -
  assume f: "c_field n f"
  let ?k = "length (field_to_str f)"
  from f have "takeWhile (\<lambda>c. c \<noteq> nul) f \<noteq> f" using set_takeWhileD unfolding c_field_def by metis
  then have "?k < length f" unfolding field_to_str_def by (metis length_takeWhile_le le_neq_implies_less takeWhile_eq_take take_all order_refl)
  moreover from this have "f ! ?k = nul" unfolding field_to_str_def using nth_length_takeWhile by fastforce
  ultimately show ?thesis using f by (simp add: c_field_def take_Suc_conv_app_nth)
qed

text \<open>
  C28: Every identifier that the constructors return is well formed, \<open>parse\<close> included if SPDK's parser
  keeps the arrays terminated: all arrays have their sizes and a terminator, so each string read back
  is shorter than its array and ends at the terminator.
\<close>

theorem trid_well_formed:
  assumes "layout_ok L" and "\<And>t s. trid_wf L t \<Longrightarrow> trid_wf L (snd (raw_parse t s))"
    and "pcie L addr = Inr t \<or> tcp L addr port nqn = Inr t \<or> rdma L addr port nqn = Inr t \<or>
      trid_parse L raw_parse str = Inr t"
  shows "trid_wf L t \<and> length (address t) < traddr_size L \<and> length (service_id t) < trsvcid_size L \<and>
     length (trid_get_subnqn t) < subnqn_size L"
proof -
  have pos: "0 < trstring_size L" "0 < traddr_size L" "0 < trsvcid_size L" "0 < subnqn_size L"
    using assms(1) by (auto simp: layout_ok_def)
  note z = pos [THEN c_field_zeroed]
  from assms(3) have "trid_wf L t"
  proof (elim disjE)
    assume "pcie L addr = Inr t"
    with pos z show ?thesis
      using write_from_append [of 0 "[]" addr "replicate (traddr_size L) nul"]
      by (auto simp: pcie_def zeroed_trid_def trid_wf_def Let_def c_field_def
          dest: copy_to_field_wf split: sum.splits if_splits)
  next
    assume "tcp L addr port nqn = Inr t"
    with pos show ?thesis
      by (auto simp: tcp_def zeroed_trid_def trid_wf_def Let_def dest: copy_to_field_wf split: sum.splits)
  next
    assume "rdma L addr port nqn = Inr t"
    with pos show ?thesis
      by (auto simp: rdma_def zeroed_trid_def trid_wf_def Let_def dest: copy_to_field_wf split: sum.splits)
  next
    assume "trid_parse L raw_parse str = Inr t"
    moreover have "trid_wf L (zeroed_trid L)" using z by (simp add: trid_wf_def zeroed_trid_def)
    from assms(2) [OF this] have "trid_wf L (snd (raw_parse (zeroed_trid L) c))" for c .
    ultimately show ?thesis
      by (auto simp: trid_parse_def split: sum.splits prod.splits if_splits dest: sym) (metis snd_conv)
  qed
  with c_field_str show ?thesis
    by (simp add: trid_wf_def address_def service_id_def trid_get_subnqn_def)
qed

theorem trid_well_formed_witness:
  "\<exists>t. tcp spdk_layout ''10.0.0.1'' ''4420'' ''nqn.test'' = Inr t \<and> trid_wf spdk_layout t"
proof -
  let ?t = "\<lparr>trstring = padded 33 ''TCP'', trtype = 3, adrfam = 1, traddr = padded 257 ''10.0.0.1'',
    trsvcid = padded 33 ''4420'', trid_subnqn = padded 224 ''nqn.test''\<rparr>"
  have t: "tcp spdk_layout ''10.0.0.1'' ''4420'' ''nqn.test'' = Inr ?t"
    by (simp add: tcp_def zeroed_trid_def Let_def copy_to_zeroed' spdk_layout_def)
  have "trid_wf spdk_layout ?t"
    by (rule trid_well_formed [OF spdk_layout_ok _ disjI2 [OF disjI1 [OF t]], where raw_parse = "\<lambda>t _. (0, t)",
        THEN conjunct1]) simp
  with t show ?thesis by blast
qed

end
