(* ===== verification/NvmeNs.thy ===== *)
theory NvmeNs
  imports AsyncIo Dma
begin

text \<open>
  \<open>spdk-io/src/nvme/namespace.rs\<close> and \<open>qpair.rs\<close>: namespaces, queue pairs, and asynchronous reads and
  writes whose completion carries the 16-bit status word of the NVMe completion queue entry.
\<close>

section \<open>Namespaces and queue pairs\<close>

record 'w ns_api =
  spdk_nvme_ns_get_id :: "ptr \<Rightarrow> 'w \<Rightarrow> u32"
  spdk_nvme_ns_get_sector_size :: "ptr \<Rightarrow> 'w \<Rightarrow> u32"
  spdk_nvme_ns_get_num_sectors :: "ptr \<Rightarrow> 'w \<Rightarrow> u64"
  spdk_nvme_ns_is_active :: "ptr \<Rightarrow> 'w \<Rightarrow> bool"
  spdk_nvme_ns_cmd_read :: "ptr \<Rightarrow> ptr \<Rightarrow> ptr \<Rightarrow> u64 \<Rightarrow> u32 \<Rightarrow> u32 \<Rightarrow> ('w, u16) submission"
  spdk_nvme_ns_cmd_write :: "ptr \<Rightarrow> ptr \<Rightarrow> ptr \<Rightarrow> u64 \<Rightarrow> u32 \<Rightarrow> u32 \<Rightarrow> ('w, u16) submission"
  spdk_nvme_qpair_process_completions :: "ptr \<Rightarrow> u32 \<Rightarrow> 'w \<Rightarrow> i32 \<times> 'w"
  spdk_nvme_ctrlr_free_io_qpair :: "ptr \<Rightarrow> 'w \<Rightarrow> 'w"

datatype nvme_namespace = NvmeNamespace (ns_ptr: ptr)

datatype nvme_qpair = NvmeQpair (qpair_ptr: ptr)

definition ns_from_ptr :: "ptr \<Rightarrow> nvme_namespace" where
  "ns_from_ptr p = NvmeNamespace p"

definition ns_id :: "'w ns_api \<Rightarrow> nvme_namespace \<Rightarrow> 'w \<Rightarrow> u32" where
  "ns_id api self w = spdk_nvme_ns_get_id api (ns_ptr self) w"

definition ns_sector_size :: "'w ns_api \<Rightarrow> nvme_namespace \<Rightarrow> 'w \<Rightarrow> u32" where
  "ns_sector_size api self w = spdk_nvme_ns_get_sector_size api (ns_ptr self) w"

definition ns_num_sectors :: "'w ns_api \<Rightarrow> nvme_namespace \<Rightarrow> 'w \<Rightarrow> u64" where
  "ns_num_sectors api self w = spdk_nvme_ns_get_num_sectors api (ns_ptr self) w"

text \<open>The product wraps, as in a release build.\<close>

definition ns_size :: "'w ns_api \<Rightarrow> nvme_namespace \<Rightarrow> 'w \<Rightarrow> u64" where
  "ns_size api self w = ns_num_sectors api self w * ucast (ns_sector_size api self w)"

definition ns_is_active :: "'w ns_api \<Rightarrow> nvme_namespace \<Rightarrow> 'w \<Rightarrow> bool" where
  "ns_is_active api self w = spdk_nvme_ns_is_active api (ns_ptr self) w"

definition ns_as_ptr :: "nvme_namespace \<Rightarrow> ptr" where
  "ns_as_ptr self = ns_ptr self"

definition qpair_from_ptr :: "ptr \<Rightarrow> nvme_qpair" where
  "qpair_from_ptr p = NvmeQpair p"

definition qpair_process_completions :: "'w ns_api \<Rightarrow> nvme_qpair \<Rightarrow> u32 \<Rightarrow> 'w \<Rightarrow> i32 \<times> 'w" where
  "qpair_process_completions api self max_completions w =
     spdk_nvme_qpair_process_completions api (qpair_ptr self) max_completions w"

definition qpair_as_ptr :: "nvme_qpair \<Rightarrow> ptr" where
  "qpair_as_ptr self = qpair_ptr self"

definition qpair_drop :: "'w ns_api \<Rightarrow> nvme_qpair \<Rightarrow> 'w \<Rightarrow> 'w" where
  "qpair_drop api self w = spdk_nvme_ctrlr_free_io_qpair api (qpair_ptr self) w"

section \<open>Commands\<close>

text \<open>The callback is given the status word of the completion entry.\<close>

definition nvme_io_complete ::
  "('c, io_result) oneshot \<Rightarrow> u16 \<Rightarrow> ptr \<Rightarrow> ('c, 'w) runtime \<Rightarrow> ('c, 'w) runtime option" where
  "nvme_io_complete os status_raw ctx s =
     (case sender_from_raw ctx (sender_boxes s) of
        None \<Rightarrow> None
      | Some (t, h) \<Rightarrow>
          let s = s\<lparr>sender_boxes := h\<rparr>;
              sct = drop_bit 9 status_raw AND 0x7;
              sc = drop_bit 1 status_raw AND 0xff
          in Some (if sct = 0 \<and> sc = 0
                   then s\<lparr>chans := sender_success os t () (chans s)\<rparr>
                   else s\<lparr>chans := sender_error os t (NvmeError (ucast sct) (ucast sc)) (chans s)\<rparr>))"

definition ns_read ::
  "('c, io_result) oneshot \<Rightarrow> 'w ns_api \<Rightarrow> nvme_namespace \<Rightarrow> nvme_qpair \<Rightarrow> dma_buf \<Rightarrow> u64 \<Rightarrow> u32 \<Rightarrow>
     future \<Rightarrow> ('c, 'w) runtime \<Rightarrow> ('c, 'w) resumed" where
  "ns_read os api self qpair buf lba num_blocks f s =
     (case f of
        Unstarted \<Rightarrow>
          (case completion os (chans s) of (t, r, c) \<Rightarrow>
           case sender_into_raw t (sender_boxes s) of (ctx, h) \<Rightarrow>
           case submit_call
                  (spdk_nvme_ns_cmd_read api (ns_ptr self) (qpair_as_ptr qpair) (dma_as_mut_ptr buf) lba num_blocks 0)
                  (nvme_io_complete os) ctx (s\<lparr>sender_boxes := h, chans := c\<rparr>) of
             None \<Rightarrow> None
           | Some (rc, s') \<Rightarrow>
               Some (if rc \<noteq> 0
                     then (Ready (Inl (from_errno (- rc))), Finished,
                           s'\<lparr>chans := os_drop_rx os (rx r) (chans s')\<rparr>)
                     else await_rx os r s'))
      | Awaiting r \<Rightarrow> Some (await_rx os r s)
      | Finished \<Rightarrow> None)"

definition ns_write ::
  "('c, io_result) oneshot \<Rightarrow> 'w ns_api \<Rightarrow> nvme_namespace \<Rightarrow> nvme_qpair \<Rightarrow> dma_buf \<Rightarrow> u64 \<Rightarrow> u32 \<Rightarrow>
     future \<Rightarrow> ('c, 'w) runtime \<Rightarrow> ('c, 'w) resumed" where
  "ns_write os api self qpair buf lba num_blocks f s =
     (case f of
        Unstarted \<Rightarrow>
          (case completion os (chans s) of (t, r, c) \<Rightarrow>
           case sender_into_raw t (sender_boxes s) of (ctx, h) \<Rightarrow>
           case submit_call
                  (spdk_nvme_ns_cmd_write api (ns_ptr self) (qpair_as_ptr qpair) (dma_as_ptr buf) lba num_blocks 0)
                  (nvme_io_complete os) ctx (s\<lparr>sender_boxes := h, chans := c\<rparr>) of
             None \<Rightarrow> None
           | Some (rc, s') \<Rightarrow>
               Some (if rc \<noteq> 0
                     then (Ready (Inl (from_errno (- rc))), Finished,
                           s'\<lparr>chans := os_drop_rx os (rx r) (chans s')\<rparr>)
                     else await_rx os r s'))
      | Awaiting r \<Rightarrow> Some (await_rx os r s)
      | Finished \<Rightarrow> None)"

section \<open>Commands as an instance of the protocol\<close>

datatype nvme_command =
    NvmeRead nvme_namespace nvme_qpair dma_buf u64 u32
  | NvmeWrite nvme_namespace nvme_qpair dma_buf u64 u32

fun nvme_submit :: "'w ns_api \<Rightarrow> nvme_command \<Rightarrow> ('w, u16) submission" where
  "nvme_submit api (NvmeRead ns q b lba n) =
     spdk_nvme_ns_cmd_read api (ns_ptr ns) (qpair_as_ptr q) (dma_as_mut_ptr b) lba n 0"
| "nvme_submit api (NvmeWrite ns q b lba n) =
     spdk_nvme_ns_cmd_write api (ns_ptr ns) (qpair_as_ptr q) (dma_as_ptr b) lba n 0"

fun nvme_resume ::
  "('c, io_result) oneshot \<Rightarrow> 'w ns_api \<Rightarrow> nvme_command \<Rightarrow> future \<Rightarrow> ('c, 'w) runtime \<Rightarrow>
     ('c, 'w) resumed" where
  "nvme_resume os api (NvmeRead ns q b lba n) f s = ns_read os api ns q b lba n f s"
| "nvme_resume os api (NvmeWrite ns q b lba n) f s = ns_write os api ns q b lba n f s"

text \<open>
  The NVMe specification, in arithmetic: bit 0 of the status word is the phase tag, bits 1 to 8 are the
  status code and bits 9 to 11 the status code type; the command succeeded if both are zero.
\<close>

definition nvme_decode :: "u16 \<Rightarrow> io_result" where
  "nvme_decode st =
     (let sc = unat st div 2 mod 256; sct = unat st div 512 mod 8
      in if sct = 0 \<and> sc = 0 then Inr () else Inl (NvmeError (of_nat sct) (of_nat sc)))"

lemma status_fields:
  fixes st :: u16
  shows "unat (drop_bit 9 st AND 0x7) = unat st div 512 mod 8"
    and "unat (drop_bit 1 st AND 0xff) = unat st div 2 mod 256"
  using unat_field [of 9 st 3] unat_field [of 1 st 8]
  by (simp_all only: mask_eq_exp_minus_1) simp_all

lemma nvme_io_complete_eq:
  "nvme_io_complete os st p s = complete_boxed os nvme_decode (\<lambda>_ w. w) st p s"
proof -
  have zero: "drop_bit 9 st AND 0x7 = 0 \<longleftrightarrow> unat st div 512 mod 8 = 0"
    "drop_bit 1 st AND 0xff = 0 \<longleftrightarrow> unat st div 2 mod 256 = 0"
    by (simp_all only: status_fields flip: unat_eq_0)
  have "ucast (drop_bit 9 st AND 0x7) = (of_nat (unat st div 512 mod 8) :: u8)"
    "ucast (drop_bit 1 st AND 0xff) = (of_nat (unat st div 2 mod 256) :: u8)"
    by (simp_all only: ucast_of_nat status_fields)
  with zero show ?thesis
    by (simp only: nvme_io_complete_def complete_boxed_def nvme_decode_def Let_def sender_complete_def
        sender_success_def sender_error_def)
      (simp split: option.split)
qed

interpretation nvme_io: io_protocol os "nvme_resume os api" "nvme_submit api" "nvme_io_complete os"
    "\<lambda>rc. from_errno (- rc)" nvme_decode "\<lambda>_ w. w"
  for os :: "('c, io_result) oneshot" and api :: "'w ns_api"
proof
  fix q and r and s :: "('c, 'w) runtime" and st :: u16 and p
  show "nvme_resume os api q Unstarted s =
      submit_then_await os (nvme_submit api q) (nvme_io_complete os) (\<lambda>rc. from_errno (- rc)) s"
    by (cases q) (simp_all add: ns_read_def ns_write_def submit_then_await_def)
  show "nvme_resume os api q (Awaiting r) s = Some (await_rx os r s)"
    by (cases q) (simp_all add: ns_read_def ns_write_def)
  show "nvme_io_complete os st p s = complete_boxed os nvme_decode (\<lambda>_ w. w) st p s"
    by (rule nvme_io_complete_eq)
qed

definition demo_ns :: "ptr set ns_api" where
  "demo_ns = \<lparr>spdk_nvme_ns_get_id = (\<lambda>_ _. 1), spdk_nvme_ns_get_sector_size = (\<lambda>_ _. 4096),
     spdk_nvme_ns_get_num_sectors = (\<lambda>_ _. 1024), spdk_nvme_ns_is_active = (\<lambda>_ _. True),
     spdk_nvme_ns_cmd_read = (\<lambda>_ _ _ _ _ _. demo_submit),
     spdk_nvme_ns_cmd_write = (\<lambda>_ _ _ _ _ _. demo_submit),
     spdk_nvme_qpair_process_completions = (\<lambda>_ _ w. (0, w)),
     spdk_nvme_ctrlr_free_io_qpair = (\<lambda>_ w. w)\<rparr>"

lemma demo_ns_submit: "nvme_submit demo_ns q = demo_submit"
  by (cases q) (simp_all add: demo_ns_def)

lemma demo_ns_contract: "submit_contract (nvme_submit demo_ns) (\<lambda>_ w. w) (\<lambda>w. w)"
  by (rule demo_contract) (rule demo_ns_submit)

abbreviation demo_ns_reachable where
  "demo_ns_reachable q S \<equiv> io_reachable ref_oneshot (nvme_resume ref_oneshot demo_ns)
     (nvme_submit demo_ns) (nvme_io_complete ref_oneshot) (\<lambda>w. w) (\<lambda>_. q) S"

lemma demo_ns_run:
  obtains S r where "demo_ns_reachable q S" "tasks S 0 = Some (Awaiting r)" "told S (rx r) = Some st"
proof -
  have "fst (nvme_submit demo_ns q p w) = (0, None)" for p w
    by (simp add: demo_ns_submit demo_submit_def)
  from nvme_io.completes(1) [OF ref_oneshot_spec demo_ns_contract this _ demo_runtime_ok(1,2), where st = st]
  show thesis using that by (auto simp: demo_runtime_ok(3))
qed

lemma demo_ns_done:
  obtains S where "demo_ns_reachable q S" "outcome S 0 = Some (nvme_decode st)"
proof -
  have "fst (nvme_submit demo_ns q p w) = (0, None)" for p w
    by (simp add: demo_ns_submit demo_submit_def)
  from nvme_io.completes(2) [OF ref_oneshot_spec demo_ns_contract this _ demo_runtime_ok(1,2), where st = st]
  show thesis using that by (auto simp: demo_runtime_ok(3))
qed

section \<open>Properties\<close>

text \<open>
  C7: The completion callback frees its box and delivers success exactly when bits 1 to 11 of the status
  word are zero, whatever the phase tag and the bits above; otherwise it delivers the error with the
  status code type of bits 9 to 11 and the status code of bits 1 to 8.
\<close>

theorem nvme_status_delivered:
  assumes "oneshot_spec os view" "boxes_ok (sender_boxes s)" "cells (sender_boxes s) p = Some ch"
    and "view (chans s) ch = Open"
  shows "\<exists>s'. nvme_io_complete os st p s = Some s' \<and> cells (sender_boxes s') p = None \<and>
     view (chans s') = (view (chans s))(ch := Sent
       (if unat st div 2 mod 2048 = 0 then Inr ()
        else Inl (NvmeError (of_nat (unat st div 512 mod 8)) (of_nat (unat st div 2 mod 256)))))"
proof -
  have "n mod 2048 = 256 * (n div 256 mod 8) + n mod 256" for n :: nat
    using mod_mult2_eq [of n 256 8] by simp
  from this [of "unat st div 2"]
  have "unat st div 2 mod 2048 = 0 \<longleftrightarrow> unat st div 512 mod 8 = 0 \<and> unat st div 2 mod 256 = 0"
    by (simp add: div_mult2_eq [of _ 2 256, simplified])
  then have "nvme_decode st = (if unat st div 2 mod 2048 = 0 then Inr ()
      else Inl (NvmeError (of_nat (unat st div 512 mod 8)) (of_nat (unat st div 2 mod 256))))"
    by (simp add: nvme_decode_def Let_def)
  with complete_boxed_Some [OF assms(1-3), of nvme_decode "\<lambda>_ w. w" st] assms(4) show ?thesis
    unfolding nvme_io_complete_eq by auto
qed

theorem nvme_status_delivered_witness:
  "\<exists>s'. nvme_io_complete ref_oneshot 0x0103 1
       \<lparr>sender_boxes = \<lparr>next_box = 2, cells = [1 \<mapsto> 0]\<rparr>,
        chans = \<lparr>next_chan = 1, chan_state = (\<lambda>_. Open), chan_waker = (\<lambda>_. None)\<rparr>,
        dev = (), poll_cx = NoopWaker\<rparr> = Some s' \<and>
     ref_view (chans s') 0 = Sent (Inl (NvmeError 0 0x81))"
proof -
  let ?s = "\<lparr>sender_boxes = \<lparr>next_box = 2, cells = [1 \<mapsto> 0]\<rparr>,
        chans = \<lparr>next_chan = 1, chan_state = (\<lambda>_. Open), chan_waker = (\<lambda>_. None)\<rparr>,
        dev = (), poll_cx = NoopWaker\<rparr> :: (io_result chan_store, unit) runtime"
  have "boxes_ok (sender_boxes ?s)" "cells (sender_boxes ?s) 1 = Some 0" "ref_view (chans ?s) 0 = Open"
    by (simp_all add: boxes_ok_def ref_view_def)
  from nvme_status_delivered [OF ref_oneshot_spec this, of "0x0103"] show ?thesis by auto
qed

text \<open>
  C6: Whatever commands run, in any interleaving with cancellations and completions: if SPDK refused the
  command's own submission, the command returns exactly the error number of that submission, made
  positive; otherwise the decoded status word of this very command, never of another one.
\<close>

theorem nvme_io_outcome:
  assumes "oneshot_spec os view" "submit_contract (nvme_submit api) (\<lambda>_ w. w) pending"
    and "io_reachable os (nvme_resume os api) (nvme_submit api) (nvme_io_complete os) pending job S"
    and "outcome S i = Some r"
  shows "case rejected S i of
       Some rc \<Rightarrow> rc \<noteq> 0 \<and> r = Inl (Os (- rc)) \<and> (\<exists>p w w'. nvme_submit api (job i) p w = ((rc, None), w'))
     | None \<Rightarrow> \<exists>ch st. chan_of S i = Some ch \<and> (\<forall>j. chan_of S j = Some ch \<longrightarrow> j = i) \<and>
         told S ch = Some st \<and> r = nvme_decode st"
  using nvme_io.outcome_justified [OF assms] nvme_io.own_channel [OF assms(1-3)]
  by (auto simp: from_errno_def split: option.splits)

theorem nvme_io_outcome_witness:
  "\<exists>S. demo_ns_reachable (NvmeRead (NvmeNamespace 3) (NvmeQpair 4) \<lparr>buf_ptr = 16, buf_len = 4096\<rparr> 0 1) S \<and>
     outcome S 0 = Some (Inr ()) \<and> (\<exists>ch st. chan_of S 0 = Some ch \<and> told S ch = Some st \<and> nvme_decode st = Inr ())"
proof -
  let ?q = "NvmeRead (NvmeNamespace 3) (NvmeQpair 4) \<lparr>buf_ptr = 16, buf_len = 4096\<rparr> 0 1"
  obtain S where S: "demo_ns_reachable ?q S" "outcome S 0 = Some (nvme_decode 1)"
    by (rule demo_ns_done)
  have one: "nvme_decode 1 = Inr ()" by (simp add: nvme_decode_def)
  from nvme_io_outcome [OF ref_oneshot_spec demo_ns_contract S] S one show ?thesis
    by (auto split: option.splits)
qed

text \<open>
  In every reachable state the completion callback is defined for any context SPDK holds and any
  status, an unfinished command can be polled without a panic, and the live boxed senders are the
  commands in flight and one leaked sender for each refused submission.
\<close>

theorem nvme_io_safe:
  assumes "oneshot_spec os view" "submit_contract (nvme_submit api) (\<lambda>_ w. w) pending"
    and "io_reachable os (nvme_resume os api) (nvme_submit api) (nvme_io_complete os) pending job S"
  shows "(\<forall>p \<in> pending (dev (rt S)). \<forall>st w. nvme_io_complete os st p ((rt S)\<lparr>dev := w\<rparr>) \<noteq> None) \<and>
     (\<forall>i f. tasks S i = Some f \<longrightarrow> f \<noteq> Finished \<longrightarrow> nvme_resume os api (job i) f (rt S) \<noteq> None) \<and>
     card (dom (cells (sender_boxes (rt S)))) = card (pending (dev (rt S))) + refused S"
  using nvme_io.callback_safe [OF assms] nvme_io.poll_safe [OF assms] nvme_io.live_boxes [OF assms]
  by blast

theorem nvme_io_safe_witness:
  "\<exists>S r. demo_ns_reachable (NvmeWrite (NvmeNamespace 3) (NvmeQpair 4) \<lparr>buf_ptr = 16, buf_len = 4096\<rparr> 0 1) S \<and>
     tasks S 0 = Some (Awaiting r) \<and>
     nvme_resume ref_oneshot demo_ns
       (NvmeWrite (NvmeNamespace 3) (NvmeQpair 4) \<lparr>buf_ptr = 16, buf_len = 4096\<rparr> 0 1) (Awaiting r) (rt S) \<noteq> None"
proof -
  let ?q = "NvmeWrite (NvmeNamespace 3) (NvmeQpair 4) \<lparr>buf_ptr = 16, buf_len = 4096\<rparr> 0 1"
  obtain S r where S: "demo_ns_reachable ?q S" "tasks S 0 = Some (Awaiting r)"
    using demo_ns_run [of ?q] by blast
  from nvme_io_safe [OF ref_oneshot_spec demo_ns_contract S(1)] S show ?thesis by blast
qed

lemma ns_size_mod:
  "unat (ns_size api ns w) = unat (ns_num_sectors api ns w) * unat (ns_sector_size api ns w) mod 2 ^ 64"
  by (simp add: ns_size_def unat_word_ariths)

end
