(* ===== verification/NvmeController.thy ===== *)
theory NvmeController
  imports Thread NvmeNs NvmeTransport
begin

text \<open>
  \<open>spdk-io/src/nvme/controller.rs\<close> and \<open>opts.rs\<close>: connecting to a controller, at once or by polling,
  its namespaces and its queue pairs. A pointer given to SPDK is null, or points to a value, or
  dangles: it was taken from a variable whose scope has ended, with the value it held.
\<close>

datatype 'a const_ptr = NullPtr | Pointee 'a | Dangling 'a

section \<open>Options\<close>

record nvme_ctrlr_opts =
  opt_num_io_queues :: "u32 option"
  opt_io_queue_size :: "u32 option"
  opt_admin_queue_size :: "u16 option"
  opt_keep_alive_timeout_ms :: "u32 option"

record nvme_qpair_opts =
  opt_qpair_io_queue_size :: "u32 option"
  opt_io_queue_requests :: "u32 option"

text \<open>The C structs: the fields the wrapper sets, and the others, which it leaves as SPDK's defaults.\<close>

record 'o native_ctrlr_opts =
  num_io_queues :: u32
  io_queue_size :: u32
  admin_queue_size :: u16
  keep_alive_timeout_ms :: u32
  other_ctrlr_opts :: 'o

record 'o native_qpair_opts =
  qpair_io_queue_size :: u32
  io_queue_requests :: u32
  other_qpair_opts :: 'o

record ('o, 'w) ctrlr_api =
  spdk_nvme_ctrlr_get_default_ctrlr_opts :: "'w \<Rightarrow> 'o native_ctrlr_opts"
  spdk_nvme_connect :: "transport_id \<Rightarrow> 'o native_ctrlr_opts const_ptr \<Rightarrow> 'w \<Rightarrow> ptr \<times> 'w"
  spdk_nvme_connect_async ::
    "transport_id \<Rightarrow> 'o native_ctrlr_opts const_ptr \<Rightarrow> 'w \<Rightarrow> (ptr \<times> ptr list) \<times> 'w"
  spdk_nvme_probe_poll_async :: "ptr \<Rightarrow> 'w \<Rightarrow> (i32 \<times> ptr list) \<times> 'w"
  spdk_nvme_ctrlr_get_num_ns :: "ptr \<Rightarrow> 'w \<Rightarrow> u32"
  spdk_nvme_ctrlr_get_ns :: "ptr \<Rightarrow> u32 \<Rightarrow> 'w \<Rightarrow> ptr"
  spdk_nvme_ctrlr_get_default_io_qpair_opts :: "ptr \<Rightarrow> 'w \<Rightarrow> 'o native_qpair_opts"
  spdk_nvme_ctrlr_alloc_io_qpair :: "ptr \<Rightarrow> 'o native_qpair_opts const_ptr \<Rightarrow> 'w \<Rightarrow> ptr \<times> 'w"
  spdk_nvme_ctrlr_process_admin_completions :: "ptr \<Rightarrow> 'w \<Rightarrow> i32 \<times> 'w"
  spdk_nvme_detach :: "ptr \<Rightarrow> 'w \<Rightarrow> 'w"

datatype nvme_controller = NvmeController (ctrlr_ptr: ptr)

section \<open>Connecting\<close>

text \<open>
  The match that computes \<open>opts_ptr\<close>: the struct is a variable of the arm, so the pointer the arm
  returns dangles.
\<close>

definition ctrlr_opts_ptr ::
  "('o, 'w) ctrlr_api \<Rightarrow> nvme_ctrlr_opts option \<Rightarrow> 'w \<Rightarrow> 'o native_ctrlr_opts const_ptr" where
  "ctrlr_opts_ptr api opts w =
     (case opts of
        Some opts \<Rightarrow>
          let native = spdk_nvme_ctrlr_get_default_ctrlr_opts api w;
              native = (case opt_num_io_queues opts of
                 Some n \<Rightarrow> native\<lparr>num_io_queues := n\<rparr> | None \<Rightarrow> native);
              native = (case opt_io_queue_size opts of
                 Some n \<Rightarrow> native\<lparr>io_queue_size := n\<rparr> | None \<Rightarrow> native);
              native = (case opt_admin_queue_size opts of
                 Some n \<Rightarrow> native\<lparr>admin_queue_size := n\<rparr> | None \<Rightarrow> native);
              native = (case opt_keep_alive_timeout_ms opts of
                 Some n \<Rightarrow> native\<lparr>keep_alive_timeout_ms := n\<rparr> | None \<Rightarrow> native)
          in Dangling native
      | None \<Rightarrow> NullPtr)"

definition connect ::
  "('o, 'w) ctrlr_api \<Rightarrow> transport_id \<Rightarrow> nvme_ctrlr_opts option \<Rightarrow> 'w process \<Rightarrow>
     (error, nvme_controller) result \<times> 'w process" where
  "connect api trid opts s =
     (let opts_ptr = ctrlr_opts_ptr api opts (spdk s)
      in case call (spdk_nvme_connect api trid opts_ptr) s of (ctrlr, s) \<Rightarrow>
           (ok_or (map_option NvmeController (nonnull ctrlr)) ControllerNotFound, s))"

text \<open>SPDK reports an attached controller by calling \<open>attach_cb\<close>, possibly several times in one call.\<close>

definition attach_cb :: "ptr \<Rightarrow> 'w process \<Rightarrow> 'w process" where
  "attach_cb ctrlr s = s\<lparr>ATTACHED_CTRLR := Some ctrlr\<rparr>"

definition call_attaching :: "('w \<Rightarrow> ('a \<times> ptr list) \<times> 'w) \<Rightarrow> 'w process \<Rightarrow> 'a \<times> 'w process" where
  "call_attaching f s = (case call f s of ((r, attached), s) \<Rightarrow> (r, fold attach_cb attached s))"

definition EAGAIN :: i32 where
  "EAGAIN = 11"

text \<open>The loop: \<open>None\<close> if SPDK answers \<open>-EAGAIN\<close> for ever.\<close>

partial_function (option) probe_loop ::
  "('o, 'w) ctrlr_api \<Rightarrow> 'w thread_api \<Rightarrow> current_thread \<Rightarrow> ptr \<Rightarrow> 'w process \<Rightarrow>
     ((error, unit) result \<times> 'w process) option" where
  "probe_loop api tapi thread probe_ctx s =
     (case call_attaching (spdk_nvme_probe_poll_async api probe_ctx) s of (rc, s) \<Rightarrow>
        if rc = 0 then Some (Inr (), s)
        else if rc = - EAGAIN then probe_loop api tapi thread probe_ctx (snd (current_poll tapi thread s))
        else Some (Inl (from_errno (- rc)), s))"

definition connect_async ::
  "('o, 'w) ctrlr_api \<Rightarrow> 'w thread_api \<Rightarrow> transport_id \<Rightarrow> nvme_ctrlr_opts option \<Rightarrow> 'w process \<Rightarrow>
     ((error, nvme_controller) result \<times> 'w process) option" where
  "connect_async api tapi trid opts s =
     (let s = s\<lparr>ATTACHED_CTRLR := None\<rparr>; opts_ptr = ctrlr_opts_ptr api opts (spdk s)
      in case call_attaching (spdk_nvme_connect_async api trid opts_ptr) s of (probe_ctx, s) \<Rightarrow>
        if probe_ctx = null then Some (Inl ControllerNotFound, s)
        else case get_current tapi s of
               None \<Rightarrow> Some (Inl (Os 22), s)
             | Some thread \<Rightarrow>
                 (case probe_loop api tapi thread probe_ctx s of
                    None \<Rightarrow> None
                  | Some (Inl e, s) \<Rightarrow> Some (Inl e, s)
                  | Some (Inr _, s) \<Rightarrow>
                      let attached = ATTACHED_CTRLR s; s = s\<lparr>ATTACHED_CTRLR := None\<rparr>
                      in Some (ok_or (map_option NvmeController (Option.bind attached nonnull))
                                 ControllerNotFound, s)))"

definition ctrlr_from_raw :: "ptr \<Rightarrow> nvme_controller" where
  "ctrlr_from_raw p = NvmeController p"

section \<open>Namespaces and queue pairs of a controller\<close>

definition num_namespaces :: "('o, 'w) ctrlr_api \<Rightarrow> nvme_controller \<Rightarrow> 'w \<Rightarrow> u32" where
  "num_namespaces api self w = spdk_nvme_ctrlr_get_num_ns api (ctrlr_ptr self) w"

definition namespace ::
  "('o, 'w) ctrlr_api \<Rightarrow> 'w ns_api \<Rightarrow> nvme_controller \<Rightarrow> u32 \<Rightarrow> 'w \<Rightarrow> nvme_namespace option" where
  "namespace api nsapi self nsid w =
     (if nsid = 0 \<or> nsid > num_namespaces api self w then None
      else case nonnull (spdk_nvme_ctrlr_get_ns api (ctrlr_ptr self) nsid w) of
             None \<Rightarrow> None
           | Some p \<Rightarrow> (let ns = ns_from_ptr p in if ns_is_active nsapi ns w then Some ns else None))"

definition alloc_io_qpair ::
  "('o, 'w) ctrlr_api \<Rightarrow> nvme_controller \<Rightarrow> nvme_qpair_opts option \<Rightarrow> 'w \<Rightarrow>
     (error, nvme_qpair) result \<times> 'w" where
  "alloc_io_qpair api self opts w =
     (let opts_ptr = (case opts of
            Some opts \<Rightarrow>
              let native = spdk_nvme_ctrlr_get_default_io_qpair_opts api (ctrlr_ptr self) w;
                  native = (case opt_qpair_io_queue_size opts of
                     Some n \<Rightarrow> native\<lparr>qpair_io_queue_size := n\<rparr> | None \<Rightarrow> native);
                  native = (case opt_io_queue_requests opts of
                     Some n \<Rightarrow> native\<lparr>io_queue_requests := n\<rparr> | None \<Rightarrow> native)
              in Dangling native
          | None \<Rightarrow> NullPtr)
      in case spdk_nvme_ctrlr_alloc_io_qpair api (ctrlr_ptr self) opts_ptr w of (qpair, w) \<Rightarrow>
           (ok_or (map_option qpair_from_ptr (nonnull qpair)) QpairAlloc, w))"

definition process_admin_completions ::
  "('o, 'w) ctrlr_api \<Rightarrow> nvme_controller \<Rightarrow> 'w \<Rightarrow> i32 \<times> 'w" where
  "process_admin_completions api self w =
     spdk_nvme_ctrlr_process_admin_completions api (ctrlr_ptr self) w"

definition ctrlr_as_ptr :: "nvme_controller \<Rightarrow> ptr" where
  "ctrlr_as_ptr self = ctrlr_ptr self"

definition ctrlr_drop :: "('o, 'w) ctrlr_api \<Rightarrow> nvme_controller \<Rightarrow> 'w \<Rightarrow> 'w" where
  "ctrlr_drop api self w = spdk_nvme_detach api (ctrlr_ptr self) w"

section \<open>Properties\<close>

lemma probe_loop_simps:
  assumes "call_attaching (spdk_nvme_probe_poll_async api ctx) s = (rc, s')"
  shows "rc = 0 \<Longrightarrow> probe_loop api tapi th ctx s = Some (Inr (), s')"
    and "rc = - EAGAIN \<Longrightarrow>
      probe_loop api tapi th ctx s = probe_loop api tapi th ctx (snd (current_poll tapi th s'))"
    and "rc \<noteq> 0 \<Longrightarrow> rc \<noteq> - EAGAIN \<Longrightarrow> probe_loop api tapi th ctx s = Some (Inl (from_errno (- rc)), s')"
  using assms by (subst probe_loop.simps; simp add: EAGAIN_def)+

text \<open>One round of the loop that answers \<open>-EAGAIN\<close>.\<close>

definition probe_round ::
  "('o, 'w) ctrlr_api \<Rightarrow> 'w thread_api \<Rightarrow> current_thread \<Rightarrow> ptr \<Rightarrow> 'w process \<Rightarrow> 'w process" where
  "probe_round api tapi thread ctx s =
     snd (current_poll tapi thread (snd (call_attaching (spdk_nvme_probe_poll_async api ctx) s)))"

definition probe_rc :: "('o, 'w) ctrlr_api \<Rightarrow> ptr \<Rightarrow> 'w process \<Rightarrow> i32" where
  "probe_rc api ctx s = fst (call_attaching (spdk_nvme_probe_poll_async api ctx) s)"

lemma probe_loop_rounds:
  assumes "\<And>k. k < n \<Longrightarrow> probe_rc api ctx ((probe_round api tapi th ctx ^^ k) s) = - EAGAIN"
  shows "probe_loop api tapi th ctx s = probe_loop api tapi th ctx ((probe_round api tapi th ctx ^^ n) s)"
  using assms
proof (induction n)
  case (Suc n)
  then have "probe_loop api tapi th ctx s = probe_loop api tapi th ctx ((probe_round api tapi th ctx ^^ n) s)"
    by simp
  moreover obtain rc s' where call:
    "call_attaching (spdk_nvme_probe_poll_async api ctx) ((probe_round api tapi th ctx ^^ n) s) = (rc, s')"
    by fastforce
  moreover from this Suc.prems [of n] have "rc = - EAGAIN" by (simp add: probe_rc_def)
  moreover from call have "(probe_round api tapi th ctx ^^ Suc n) s = snd (current_poll tapi th s')"
    by (simp add: probe_round_def [of _ _ _ _ "(probe_round api tapi th ctx ^^ n) s"])
  ultimately show ?case using probe_loop_simps(2) [OF call] by simp
qed simp

text \<open>
  C35: \<open>connect_async\<close> polls while SPDK answers \<open>-EAGAIN\<close>, polling the current SPDK thread once after each
  such answer, and returns at the first other answer: if it is 0, with the controller SPDK attached
  last, or ControllerNotFound if there is none or it is null; otherwise with the error number made
  positive. In the first case the slot for the attached controller is empty again.
\<close>

theorem connect_async_returns:
  assumes "call_attaching (spdk_nvme_connect_async api trid (ctrlr_opts_ptr api opts (spdk s)))
      (s\<lparr>ATTACHED_CTRLR := None\<rparr>) = (ctx, s0)" "ctx \<noteq> null"
    and "get_current tapi s0 = Some th"
    and "\<And>k. k < n \<Longrightarrow> probe_rc api ctx ((probe_round api tapi th ctx ^^ k) s0) = - EAGAIN"
    and "call_attaching (spdk_nvme_probe_poll_async api ctx) ((probe_round api tapi th ctx ^^ n) s0) = (rc, s1)"
    and "rc \<noteq> - EAGAIN"
  shows "connect_async api tapi trid opts s = Some (if rc = 0
     then (case ATTACHED_CTRLR s1 of
             Some p \<Rightarrow> if p = null then Inl ControllerNotFound else Inr (NvmeController p)
           | None \<Rightarrow> Inl ControllerNotFound, s1\<lparr>ATTACHED_CTRLR := None\<rparr>)
     else (Inl (Os (- rc)), s1))"
proof -
  have "probe_loop api tapi th ctx s0 =
      (if rc = 0 then Some (Inr (), s1) else Some (Inl (from_errno (- rc)), s1))"
    using probe_loop_rounds [of n api ctx tapi th s0, OF assms(4)] probe_loop_simps(1,3) [OF assms(5)] assms(6)
    by simp
  with assms(1-3) show ?thesis
    by (simp add: connect_async_def Let_def from_errno_def ok_or_def nonnull_def split: option.split)
qed

text \<open>A device that attaches controller 6 at the third poll.\<close>

definition demo_ctrlr :: "(unit, nat) ctrlr_api" where
  "demo_ctrlr = \<lparr>
     spdk_nvme_ctrlr_get_default_ctrlr_opts = (\<lambda>_. \<lparr>num_io_queues = 8, io_queue_size = 256,
       admin_queue_size = 32, keep_alive_timeout_ms = 10000, other_ctrlr_opts = ()\<rparr>),
     spdk_nvme_connect = (\<lambda>_ _ w. (6, w)), spdk_nvme_connect_async = (\<lambda>_ _ w. ((3, []), 0)),
     spdk_nvme_probe_poll_async = (\<lambda>_ w. if w < 2 then ((- 11, []), w) else ((0, [6]), w)),
     spdk_nvme_ctrlr_get_num_ns = (\<lambda>_ _. 2), spdk_nvme_ctrlr_get_ns = (\<lambda>_ n _. 100 + unat n),
     spdk_nvme_ctrlr_get_default_io_qpair_opts = (\<lambda>_ _. \<lparr>qpair_io_queue_size = 128,
       io_queue_requests = 512, other_qpair_opts = ()\<rparr>),
     spdk_nvme_ctrlr_alloc_io_qpair = (\<lambda>_ _ w. (9, w)),
     spdk_nvme_ctrlr_process_admin_completions = (\<lambda>_ w. (0, w)), spdk_nvme_detach = (\<lambda>_ w. w)\<rparr>"

theorem connect_async_returns_witness:
  "connect_async demo_ctrlr count_thread (zeroed_trid spdk_layout) None (fresh_process 7) =
     Some (Inr (NvmeController 6), fresh_process 2)"
proof -
  let ?th = "CurrentThread 5" and ?r = "probe_round demo_ctrlr count_thread (CurrentThread 5) 3"
  have start: "call_attaching (spdk_nvme_connect_async demo_ctrlr (zeroed_trid spdk_layout)
      (ctrlr_opts_ptr demo_ctrlr None (spdk (fresh_process 7)))) ((fresh_process 7)\<lparr>ATTACHED_CTRLR := None\<rparr>) =
      (3, fresh_process 0)"
    by (simp add: call_attaching_def call_def demo_ctrlr_def fresh_process_def)
  have th: "get_current count_thread (fresh_process 0) = Some ?th"
    by (simp add: get_current_def count_thread_def)
  have round: "?r (fresh_process k) = fresh_process (Suc k)" if "k < 2" for k
    using that by (simp add: probe_round_def call_attaching_def call_def current_poll_def demo_ctrlr_def
        count_thread_def fresh_process_def)
  have again: "probe_rc demo_ctrlr 3 (fresh_process k) = - EAGAIN" if "k < 2" for k
    using that by (simp add: probe_rc_def call_attaching_def call_def demo_ctrlr_def fresh_process_def
        EAGAIN_def)
  have rounds: "(?r ^^ k) (fresh_process 0) = fresh_process k" if "k \<le> 2" for k
    using that by (induction k) (simp_all add: round)
  have last: "call_attaching (spdk_nvme_probe_poll_async demo_ctrlr 3) ((?r ^^ 2) (fresh_process 0)) =
      (0, (fresh_process 2)\<lparr>ATTACHED_CTRLR := Some 6\<rparr>)"
    unfolding rounds [OF order_refl]
    by (simp add: call_attaching_def call_def demo_ctrlr_def fresh_process_def attach_cb_def)
  have "connect_async demo_ctrlr count_thread (zeroed_trid spdk_layout) None (fresh_process 7) = Some (if 0 = (0 :: i32)
     then (case ATTACHED_CTRLR ((fresh_process (2 :: nat))\<lparr>ATTACHED_CTRLR := Some 6\<rparr>) of
             Some p \<Rightarrow> if p = null then Inl ControllerNotFound else Inr (NvmeController p)
           | None \<Rightarrow> Inl ControllerNotFound, (fresh_process 2)\<lparr>ATTACHED_CTRLR := Some 6, ATTACHED_CTRLR := None\<rparr>)
     else (Inl (Os (- 0)), (fresh_process 2)\<lparr>ATTACHED_CTRLR := Some 6\<rparr>))"
    by (rule connect_async_returns [OF start _ th _ last]) (simp_all add: rounds again EAGAIN_def)
  then show ?thesis by (simp add: fresh_process_def)
qed

text \<open>
  The options handed to SPDK are its defaults with exactly the fields the caller gave replaced; the
  pointer to them, however, dangles. Without options the pointer is null.
\<close>

theorem ctrlr_opts_applied:
  "ctrlr_opts_ptr api opts w = (case opts of
     None \<Rightarrow> NullPtr
   | Some u \<Rightarrow> (let d = spdk_nvme_ctrlr_get_default_ctrlr_opts api w in Dangling
       \<lparr>num_io_queues = unwrap_or (opt_num_io_queues u) (num_io_queues d),
        io_queue_size = unwrap_or (opt_io_queue_size u) (io_queue_size d),
        admin_queue_size = unwrap_or (opt_admin_queue_size u) (admin_queue_size d),
        keep_alive_timeout_ms = unwrap_or (opt_keep_alive_timeout_ms u) (keep_alive_timeout_ms d),
        other_ctrlr_opts = other_ctrlr_opts d\<rparr>))"
  by (cases "case opts of None \<Rightarrow> spdk_nvme_ctrlr_get_default_ctrlr_opts api w
      | Some u \<Rightarrow> spdk_nvme_ctrlr_get_default_ctrlr_opts api w")
    (auto simp: ctrlr_opts_ptr_def Let_def split: option.split)

text \<open>
  A namespace is returned exactly for an identifier between 1 and the number of namespaces for
  which SPDK has a namespace that is active.
\<close>

theorem namespace_iff:
  "namespace api nsapi c i w = Some ns \<longleftrightarrow>
     0 < unat i \<and> unat i \<le> unat (num_namespaces api c w) \<and> ns_ptr ns \<noteq> null \<and>
     spdk_nvme_ctrlr_get_ns api (ctrlr_ptr c) i w = ns_ptr ns \<and>
     spdk_nvme_ns_is_active nsapi (ns_ptr ns) w"
  by (cases ns)
    (auto simp: namespace_def ns_from_ptr_def ns_is_active_def nonnull_def Let_def word_less_nat_alt
       unat_gt_0 split: option.splits)

lemma alloc_io_qpair_iff:
  "fst (alloc_io_qpair api c None w) = Inr q \<longleftrightarrow> qpair_ptr q \<noteq> null \<and>
     fst (spdk_nvme_ctrlr_alloc_io_qpair api (ctrlr_ptr c) NullPtr w) = qpair_ptr q"
  by (cases q) (auto simp: alloc_io_qpair_def ok_or_def nonnull_def qpair_from_ptr_def split: prod.splits)

end
