(* ===== verification/Nvmf.thy ===== *)
theory Nvmf
  imports AsyncIo NvmeTransport
begin

text \<open>
  \<open>spdk-io/src/nvmf/\<close>: the NVMe-over-Fabrics target (\<open>target.rs\<close>), its subsystems (\<open>subsystem.rs\<close>), its
  transports (\<open>transport.rs\<close>) and their options (\<open>opts.rs\<close>). The functions of SPDK are the parameter
  \<open>nvmf_api\<close>; the asynchronous ones report an \<open>i32\<close> status to their callback, possibly before they
  return.
\<close>

section \<open>Options\<close>

record nvmf_target_opts =
  target_name :: "string option"
  max_subsystems :: "u32 option"

record nvmf_transport_opts =
  max_io_size :: "u32 option"
  io_unit_size :: "u32 option"
  max_qpairs_per_ctrlr :: "u16 option"
  in_capsule_data_size :: "u32 option"
  max_aq_depth :: "u32 option"

record nvmf_subsystem_opts =
  serial_number :: "string option"
  model_number :: "string option"
  allow_any_host :: bool

record nvmf_ns_opts =
  nsid :: u32
  ns_uuid :: "string option"

text \<open>The C struct of the target: its size, the name array and the number of subsystems.\<close>

record native_target_opts =
  native_size :: nat
  native_name :: string
  native_max_subsystems :: u32

record ('o, 'w) nvmf_api =
  target_opts_size :: nat
  target_name_size :: nat
  spdk_nvmf_tgt_create :: "native_target_opts \<Rightarrow> 'w \<Rightarrow> ptr \<times> 'w"
  spdk_nvmf_tgt_add_transport :: "ptr \<Rightarrow> ptr \<Rightarrow> ptr \<Rightarrow> 'w \<Rightarrow> i32 option \<times> 'w"
  spdk_nvmf_tgt_listen_ext :: "ptr \<Rightarrow> transport_id \<Rightarrow> 'w \<Rightarrow> i32 \<times> 'w"
  spdk_nvmf_subsystem_create :: "ptr \<Rightarrow> string \<Rightarrow> u32 \<Rightarrow> u32 \<Rightarrow> 'w \<Rightarrow> ptr \<times> 'w"
  SUBTYPE_NVME :: u32
  spdk_nvmf_tgt_find_subsystem :: "ptr \<Rightarrow> string \<Rightarrow> 'w \<Rightarrow> ptr"
  spdk_nvmf_tgt_get_name :: "ptr \<Rightarrow> 'w \<Rightarrow> string option"
  spdk_nvmf_tgt_destroy :: "ptr \<Rightarrow> 'w \<Rightarrow> 'w"
  spdk_nvmf_subsystem_get_nqn :: "ptr \<Rightarrow> 'w \<Rightarrow> string option"
  spdk_nvmf_subsystem_set_sn :: "ptr \<Rightarrow> string \<Rightarrow> 'w \<Rightarrow> i32 \<times> 'w"
  spdk_nvmf_subsystem_set_mn :: "ptr \<Rightarrow> string \<Rightarrow> 'w \<Rightarrow> i32 \<times> 'w"
  spdk_nvmf_subsystem_set_allow_any_host :: "ptr \<Rightarrow> bool \<Rightarrow> 'w \<Rightarrow> 'w"
  spdk_nvmf_subsystem_add_ns_ext :: "ptr \<Rightarrow> string \<Rightarrow> 'w \<Rightarrow> u32 \<times> 'w"
  spdk_nvmf_subsystem_add_listener :: "ptr \<Rightarrow> transport_id \<Rightarrow> ptr \<Rightarrow> 'w \<Rightarrow> i32 option \<times> 'w"
  spdk_nvmf_subsystem_start :: "ptr \<Rightarrow> ('w, i32) submission"
  spdk_nvmf_subsystem_stop :: "ptr \<Rightarrow> ('w, i32) submission"
  spdk_nvmf_transport_opts_init :: "string \<Rightarrow> nat \<Rightarrow> 'w \<Rightarrow> bool \<times> 'o"
  spdk_nvmf_transport_create :: "string \<Rightarrow> 'o \<Rightarrow> 'w \<Rightarrow> ptr \<times> 'w"

section \<open>Transports\<close>

datatype nvmf_transport = NvmfTransport (transport_ptr: ptr)

definition TRANSPORT_OPTS_SIZE :: nat where
  "TRANSPORT_OPTS_SIZE = 82"

text \<open>The options of the caller are not applied (a TODO of the source).\<close>

definition transport_create ::
  "('o, 'w) nvmf_api \<Rightarrow> string \<Rightarrow> nvmf_transport_opts option \<Rightarrow> 'w \<Rightarrow> (error, nvmf_transport) result \<times> 'w"
where
  "transport_create api transport_name opts w =
     (case cstring transport_name of
        Inl e \<Rightarrow> (Inl e, w)
      | Inr name_cstr \<Rightarrow>
          (case spdk_nvmf_transport_opts_init api name_cstr TRANSPORT_OPTS_SIZE w of (ok, opts_bytes) \<Rightarrow>
             if \<not> ok then (Inl (InvalidArgument (''Transport type not found: '' @ transport_name)), w)
             else case spdk_nvmf_transport_create api name_cstr opts_bytes w of (transport, w) \<Rightarrow>
               (ok_or (map_option NvmfTransport (nonnull transport))
                  (InvalidArgument (''Failed to create '' @ transport_name @ '' transport'')), w)))"

definition transport_tcp ::
  "('o, 'w) nvmf_api \<Rightarrow> nvmf_transport_opts option \<Rightarrow> 'w \<Rightarrow> (error, nvmf_transport) result \<times> 'w" where
  "transport_tcp api opts w = transport_create api ''TCP'' opts w"

definition transport_rdma ::
  "('o, 'w) nvmf_api \<Rightarrow> nvmf_transport_opts option \<Rightarrow> 'w \<Rightarrow> (error, nvmf_transport) result \<times> 'w" where
  "transport_rdma api opts w = transport_create api ''RDMA'' opts w"

definition transport_into_ptr :: "nvmf_transport \<Rightarrow> ptr" where
  "transport_into_ptr self = transport_ptr self"

section \<open>Subsystems\<close>

datatype nvmf_subsystem = NvmfSubsystem (subsystem_ptr: ptr)

definition subsystem_from_ptr :: "ptr \<Rightarrow> nvmf_subsystem" where
  "subsystem_from_ptr p = NvmfSubsystem p"

definition subsystem_nqn :: "('o, 'w) nvmf_api \<Rightarrow> nvmf_subsystem \<Rightarrow> 'w \<Rightarrow> string" where
  "subsystem_nqn api self w =
     (case spdk_nvmf_subsystem_get_nqn api (subsystem_ptr self) w of
        None \<Rightarrow> ''''
      | Some nqn \<Rightarrow> unwrap_or (cstr_to_str nqn) ''<invalid utf8>'')"

definition set_serial_number ::
  "('o, 'w) nvmf_api \<Rightarrow> nvmf_subsystem \<Rightarrow> string \<Rightarrow> 'w \<Rightarrow> (error, unit) result \<times> 'w" where
  "set_serial_number api self sn w =
     (case cstring sn of
        Inl e \<Rightarrow> (Inl e, w)
      | Inr sn_cstr \<Rightarrow>
          (case spdk_nvmf_subsystem_set_sn api (subsystem_ptr self) sn_cstr w of (rc, w) \<Rightarrow>
             (if rc = 0 then Inr () else Inl (InvalidArgument ''Failed to set serial number''), w)))"

definition set_model_number ::
  "('o, 'w) nvmf_api \<Rightarrow> nvmf_subsystem \<Rightarrow> string \<Rightarrow> 'w \<Rightarrow> (error, unit) result \<times> 'w" where
  "set_model_number api self mn w =
     (case cstring mn of
        Inl e \<Rightarrow> (Inl e, w)
      | Inr mn_cstr \<Rightarrow>
          (case spdk_nvmf_subsystem_set_mn api (subsystem_ptr self) mn_cstr w of (rc, w) \<Rightarrow>
             (if rc = 0 then Inr () else Inl (InvalidArgument ''Failed to set model number''), w)))"

definition set_allow_any_host :: "('o, 'w) nvmf_api \<Rightarrow> nvmf_subsystem \<Rightarrow> bool \<Rightarrow> 'w \<Rightarrow> 'w" where
  "set_allow_any_host api self allow w =
     spdk_nvmf_subsystem_set_allow_any_host api (subsystem_ptr self) allow w"

text \<open>The namespace options passed are SPDK's defaults, which are part of the parameter.\<close>

definition add_namespace ::
  "('o, 'w) nvmf_api \<Rightarrow> nvmf_subsystem \<Rightarrow> string \<Rightarrow> 'w \<Rightarrow> (error, u32) result \<times> 'w" where
  "add_namespace api self bdev_name w =
     (case cstring bdev_name of
        Inl e \<Rightarrow> (Inl e, w)
      | Inr bdev_cstr \<Rightarrow>
          (case spdk_nvmf_subsystem_add_ns_ext api (subsystem_ptr self) bdev_cstr w of (n, w) \<Rightarrow>
             (if n = 0 then Inl (InvalidArgument (''Failed to add namespace: '' @ bdev_name))
              else Inr n, w)))"

definition listener_done ::
  "('c, io_result) oneshot \<Rightarrow> i32 \<Rightarrow> ptr \<Rightarrow> ('c, 'w) runtime \<Rightarrow> ('c, 'w) runtime option" where
  "listener_done os status ctx s =
     (case sender_from_raw ctx (sender_boxes s) of
        None \<Rightarrow> None
      | Some (t, h) \<Rightarrow>
          let s = s\<lparr>sender_boxes := h\<rparr>
          in Some (if status = 0 then s\<lparr>chans := sender_success os t () (chans s)\<rparr>
                   else s\<lparr>chans := sender_error os t (from_errno (- status)) (chans s)\<rparr>))"

definition subsystem_state_change_done ::
  "('c, io_result) oneshot \<Rightarrow> i32 \<Rightarrow> ptr \<Rightarrow> ('c, 'w) runtime \<Rightarrow> ('c, 'w) runtime option" where
  "subsystem_state_change_done os status ctx s =
     (case sender_from_raw ctx (sender_boxes s) of
        None \<Rightarrow> None
      | Some (t, h) \<Rightarrow>
          let s = s\<lparr>sender_boxes := h\<rparr>
          in Some (if status = 0 then s\<lparr>chans := sender_success os t () (chans s)\<rparr>
                   else s\<lparr>chans := sender_error os t (from_errno (- status)) (chans s)\<rparr>))"

text \<open>A call with a callback and no return code.\<close>

definition void_call :: "(ptr \<Rightarrow> 'w \<Rightarrow> 'st option \<times> 'w) \<Rightarrow> ('w, 'st) submission" where
  "void_call f ctx w = (case f ctx w of (now, w) \<Rightarrow> ((0, now), w))"

definition add_listener ::
  "('c, io_result) oneshot \<Rightarrow> ('o, 'w) nvmf_api \<Rightarrow> nvmf_subsystem \<Rightarrow> transport_id \<Rightarrow> future \<Rightarrow>
     ('c, 'w) runtime \<Rightarrow> ('c, 'w) resumed" where
  "add_listener os api self trid f s =
     (case f of
        Unstarted \<Rightarrow>
          (case completion os (chans s) of (t, r, c) \<Rightarrow>
           case sender_into_raw t (sender_boxes s) of (ctx, h) \<Rightarrow>
           case submit_call (void_call (spdk_nvmf_subsystem_add_listener api (subsystem_ptr self) trid))
                  (listener_done os) ctx (s\<lparr>sender_boxes := h, chans := c\<rparr>) of
             None \<Rightarrow> None
           | Some (_, s') \<Rightarrow> Some (await_rx os r s'))
      | Awaiting r \<Rightarrow> Some (await_rx os r s)
      | Finished \<Rightarrow> None)"

definition subsystem_start ::
  "('c, io_result) oneshot \<Rightarrow> ('o, 'w) nvmf_api \<Rightarrow> nvmf_subsystem \<Rightarrow> future \<Rightarrow> ('c, 'w) runtime \<Rightarrow>
     ('c, 'w) resumed" where
  "subsystem_start os api self f s =
     (case f of
        Unstarted \<Rightarrow>
          (case completion os (chans s) of (t, r, c) \<Rightarrow>
           case sender_into_raw t (sender_boxes s) of (ctx, h) \<Rightarrow>
           case submit_call (spdk_nvmf_subsystem_start api (subsystem_ptr self))
                  (subsystem_state_change_done os) ctx (s\<lparr>sender_boxes := h, chans := c\<rparr>) of
             None \<Rightarrow> None
           | Some (rc, s') \<Rightarrow>
               Some (if rc \<noteq> 0
                     then (Ready (Inl (from_errno (- rc))), Finished,
                           s'\<lparr>chans := os_drop_rx os (rx r) (chans s')\<rparr>)
                     else await_rx os r s'))
      | Awaiting r \<Rightarrow> Some (await_rx os r s)
      | Finished \<Rightarrow> None)"

definition subsystem_stop ::
  "('c, io_result) oneshot \<Rightarrow> ('o, 'w) nvmf_api \<Rightarrow> nvmf_subsystem \<Rightarrow> future \<Rightarrow> ('c, 'w) runtime \<Rightarrow>
     ('c, 'w) resumed" where
  "subsystem_stop os api self f s =
     (case f of
        Unstarted \<Rightarrow>
          (case completion os (chans s) of (t, r, c) \<Rightarrow>
           case sender_into_raw t (sender_boxes s) of (ctx, h) \<Rightarrow>
           case submit_call (spdk_nvmf_subsystem_stop api (subsystem_ptr self))
                  (subsystem_state_change_done os) ctx (s\<lparr>sender_boxes := h, chans := c\<rparr>) of
             None \<Rightarrow> None
           | Some (rc, s') \<Rightarrow>
               Some (if rc \<noteq> 0
                     then (Ready (Inl (from_errno (- rc))), Finished,
                           s'\<lparr>chans := os_drop_rx os (rx r) (chans s')\<rparr>)
                     else await_rx os r s'))
      | Awaiting r \<Rightarrow> Some (await_rx os r s)
      | Finished \<Rightarrow> None)"

definition subsystem_as_ptr :: "nvmf_subsystem \<Rightarrow> ptr" where
  "subsystem_as_ptr self = subsystem_ptr self"

section \<open>Targets\<close>

datatype nvmf_target = NvmfTarget (target_ptr: ptr)

definition create_with_opts ::
  "('o, 'w) nvmf_api \<Rightarrow> nvmf_target_opts \<Rightarrow> 'w \<Rightarrow> (error, nvmf_target) result \<times> 'w" where
  "create_with_opts api opts w =
     (let native = \<lparr>native_size = target_opts_size api, native_name = replicate (target_name_size api) nul,
                    native_max_subsystems = 0\<rparr>;
          native = (case target_name opts of
             None \<Rightarrow> native
           | Some name \<Rightarrow>
               let max_len = length (native_name native) - 1; copy_len = min (length name) max_len
               in native\<lparr>native_name := write_from 0 (take copy_len name) (native_name native)\<rparr>);
          native = (case max_subsystems opts of
             None \<Rightarrow> native
           | Some n \<Rightarrow> native\<lparr>native_max_subsystems := n\<rparr>)
      in case spdk_nvmf_tgt_create api native w of (p, w) \<Rightarrow>
           (ok_or (map_option NvmfTarget (nonnull p)) (InvalidArgument ''Failed to create NVMf target''), w))"

definition target_create :: "('o, 'w) nvmf_api \<Rightarrow> string \<Rightarrow> 'w \<Rightarrow> (error, nvmf_target) result \<times> 'w" where
  "target_create api name w = create_with_opts api \<lparr>target_name = Some name, max_subsystems = None\<rparr> w"

definition add_transport_done ::
  "('c, io_result) oneshot \<Rightarrow> i32 \<Rightarrow> ptr \<Rightarrow> ('c, 'w) runtime \<Rightarrow> ('c, 'w) runtime option" where
  "add_transport_done os status ctx s =
     (case sender_from_raw ctx (sender_boxes s) of
        None \<Rightarrow> None
      | Some (t, h) \<Rightarrow>
          let s = s\<lparr>sender_boxes := h\<rparr>
          in Some (if status = 0 then s\<lparr>chans := sender_success os t () (chans s)\<rparr>
                   else s\<lparr>chans := sender_error os t (from_errno (- status)) (chans s)\<rparr>))"

definition add_transport ::
  "('c, io_result) oneshot \<Rightarrow> ('o, 'w) nvmf_api \<Rightarrow> nvmf_target \<Rightarrow> nvmf_transport \<Rightarrow> future \<Rightarrow>
     ('c, 'w) runtime \<Rightarrow> ('c, 'w) resumed" where
  "add_transport os api self transport f s =
     (case f of
        Unstarted \<Rightarrow>
          (case completion os (chans s) of (t, r, c) \<Rightarrow>
           case sender_into_raw t (sender_boxes s) of (ctx, h) \<Rightarrow>
           case submit_call
                  (void_call (spdk_nvmf_tgt_add_transport api (target_ptr self) (transport_into_ptr transport)))
                  (add_transport_done os) ctx (s\<lparr>sender_boxes := h, chans := c\<rparr>) of
             None \<Rightarrow> None
           | Some (_, s') \<Rightarrow> Some (await_rx os r s'))
      | Awaiting r \<Rightarrow> Some (await_rx os r s)
      | Finished \<Rightarrow> None)"

text \<open>The listen options passed are SPDK's defaults, which are part of the parameter.\<close>

definition listen ::
  "('o, 'w) nvmf_api \<Rightarrow> nvmf_target \<Rightarrow> transport_id \<Rightarrow> 'w \<Rightarrow> (error, unit) result \<times> 'w" where
  "listen api self trid w =
     (case spdk_nvmf_tgt_listen_ext api (target_ptr self) trid w of (rc, w) \<Rightarrow>
        (if rc \<noteq> 0 then Inl (from_errno (- rc)) else Inr (), w))"

definition create_subsystem ::
  "('o, 'w) nvmf_api \<Rightarrow> nvmf_target \<Rightarrow> string \<Rightarrow> nvmf_subsystem_opts \<Rightarrow> 'w \<Rightarrow>
     (error, nvmf_subsystem) result \<times> 'w" where
  "create_subsystem api self nqn opts w =
     (case cstring nqn of
        Inl e \<Rightarrow> (Inl e, w)
      | Inr nqn_cstr \<Rightarrow>
          (case spdk_nvmf_subsystem_create api (target_ptr self) nqn_cstr (SUBTYPE_NVME api) 0 w of (p, w) \<Rightarrow>
             (case nonnull p of
                None \<Rightarrow> (Inl (InvalidArgument (''Failed to create subsystem: '' @ nqn)), w)
              | Some p \<Rightarrow>
                  let subsys = subsystem_from_ptr p;
                      w = (if allow_any_host opts then set_allow_any_host api subsys True w else w);
                      (r, w) = (case serial_number opts of None \<Rightarrow> (Inr (), w)
                                | Some sn \<Rightarrow> set_serial_number api subsys sn w)
                  in case r of
                       Inl e \<Rightarrow> (Inl e, w)
                     | Inr _ \<Rightarrow>
                         let (r, w) = (case model_number opts of None \<Rightarrow> (Inr (), w)
                                       | Some mn \<Rightarrow> set_model_number api subsys mn w)
                         in case r of Inl e \<Rightarrow> (Inl e, w) | Inr _ \<Rightarrow> (Inr subsys, w))))"

definition find_subsystem ::
  "('o, 'w) nvmf_api \<Rightarrow> nvmf_target \<Rightarrow> string \<Rightarrow> 'w \<Rightarrow> nvmf_subsystem option" where
  "find_subsystem api self nqn w =
     (case cstring_new nqn of
        Inl _ \<Rightarrow> None
      | Inr nqn_cstr \<Rightarrow>
          map_option subsystem_from_ptr
            (nonnull (spdk_nvmf_tgt_find_subsystem api (target_ptr self) nqn_cstr w)))"

definition target_get_name :: "('o, 'w) nvmf_api \<Rightarrow> nvmf_target \<Rightarrow> 'w \<Rightarrow> string" where
  "target_get_name api self w =
     (case spdk_nvmf_tgt_get_name api (target_ptr self) w of
        None \<Rightarrow> ''''
      | Some n \<Rightarrow> unwrap_or (cstr_to_str n) ''<invalid utf8>'')"

definition target_as_ptr :: "nvmf_target \<Rightarrow> ptr" where
  "target_as_ptr self = target_ptr self"

text \<open>The callback of \<open>spdk_nvmf_tgt_destroy\<close>, which may run after \<open>drop\<close> has returned.\<close>

definition destroy_done :: "ptr \<Rightarrow> i32 \<Rightarrow> 'w \<Rightarrow> 'w" where
  "destroy_done ctx status w = w"

definition target_drop :: "('o, 'w) nvmf_api \<Rightarrow> nvmf_target \<Rightarrow> 'w \<Rightarrow> 'w" where
  "target_drop api self w = spdk_nvmf_tgt_destroy api (target_ptr self) w"

end
