(* ===== verification/Nvmf_Correct.thy ===== *)
theory Nvmf_Correct
  imports Nvmf
begin

text \<open>
  The properties of \<open>Nvmf\<close>: the asynchronous operations follow the protocol of \<open>AsyncIo\<close>, also when
  SPDK runs the callback before it returns; the options and names given to SPDK; what a failed
  creation of a subsystem leaves behind.
\<close>

section \<open>The asynchronous operations as instances of the protocol\<close>

definition status_result :: "i32 \<Rightarrow> io_result" where
  "status_result status = (if status = 0 then Inr () else Inl (from_errno (- status)))"

lemma done_eq:
  "subsystem_state_change_done os st p s = complete_boxed os status_result (\<lambda>_ w. w) st p s"
  "listener_done os st p s = complete_boxed os status_result (\<lambda>_ w. w) st p s"
  "add_transport_done os st p s = complete_boxed os status_result (\<lambda>_ w. w) st p s"
  by (simp_all add: subsystem_state_change_done_def listener_done_def add_transport_done_def
      complete_boxed_def status_result_def sender_success_def sender_error_def sender_complete_def Let_def
      split: option.split)

datatype state_change = Start nvmf_subsystem | Stop nvmf_subsystem

fun state_change_submit :: "('o, 'w) nvmf_api \<Rightarrow> state_change \<Rightarrow> ('w, i32) submission" where
  "state_change_submit api (Start s) = spdk_nvmf_subsystem_start api (subsystem_ptr s)"
| "state_change_submit api (Stop s) = spdk_nvmf_subsystem_stop api (subsystem_ptr s)"

fun state_change_resume ::
  "('c, io_result) oneshot \<Rightarrow> ('o, 'w) nvmf_api \<Rightarrow> state_change \<Rightarrow> future \<Rightarrow> ('c, 'w) runtime \<Rightarrow>
     ('c, 'w) resumed" where
  "state_change_resume os api (Start x) f s = subsystem_start os api x f s"
| "state_change_resume os api (Stop x) f s = subsystem_stop os api x f s"

interpretation state_change: io_protocol os "state_change_resume os api" "state_change_submit api"
    "subsystem_state_change_done os" "\<lambda>rc. from_errno (- rc)" status_result "\<lambda>_ w. w"
  for os :: "('c, io_result) oneshot" and api :: "('o, 'w) nvmf_api"
proof
  fix q and r and s :: "('c, 'w) runtime" and st :: i32 and p
  show "state_change_resume os api q Unstarted s = submit_then_await os (state_change_submit api q)
      (subsystem_state_change_done os) (\<lambda>rc. from_errno (- rc)) s"
    by (cases q) (simp_all add: subsystem_start_def subsystem_stop_def submit_then_await_def)
  show "state_change_resume os api q (Awaiting r) s = Some (await_rx os r s)"
    by (cases q) (simp_all add: subsystem_start_def subsystem_stop_def)
qed (rule done_eq)

text \<open>Calls without a return code never take the path of a refusal, whatever its error would be.\<close>

lemma submit_void:
  "submit_then_await os (void_call f) callback err_of s =
     (case completion os (chans s) of (t, r, c) \<Rightarrow>
      case sender_into_raw t (sender_boxes s) of (ctx, h) \<Rightarrow>
      case submit_call (void_call f) callback ctx (s\<lparr>sender_boxes := h, chans := c\<rparr>) of
        None \<Rightarrow> None
      | Some (_, s') \<Rightarrow> Some (await_rx os r s'))"
  by (auto simp: submit_then_await_def submit_call_def void_call_def map_option_case
      split: prod.splits option.splits)

interpretation listener: io_protocol os "\<lambda>(x, trid) f s. add_listener os api x trid f s"
    "\<lambda>(x, trid). void_call (spdk_nvmf_subsystem_add_listener api (subsystem_ptr x) trid)"
    "listener_done os" err_of status_result "\<lambda>_ w. w"
  for os :: "('c, io_result) oneshot" and api :: "('o, 'w) nvmf_api" and err_of
  by unfold_locales (auto simp: add_listener_def submit_void done_eq)

interpretation transport: io_protocol os "\<lambda>(x, tr) f s. add_transport os api x tr f s"
    "\<lambda>(x, tr). void_call (spdk_nvmf_tgt_add_transport api (target_ptr x) (transport_into_ptr tr))"
    "add_transport_done os" err_of status_result "\<lambda>_ w. w"
  for os :: "('c, io_result) oneshot" and api :: "('o, 'w) nvmf_api" and err_of
  by unfold_locales (auto simp: add_transport_def submit_void done_eq)

text \<open>A device that accepts everything and answers later.\<close>

definition demo_void :: "ptr \<Rightarrow> ptr set \<Rightarrow> i32 option \<times> ptr set" where
  "demo_void p w = (None, insert p w)"

lemma demo_void_submit: "void_call demo_void = demo_submit"
  by (simp add: fun_eq_iff void_call_def demo_void_def demo_submit_def)

definition demo_nvmf :: "(unit, ptr set) nvmf_api" where
  "demo_nvmf = \<lparr>target_opts_size = 264, target_name_size = 8,
     spdk_nvmf_tgt_create = (\<lambda>_ w. (2, w)), spdk_nvmf_tgt_add_transport = (\<lambda>_ _. demo_void),
     spdk_nvmf_tgt_listen_ext = (\<lambda>_ _ w. (0, w)),
     spdk_nvmf_subsystem_create = (\<lambda>_ _ _ _ w. (3, insert 3 w)), SUBTYPE_NVME = 2,
     spdk_nvmf_tgt_find_subsystem = (\<lambda>_ _ w. if 3 \<in> w then 3 else 0),
     spdk_nvmf_tgt_get_name = (\<lambda>_ _. Some ''tgt''), spdk_nvmf_tgt_destroy = (\<lambda>_ w. w),
     spdk_nvmf_subsystem_get_nqn = (\<lambda>_ _. Some ''nqn''),
     spdk_nvmf_subsystem_set_sn = (\<lambda>_ _ w. (0, w)), spdk_nvmf_subsystem_set_mn = (\<lambda>_ _ w. (0, w)),
     spdk_nvmf_subsystem_set_allow_any_host = (\<lambda>_ _ w. w),
     spdk_nvmf_subsystem_add_ns_ext = (\<lambda>_ _ w. (1, w)),
     spdk_nvmf_subsystem_add_listener = (\<lambda>_ _. demo_void),
     spdk_nvmf_subsystem_start = (\<lambda>_. demo_submit), spdk_nvmf_subsystem_stop = (\<lambda>_. demo_submit),
     spdk_nvmf_transport_opts_init = (\<lambda>_ _ _. (True, ())),
     spdk_nvmf_transport_create = (\<lambda>_ _ w. (4, w))\<rparr>"

lemma demo_nvmf_submits:
  "state_change_submit demo_nvmf q = demo_submit"
  "spdk_nvmf_subsystem_add_listener demo_nvmf = (\<lambda>_ _. demo_void)"
  "spdk_nvmf_tgt_add_transport demo_nvmf = (\<lambda>_ _. demo_void)"
  by (cases q; simp add: demo_nvmf_def)+

lemma demo_accepts: "fst (demo_submit p w) = (0, None)"
  by (simp add: demo_submit_def)

lemma demo_nvmf_contracts:
  "submit_contract (state_change_submit demo_nvmf) (\<lambda>_ w. w) (\<lambda>w. w)"
  "submit_contract (\<lambda>(x, trid). void_call (spdk_nvmf_subsystem_add_listener demo_nvmf (subsystem_ptr x) trid))
     (\<lambda>_ w. w) (\<lambda>w. w)"
  "submit_contract (\<lambda>(x, tr). void_call (spdk_nvmf_tgt_add_transport demo_nvmf (target_ptr x)
     (transport_into_ptr tr))) (\<lambda>_ w. w) (\<lambda>w. w)"
  by (rule demo_contract; simp add: demo_nvmf_submits demo_void_submit split: prod.split)+

lemma state_change_done:
  obtains S where "io_reachable ref_oneshot (state_change_resume ref_oneshot demo_nvmf)
      (state_change_submit demo_nvmf) (subsystem_state_change_done ref_oneshot) (\<lambda>w. w) (\<lambda>_. q) S"
    "outcome S 0 = Some (status_result st)"
proof -
  have "fst (state_change_submit demo_nvmf q p w) = (0, None)" for p w
    by (simp add: demo_nvmf_submits demo_accepts)
  from state_change.completes(2) [OF ref_oneshot_spec demo_nvmf_contracts(1) this _ demo_runtime_ok(1,2),
      where st = st]
  show thesis using that by (auto simp: demo_runtime_ok(3))
qed

section \<open>Properties\<close>

text \<open>
  C25: Starting and stopping subsystems, in any interleaving with completions (also ones made before the
  call returns) and cancellations: a task whose own request SPDK refused returns exactly that request's
  error number made positive, any other task what SPDK reported for this very request; every callback finds its context, no poll panics, and
  the boxes alive are the requests in flight and one for each refusal.
\<close>

theorem state_change_outcome:
  assumes "oneshot_spec os view" "submit_contract (state_change_submit api) (\<lambda>_ w. w) pending"
    and "io_reachable os (state_change_resume os api) (state_change_submit api)
      (subsystem_state_change_done os) pending job S"
  shows "(\<forall>i r. outcome S i = Some r \<longrightarrow> (case rejected S i of
         Some rc \<Rightarrow> rc \<noteq> 0 \<and> r = Inl (Os (- rc)) \<and>
           (\<exists>p w w'. state_change_submit api (job i) p w = ((rc, None), w'))
       | None \<Rightarrow> \<exists>ch st. chan_of S i = Some ch \<and> (\<forall>j. chan_of S j = Some ch \<longrightarrow> j = i) \<and>
           told S ch = Some st \<and> r = (if st = 0 then Inr () else Inl (Os (- st))))) \<and>
     (\<forall>p \<in> pending (dev (rt S)). \<forall>st w.
        subsystem_state_change_done os st p ((rt S)\<lparr>dev := w\<rparr>) \<noteq> None) \<and>
     (\<forall>i f. tasks S i = Some f \<longrightarrow> f \<noteq> Finished \<longrightarrow> state_change_resume os api (job i) f (rt S) \<noteq> None) \<and>
     card (dom (cells (sender_boxes (rt S)))) = card (pending (dev (rt S))) + refused S"
proof (intro conjI)
  show "\<forall>i r. outcome S i = Some r \<longrightarrow> (case rejected S i of
         Some rc \<Rightarrow> rc \<noteq> 0 \<and> r = Inl (Os (- rc)) \<and>
           (\<exists>p w w'. state_change_submit api (job i) p w = ((rc, None), w'))
       | None \<Rightarrow> \<exists>ch st. chan_of S i = Some ch \<and> (\<forall>j. chan_of S j = Some ch \<longrightarrow> j = i) \<and>
           told S ch = Some st \<and> r = (if st = 0 then Inr () else Inl (Os (- st))))"
  proof (intro allI impI)
    fix i r assume "outcome S i = Some r"
    note just = state_change.outcome_justified [OF assms this]
    show "case rejected S i of
         Some rc \<Rightarrow> rc \<noteq> 0 \<and> r = Inl (Os (- rc)) \<and>
           (\<exists>p w w'. state_change_submit api (job i) p w = ((rc, None), w'))
       | None \<Rightarrow> \<exists>ch st. chan_of S i = Some ch \<and> (\<forall>j. chan_of S j = Some ch \<longrightarrow> j = i) \<and>
           told S ch = Some st \<and> r = (if st = 0 then Inr () else Inl (Os (- st)))"
    proof (cases "rejected S i")
      case None
      with just obtain ch st where "chan_of S i = Some ch" "told S ch = Some st" "r = status_result st"
        by auto
      with None state_change.own_channel [OF assms] show ?thesis
        by (simp only: None option.case status_result_def from_errno_def) blast
    qed (use just in \<open>simp add: from_errno_def\<close>)
  qed
qed (use state_change.callback_safe [OF assms] state_change.poll_safe [OF assms]
      state_change.live_boxes [OF assms] in blast)+

theorem state_change_outcome_witness:
  "\<exists>S. io_reachable ref_oneshot (state_change_resume ref_oneshot demo_nvmf)
      (state_change_submit demo_nvmf) (subsystem_state_change_done ref_oneshot) (\<lambda>w. w)
      (\<lambda>_. Start (NvmfSubsystem 3)) S \<and> outcome S 0 = Some (Inl (Os 16)) \<and>
    (\<exists>ch. chan_of S 0 = Some ch \<and> told S ch = Some (- 16))"
proof -
  obtain S where S: "io_reachable ref_oneshot (state_change_resume ref_oneshot demo_nvmf)
      (state_change_submit demo_nvmf) (subsystem_state_change_done ref_oneshot) (\<lambda>w. w)
      (\<lambda>_. Start (NvmfSubsystem 3)) S" "outcome S 0 = Some (status_result (- 16))"
    by (rule state_change_done)
  from S(2) have o: "outcome S 0 = Some (Inl (Os 16))" by (simp add: status_result_def from_errno_def)
  note just = conjunct1 [OF state_change_outcome [OF ref_oneshot_spec demo_nvmf_contracts(1) S(1)],
      rule_format, OF o]
  have "\<exists>ch. chan_of S 0 = Some ch \<and> told S ch = Some (- 16)"
  proof (cases "rejected S 0")
    case None
    with just obtain ch st where st: "chan_of S 0 = Some ch" "told S ch = Some st"
      "(Inl (Os 16) :: io_result) = (if st = 0 then Inr () else Inl (Os (- st)))" by auto
    from st(3) have "st = - 16" by (cases "st = 0") (simp_all, metis minus_minus)
    with st(1,2) show ?thesis by blast
  next
    case (Some rc)
    with just obtain p w w' where "state_change_submit demo_nvmf (Start (NvmfSubsystem 3)) p w = ((rc, None), w')"
      "rc \<noteq> 0" by auto
    then show ?thesis unfolding demo_nvmf_submits demo_submit_def by simp
  qed
  with S(1) o show ?thesis by blast
qed

lemma demo_reachable_listener:
  obtains S where "io_reachable ref_oneshot (\<lambda>(x, trid) f s. add_listener ref_oneshot demo_nvmf x trid f s)
      (\<lambda>(x, trid). void_call (spdk_nvmf_subsystem_add_listener demo_nvmf (subsystem_ptr x) trid))
      (listener_done ref_oneshot) (\<lambda>w. w) (\<lambda>_. q) S"
    "outcome S 0 = Some (status_result st)"
proof -
  have "fst ((\<lambda>(x, trid). void_call (spdk_nvmf_subsystem_add_listener demo_nvmf (subsystem_ptr x) trid)) q p w) =
      (0, None)" for p w
    by (cases q) (simp add: demo_nvmf_submits demo_void_submit demo_accepts)
  from listener.completes(2) [OF ref_oneshot_spec demo_nvmf_contracts(2) this _ demo_runtime_ok(1,2),
      where st = st]
  show thesis using that by (auto simp: demo_runtime_ok(3))
qed

lemma demo_reachable_transport:
  obtains S where "io_reachable ref_oneshot (\<lambda>(x, tr) f s. add_transport ref_oneshot demo_nvmf x tr f s)
      (\<lambda>(x, tr). void_call (spdk_nvmf_tgt_add_transport demo_nvmf (target_ptr x) (transport_into_ptr tr)))
      (add_transport_done ref_oneshot) (\<lambda>w. w) (\<lambda>_. q) S"
    "outcome S 0 = Some (status_result st)"
proof -
  have "fst ((\<lambda>(x, tr). void_call (spdk_nvmf_tgt_add_transport demo_nvmf (target_ptr x)
      (transport_into_ptr tr))) q p w) = (0, None)" for p w
    by (cases q) (simp add: demo_nvmf_submits demo_void_submit demo_accepts)
  from transport.completes(2) [OF ref_oneshot_spec demo_nvmf_contracts(3) this _ demo_runtime_ok(1,2),
      where st = st]
  show thesis using that by (auto simp: demo_runtime_ok(3))
qed

text \<open>
  C18: Adding listeners to subsystems, in any interleaving, also when SPDK calls back before it returns,
  a task returns exactly what SPDK reported for this very listener: Ok for status 0, otherwise the
  error number made positive. No callback and no poll goes wrong.
\<close>

theorem listener_outcome:
  assumes "oneshot_spec os view"
    and "submit_contract (\<lambda>(x, trid). void_call (spdk_nvmf_subsystem_add_listener api (subsystem_ptr x) trid))
      (\<lambda>_ w. w) pending"
    and "io_reachable os (\<lambda>(x, trid) f s. add_listener os api x trid f s)
      (\<lambda>(x, trid). void_call (spdk_nvmf_subsystem_add_listener api (subsystem_ptr x) trid))
      (listener_done os) pending job S"
  shows "(\<forall>i r. outcome S i = Some r \<longrightarrow>
       (\<exists>ch st. chan_of S i = Some ch \<and> (\<forall>j. chan_of S j = Some ch \<longrightarrow> j = i) \<and> told S ch = Some st \<and>
          r = (if st = 0 then Inr () else Inl (Os (- st))))) \<and>
     (\<forall>p \<in> pending (dev (rt S)). \<forall>st w. listener_done os st p ((rt S)\<lparr>dev := w\<rparr>) \<noteq> None) \<and>
     (\<forall>i f. tasks S i = Some f \<longrightarrow> f \<noteq> Finished \<longrightarrow>
        (case job i of (x, trid) \<Rightarrow> add_listener os api x trid f (rt S)) \<noteq> None)"
proof (intro conjI allI impI)
  fix i r assume "outcome S i = Some r"
  from listener.outcome_justified [OF assms this, of "\<lambda>_. Cancelled"]
  obtain ch st where "chan_of S i = Some ch" "told S ch = Some st" "r = status_result st"
    by (auto simp: void_call_def split: option.splits prod.splits)
  with listener.own_channel [OF assms] show
    "\<exists>ch st. chan_of S i = Some ch \<and> (\<forall>j. chan_of S j = Some ch \<longrightarrow> j = i) \<and> told S ch = Some st \<and>
       r = (if st = 0 then Inr () else Inl (Os (- st)))"
    unfolding status_result_def from_errno_def by blast
next
  fix i f assume "tasks S i = Some f" "f \<noteq> Finished"
  from listener.poll_safe [OF assms this, of "job i"]
  show "(case job i of (x, trid) \<Rightarrow> add_listener os api x trid f (rt S)) \<noteq> None"
    by (simp add: split_beta)
qed (use listener.callback_safe [OF assms] in blast)

theorem listener_outcome_witness:
  "\<exists>S. io_reachable ref_oneshot (\<lambda>(x, trid) f s. add_listener ref_oneshot demo_nvmf x trid f s)
      (\<lambda>(x, trid). void_call (spdk_nvmf_subsystem_add_listener demo_nvmf (subsystem_ptr x) trid))
      (listener_done ref_oneshot) (\<lambda>w. w) (\<lambda>_. (NvmfSubsystem 3, zeroed_trid spdk_layout)) S \<and>
    outcome S 0 = Some (Inr ()) \<and> (\<exists>ch. chan_of S 0 = Some ch \<and> told S ch = Some 0)"
proof -
  obtain S where S: "io_reachable ref_oneshot (\<lambda>(x, trid) f s. add_listener ref_oneshot demo_nvmf x trid f s)
      (\<lambda>(x, trid). void_call (spdk_nvmf_subsystem_add_listener demo_nvmf (subsystem_ptr x) trid))
      (listener_done ref_oneshot) (\<lambda>w. w) (\<lambda>_. (NvmfSubsystem 3, zeroed_trid spdk_layout)) S"
    "outcome S 0 = Some (status_result 0)"
    by (rule demo_reachable_listener)
  from S(2) have o: "outcome S 0 = Some (Inr ())" by (simp add: status_result_def)
  from conjunct1 [OF listener_outcome [OF ref_oneshot_spec demo_nvmf_contracts(2) S(1)]] o
  have "\<exists>ch st. chan_of S 0 = Some ch \<and> told S ch = Some st \<and>
      (Inr () :: io_result) = (if st = 0 then Inr () else Inl (Os (- st)))" by blast
  then have "\<exists>ch. chan_of S 0 = Some ch \<and> told S ch = Some 0" by (auto split: if_splits)
  with S(1) o show ?thesis by blast
qed

text \<open>
  The same for adding a transport to a target, whose ownership goes to SPDK.
\<close>

theorem transport_outcome:
  assumes "oneshot_spec os view"
    and "submit_contract (\<lambda>(x, tr). void_call (spdk_nvmf_tgt_add_transport api (target_ptr x)
      (transport_into_ptr tr))) (\<lambda>_ w. w) pending"
    and "io_reachable os (\<lambda>(x, tr) f s. add_transport os api x tr f s)
      (\<lambda>(x, tr). void_call (spdk_nvmf_tgt_add_transport api (target_ptr x) (transport_into_ptr tr)))
      (add_transport_done os) pending job S"
  shows "(\<forall>i r. outcome S i = Some r \<longrightarrow>
       (\<exists>ch st. chan_of S i = Some ch \<and> (\<forall>j. chan_of S j = Some ch \<longrightarrow> j = i) \<and> told S ch = Some st \<and>
          r = (if st = 0 then Inr () else Inl (Os (- st))))) \<and>
     (\<forall>p \<in> pending (dev (rt S)). \<forall>st w. add_transport_done os st p ((rt S)\<lparr>dev := w\<rparr>) \<noteq> None)"
proof (intro conjI allI impI)
  fix i r assume "outcome S i = Some r"
  from transport.outcome_justified [OF assms this, of "\<lambda>_. Cancelled"]
  obtain ch st where "chan_of S i = Some ch" "told S ch = Some st" "r = status_result st"
    by (auto simp: void_call_def split: option.splits prod.splits)
  with transport.own_channel [OF assms] show
    "\<exists>ch st. chan_of S i = Some ch \<and> (\<forall>j. chan_of S j = Some ch \<longrightarrow> j = i) \<and> told S ch = Some st \<and>
       r = (if st = 0 then Inr () else Inl (Os (- st)))"
    unfolding status_result_def from_errno_def by blast
qed (use transport.callback_safe [OF assms] in blast)

theorem transport_outcome_witness:
  "\<exists>S. io_reachable ref_oneshot (\<lambda>(x, tr) f s. add_transport ref_oneshot demo_nvmf x tr f s)
      (\<lambda>(x, tr). void_call (spdk_nvmf_tgt_add_transport demo_nvmf (target_ptr x) (transport_into_ptr tr)))
      (add_transport_done ref_oneshot) (\<lambda>w. w) (\<lambda>_. (NvmfTarget 2, NvmfTransport 4)) S \<and>
    outcome S 0 = Some (Inl (Os 22)) \<and> (\<exists>ch. chan_of S 0 = Some ch \<and> told S ch = Some (- 22))"
proof -
  obtain S where S: "io_reachable ref_oneshot (\<lambda>(x, tr) f s. add_transport ref_oneshot demo_nvmf x tr f s)
      (\<lambda>(x, tr). void_call (spdk_nvmf_tgt_add_transport demo_nvmf (target_ptr x) (transport_into_ptr tr)))
      (add_transport_done ref_oneshot) (\<lambda>w. w) (\<lambda>_. (NvmfTarget 2, NvmfTransport 4)) S"
    "outcome S 0 = Some (status_result (- 22))"
    by (rule demo_reachable_transport)
  from S(2) have o: "outcome S 0 = Some (Inl (Os 22))" by (simp add: status_result_def from_errno_def)
  from conjunct1 [OF transport_outcome [OF ref_oneshot_spec demo_nvmf_contracts(3) S(1)]] o
  have "\<exists>ch st. chan_of S 0 = Some ch \<and> told S ch = Some st \<and>
      (Inl (Os 22) :: io_result) = (if st = 0 then Inr () else Inl (Os (- st)))" by blast
  then have "\<exists>ch. chan_of S 0 = Some ch \<and> told S ch = Some (- 22)"
    by (auto split: if_splits) (metis minus_minus)
  with S(1) o show ?thesis by blast
qed

text \<open>
  The target's name given to SPDK is the name cut to what the array holds with a terminator, the
  rest of the array being zero; the array keeps its size, and the number of subsystems is the one
  asked for, or 0.
\<close>

theorem create_with_opts_native:
  assumes "0 < target_name_size api"
  shows "create_with_opts api opts w =
     (case spdk_nvmf_tgt_create api
        \<lparr>native_size = target_opts_size api,
         native_name = (let n = take (target_name_size api - 1) (unwrap_or (target_name opts) [])
                        in n @ replicate (target_name_size api - length n) nul),
         native_max_subsystems = unwrap_or (max_subsystems opts) 0\<rparr> w of
        (p, w) \<Rightarrow> (if p = null then Inl (InvalidArgument ''Failed to create NVMf target'')
                   else Inr (NvmfTarget p), w))"
proof -
  have fit: "write_from 0 m (replicate (target_name_size api) nul) =
      m @ replicate (target_name_size api - length m) nul" if "length m \<le> target_name_size api" for m
    using write_from_append [of 0 "[]" m "replicate (target_name_size api) nul"] that by simp
  have cut: "take (min (length n) k) n = take k n" for n :: string and k by (simp add: min_def)
  have "length (take (target_name_size api - 1) n) \<le> target_name_size api" for n :: string
    using length_take [of "target_name_size api - 1" n] by linarith
  from fit [OF this] have "write_from 0 (take (min (length n) (target_name_size api - 1)) n)
      (replicate (target_name_size api) nul) =
      take (target_name_size api - 1) n @
      replicate (target_name_size api - length (take (target_name_size api - 1) n)) nul" for n
    unfolding cut .
  then show ?thesis
    by (cases "target_name opts"; cases "max_subsystems opts")
      (simp_all add: create_with_opts_def Let_def ok_or_def nonnull_def split: prod.split)
qed

theorem create_with_opts_native_witness:
  "create_with_opts demo_nvmf \<lparr>target_name = Some ''nvmf_target'', max_subsystems = Some 4\<rparr> {} =
     (Inr (NvmfTarget 2), {})"
  by (subst create_with_opts_native) (simp_all add: demo_nvmf_def)

text \<open>
  A subsystem whose options cannot be applied stays in the target: the error is returned, nothing is
  destroyed, and the subsystem can still be found.
\<close>

lemma create_subsystem_leaves:
  "let opts = \<lparr>serial_number = Some [CHR ''A'', nul], model_number = None, allow_any_host = False\<rparr>;
       (r, w) = create_subsystem demo_nvmf (NvmfTarget 2) ''nqn'' opts {}
   in (\<exists>e. r = Inl e) \<and> find_subsystem demo_nvmf (NvmfTarget 2) ''nqn'' w = Some (NvmfSubsystem 3)"
  by (simp add: create_subsystem_def set_serial_number_def cstring_nul find_subsystem_def cstring_new_def
      demo_nvmf_def subsystem_from_ptr_def nul_def)

end
