(* ===== verification/Poller.thy ===== *)
theory Poller
  imports Thread
begin

text \<open>
  \<open>spdk-io/src/poller.rs\<close>: the background task that drives SPDK from an executor. One poll of an
  \<open>async fn\<close> runs it from where it was suspended to the next suspension; a poll that runs for ever is
  \<open>None\<close>.
\<close>

section \<open>Yielding\<close>

text \<open>Polling \<open>YieldNow\<close>: the result, the new value of its flag, and whether it woke its task.\<close>

definition yield_poll :: "bool \<Rightarrow> unit poll \<times> bool \<times> bool" where
  "yield_poll self = (if self then (Ready (), self, False) else (Pending, True, True))"

definition yield_now :: bool where
  "yield_now = False"

section \<open>The pollers\<close>

text \<open>Not started, or suspended in a \<open>yield_now().await\<close> with the state of that future.\<close>

datatype poller = PollerStart | PollerYield current_thread bool

text \<open>A poll yields its result, whether it woke the task, the new state, and the process.\<close>

type_synonym ('p, 'w) polled = "(unit poll \<times> bool \<times> 'p \<times> 'w process) ending option"

text \<open>The body of \<open>loop\<close>, up to the first suspension.\<close>

partial_function (option) poller_loop ::
  "'w thread_api \<Rightarrow> current_thread \<Rightarrow> 'w process \<Rightarrow> (bool \<times> poller \<times> 'w process) option" where
  "poller_loop api thread s =
     (case current_poll api thread s of (work_done, s) \<Rightarrow>
        if work_done = 0
        then (case yield_poll yield_now of (_, y, woken) \<Rightarrow> Some (woken, PollerYield thread y, s))
        else poller_loop api thread s)"

definition spdk_poller :: "'w thread_api \<Rightarrow> poller \<Rightarrow> 'w process \<Rightarrow> (poller, 'w) polled" where
  "spdk_poller api f s =
     (case f of
        PollerStart \<Rightarrow>
          (case get_current api s of
             None \<Rightarrow> Some (Panicked ''spdk_poller called outside SPDK thread context'')
           | Some thread \<Rightarrow>
               map_option (\<lambda>(woken, f, s). Returned (Pending, woken, f, s)) (poller_loop api thread s))
      | PollerYield thread y \<Rightarrow>
          (case yield_poll y of
             (Pending, y, woken) \<Rightarrow> Some (Returned (Pending, woken, PollerYield thread y, s))
           | (Ready _, _, _) \<Rightarrow>
               map_option (\<lambda>(woken, f, s). Returned (Pending, woken, f, s)) (poller_loop api thread s)))"

text \<open>The limited poller: the rounds left, or the unlimited poller it became for a limit of 0.\<close>

datatype limited =
    LimitedStart u64
  | LimitedYield current_thread nat bool
  | Unlimited poller
  | LimitedDone

fun limited_loop ::
  "'w thread_api \<Rightarrow> current_thread \<Rightarrow> nat \<Rightarrow> 'w process \<Rightarrow> unit poll \<times> bool \<times> limited \<times> 'w process" where
  "limited_loop api thread 0 s = (Ready (), False, LimitedDone, s)"
| "limited_loop api thread (Suc n) s =
     (case current_poll api thread s of (work_done, s) \<Rightarrow>
        if work_done = 0
        then (case yield_poll yield_now of (_, y, woken) \<Rightarrow> (Pending, woken, LimitedYield thread n y, s))
        else limited_loop api thread n s)"

definition unlimited :: "(poller, 'w) polled \<Rightarrow> (limited, 'w) polled" where
  "unlimited = map_option (map_ending (\<lambda>(q, woken, f, s). (q, woken, Unlimited f, s)))"

definition spdk_poller_limited :: "'w thread_api \<Rightarrow> limited \<Rightarrow> 'w process \<Rightarrow> (limited, 'w) polled" where
  "spdk_poller_limited api f s =
     (case f of
        LimitedStart max_iters \<Rightarrow>
          if max_iters = 0 then unlimited (spdk_poller api PollerStart s)
          else (case get_current api s of
                  None \<Rightarrow> Some (Panicked ''spdk_poller_limited called outside SPDK thread context'')
                | Some thread \<Rightarrow> Some (Returned (limited_loop api thread (unat max_iters) s)))
      | LimitedYield thread n y \<Rightarrow>
          (case yield_poll y of
             (Pending, y, woken) \<Rightarrow> Some (Returned (Pending, woken, LimitedYield thread n y, s))
           | (Ready _, _, _) \<Rightarrow> Some (Returned (limited_loop api thread n s)))
      | Unlimited g \<Rightarrow> unlimited (spdk_poller api g s)
      | LimitedDone \<Rightarrow> Some (Panicked ''`async fn` resumed after completion''))"

section \<open>Properties\<close>

text \<open>
  An executor that polls the limited poller until it is ready, as long as it wakes its task: the
  number of suspensions and the final process. The fuel bounds the number of polls.
\<close>

fun drive :: "'w thread_api \<Rightarrow> nat \<Rightarrow> limited \<Rightarrow> 'w process \<Rightarrow> (nat \<times> 'w process) option" where
  "drive api 0 f s = None"
| "drive api (Suc k) f s =
     (case spdk_poller_limited api f s of
        Some (Returned (Ready _, _, _, s)) \<Rightarrow> Some (0, s)
      | Some (Returned (Pending, True, f, s)) \<Rightarrow>
          map_option (\<lambda>(n, s). (Suc n, s)) (drive api k f s)
      | _ \<Rightarrow> None)"

definition tick :: "'w thread_api \<Rightarrow> current_thread \<Rightarrow> 'w process \<Rightarrow> 'w process" where
  "tick api th s = snd (current_poll api th s)"

definition idle_polls :: "'w thread_api \<Rightarrow> current_thread \<Rightarrow> nat \<Rightarrow> 'w process \<Rightarrow> nat" where
  "idle_polls api th n s = card {k. k < n \<and> fst (current_poll api th ((tick api th ^^ k) s)) = 0}"

lemma idle_polls_Suc:
  "idle_polls api th (Suc n) s =
     (if fst (current_poll api th s) = 0 then 1 else 0) + idle_polls api th n (tick api th s)"
proof -
  let ?Z = "\<lambda>k. fst (current_poll api th ((tick api th ^^ k) s)) = 0"
  have "{k. k < Suc n \<and> ?Z k} = {k. k = 0 \<and> ?Z 0} \<union> Suc ` {k. k < n \<and> ?Z (Suc k)}"
    by (auto simp: image_iff less_Suc_eq_0_disj)
  moreover have "card ({k. k = 0 \<and> ?Z 0} \<union> Suc ` {k. k < n \<and> ?Z (Suc k)}) =
      card {k :: nat. k = 0 \<and> ?Z 0} + card (Suc ` {k. k < n \<and> ?Z (Suc k)})"
    by (rule card_Un_disjoint) auto
  moreover have "card {k :: nat. k = 0 \<and> ?Z 0} = (if ?Z 0 then 1 else 0)"
    by (cases "?Z 0") (auto simp: card_Suc_eq)
  moreover have "card (Suc ` {k. k < n \<and> ?Z (Suc k)}) = card {k. k < n \<and> ?Z (Suc k)}"
    by (rule card_image) simp
  ultimately show ?thesis
    unfolding idle_polls_def by (simp add: funpow_swap1)
qed

lemma limited_loop_steps:
  "case limited_loop api th n s of
     (Ready _, _, _, s') \<Rightarrow> idle_polls api th n s = 0 \<and> s' = (tick api th ^^ n) s
   | (Pending, woken, f, s') \<Rightarrow> woken \<and> (\<exists>m < n. f = LimitedYield th m True \<and>
       idle_polls api th n s = Suc (idle_polls api th m s') \<and>
       (tick api th ^^ n) s = (tick api th ^^ m) s')"
proof (induction n arbitrary: s)
  case 0
  then show ?case by (simp add: idle_polls_def)
next
  case (Suc n)
  obtain w s1 where w: "current_poll api th s = (w, s1)" by fastforce
  then have t: "tick api th s = s1" by (simp add: tick_def)
  from Suc.IH [of s1] w t show ?case
    by (auto simp: idle_polls_Suc yield_poll_def yield_now_def funpow_swap1 split: poll.splits
        intro: less_SucI)
qed

lemma drive_yield:
  assumes "n \<le> k"
  shows "drive api (Suc k) (LimitedYield th n True) s = Some (idle_polls api th n s, (tick api th ^^ n) s)"
  using assms
proof (induction k arbitrary: n s)
  case 0
  then show ?case by (simp add: spdk_poller_limited_def yield_poll_def idle_polls_def)
next
  case (Suc k)
  obtain q woken f s' where l: "limited_loop api th n s = (q, woken, f, s')" by (metis surj_pair)
  then have d: "spdk_poller_limited api (LimitedYield th n True) s = Some (Returned (q, woken, f, s'))"
    by (simp add: spdk_poller_limited_def yield_poll_def)
  show ?case
  proof (cases q)
    case (Ready u)
    with limited_loop_steps [of api th n s] l d show ?thesis by simp
  next
    case Pending
    with limited_loop_steps [of api th n s] l obtain m where m: "woken" "m < n" "f = LimitedYield th m True"
      "idle_polls api th n s = Suc (idle_polls api th m s')" "(tick api th ^^ n) s = (tick api th ^^ m) s'"
      by auto
    with Suc.prems have "m \<le> k" by simp
    from Suc.IH [OF this, of s'] m d Pending show ?thesis
      by (simp del: drive.simps(2) add: drive.simps(2) [of _ "Suc k"])
  qed
qed

text \<open>
  C17: The limited poller, with a limit other than 0, polls the thread that was current at its start
  exactly that many times and finishes; it suspends once for each poll that found no work, and wakes
  its task each time, so an executor that polls woken tasks drives it to its end.
\<close>

theorem limited_polls:
  assumes "max_iters \<noteq> 0" "get_current api s = Some th" "unat max_iters \<le> k"
  shows "drive api (Suc k) (LimitedStart max_iters) s =
     Some (idle_polls api th (unat max_iters) s, (tick api th ^^ unat max_iters) s)"
proof -
  have "spdk_poller_limited api (LimitedStart max_iters) s =
      spdk_poller_limited api (LimitedYield th (unat max_iters) True) s"
    using assms(1,2) by (simp add: spdk_poller_limited_def yield_poll_def)
  then have "drive api (Suc k) (LimitedStart max_iters) s =
      drive api (Suc k) (LimitedYield th (unat max_iters) True) s" by simp
  with drive_yield [OF assms(3)] show ?thesis by simp
qed

definition tick_thread :: "nat thread_api" where
  "tick_thread = \<lparr>spdk_thread_lib_init_ext = (\<lambda>_ w. (0, w)), spdk_thread_lib_init = (\<lambda>w. (0, w)),
     spdk_thread_lib_fini = (\<lambda>w. w), spdk_thread_create = (\<lambda>_ w. (5, w)),
     spdk_set_thread = (\<lambda>_ w. w), spdk_get_thread = (\<lambda>_. 5), spdk_thread_get_app_thread = (\<lambda>_. 5),
     spdk_thread_poll = (\<lambda>_ _ _ w. (if w = 1 then 0 else 1, Suc w)),
     spdk_thread_has_active_pollers = (\<lambda>_ _. 0), spdk_thread_has_pollers = (\<lambda>_ _. False),
     spdk_thread_is_idle = (\<lambda>_ _. True), spdk_thread_is_running = (\<lambda>_ _. True),
     spdk_thread_is_exited = (\<lambda>_ w. True), spdk_thread_get_name = (\<lambda>_ _. Some ''worker''),
     spdk_thread_get_id = (\<lambda>_ _. 1), spdk_thread_get_count = (\<lambda>w. 1),
     spdk_thread_exit = (\<lambda>_ w. w), spdk_thread_destroy = (\<lambda>_ w. w),
     spdk_thread_send_msg = (\<lambda>_ p w. (0, w))\<rparr>"

theorem limited_polls_witness:
  "drive tick_thread (Suc 3) (LimitedStart 3) (fresh_process 0) = Some (1, fresh_process 3)"
proof -
  have th: "get_current tick_thread (fresh_process 0) = Some (CurrentThread 5)"
    by (simp add: get_current_def tick_thread_def)
  have tick: "tick tick_thread (CurrentThread 5) (fresh_process k) = fresh_process (Suc k)" for k
    by (simp add: tick_def current_poll_def call_def tick_thread_def fresh_process_def)
  have idle: "idle_polls tick_thread (CurrentThread 5) 3 (fresh_process 0) = 1"
    by (simp add: numeral_3_eq_3 idle_polls_Suc tick)
      (simp add: idle_polls_def current_poll_def call_def tick_thread_def fresh_process_def)
  have end_state: "(tick tick_thread (CurrentThread 5) ^^ 3) (fresh_process 0) = fresh_process 3"
    by (simp add: numeral_3_eq_3 tick)
  have u: "unat (3 :: u64) = 3" by simp
  have "drive tick_thread (Suc 3) (LimitedStart 3) (fresh_process 0) =
      Some (idle_polls tick_thread (CurrentThread 5) (unat (3 :: u64)) (fresh_process 0),
        (tick tick_thread (CurrentThread 5) ^^ unat (3 :: u64)) (fresh_process 0))"
    by (rule limited_polls [OF _ th]) simp_all
  then show ?thesis unfolding u idle end_state .
qed

text \<open>
  Once started on an SPDK thread, the poller never finishes: at each poll it polls the thread until
  a poll finds no work, then suspends with its task woken.
\<close>

theorem poller_suspends:
  assumes "get_current api s = Some th"
    and "\<And>k. k < n \<Longrightarrow> fst (current_poll api th ((tick api th ^^ k) s)) \<noteq> 0"
    and "fst (current_poll api th ((tick api th ^^ n) s)) = 0"
  shows "spdk_poller api PollerStart s =
       Some (Returned (Pending, True, PollerYield th True, (tick api th ^^ Suc n) s)) \<and>
     spdk_poller api (PollerYield th True) s =
       Some (Returned (Pending, True, PollerYield th True, (tick api th ^^ Suc n) s))"
proof -
  have "poller_loop api th s = Some (True, PollerYield th True, (tick api th ^^ Suc n) s)"
    using assms(2,3)
  proof (induction n arbitrary: s)
    case 0
    then show ?case
      by (subst poller_loop.simps) (auto simp: tick_def yield_poll_def yield_now_def split: prod.splits)
  next
    case (Suc n)
    have "poller_loop api th (tick api th s) = Some (True, PollerYield th True, (tick api th ^^ Suc n) (tick api th s))"
    proof (rule Suc.IH)
      show "fst (current_poll api th ((tick api th ^^ k) (tick api th s))) \<noteq> 0" if "k < n" for k
        using Suc.prems(1) [of "Suc k"] that by (simp add: funpow_swap1)
      show "fst (current_poll api th ((tick api th ^^ n) (tick api th s))) = 0"
        using Suc.prems(2) by (simp add: funpow_swap1)
    qed
    moreover have "poller_loop api th s = poller_loop api th (tick api th s)"
      using Suc.prems(1) [of 0] by (subst poller_loop.simps) (auto simp: tick_def split: prod.splits)
    ultimately show ?case by (simp add: funpow_swap1)
  qed
  with assms(1) show ?thesis by (simp add: spdk_poller_def yield_poll_def)
qed

theorem poller_suspends_witness:
  "spdk_poller tick_thread PollerStart (fresh_process 0) =
     Some (Returned (Pending, True, PollerYield (CurrentThread 5) True, fresh_process 2))"
proof -
  have tick: "tick tick_thread (CurrentThread 5) (fresh_process k) = fresh_process (Suc k)" for k
    by (simp add: tick_def current_poll_def call_def tick_thread_def fresh_process_def)
  have work: "fst (current_poll tick_thread (CurrentThread 5) (fresh_process k)) = (if k = 1 then 0 else 1)" for k
    by (simp add: current_poll_def call_def tick_thread_def fresh_process_def)
  have "spdk_poller tick_thread PollerStart (fresh_process 0) =
     Some (Returned (Pending, True, PollerYield (CurrentThread 5) True,
       (tick tick_thread (CurrentThread 5) ^^ Suc 1) (fresh_process 0)))"
    by (rule poller_suspends [THEN conjunct1])
      (simp_all add: get_current_def tick work, simp add: tick_thread_def)
  then show ?thesis by (simp add: tick numeral_2_eq_2)
qed

end
