(* ===== verification/Event.thy ===== *)
theory Event
  imports Dispatch
begin

text \<open>
  \<open>spdk-io/src/event.rs\<close>: the cores and their iterator, and events, closures dispatched to a core. An
  event owns its boxed closure until it is called; then SPDK does, and the trampoline frees it.
\<close>

section \<open>Cores\<close>

record 'w event_api =
  spdk_env_get_current_core :: "'w \<Rightarrow> u32"
  spdk_env_get_first_core :: "'w \<Rightarrow> u32"
  spdk_env_get_last_core :: "'w \<Rightarrow> u32"
  spdk_env_get_core_count :: "'w \<Rightarrow> u32"
  spdk_env_get_next_core :: "u32 \<Rightarrow> 'w \<Rightarrow> u32"
  spdk_event_allocate :: "u32 \<Rightarrow> ptr \<Rightarrow> 'w \<Rightarrow> ptr \<times> 'w"
  spdk_event_call :: "ptr \<Rightarrow> 'w \<Rightarrow> 'w"

definition cores_current :: "'w event_api \<Rightarrow> 'w \<Rightarrow> u32" where
  "cores_current api w = spdk_env_get_current_core api w"

definition cores_first :: "'w event_api \<Rightarrow> 'w \<Rightarrow> u32" where
  "cores_first api w = spdk_env_get_first_core api w"

definition cores_last :: "'w event_api \<Rightarrow> 'w \<Rightarrow> u32" where
  "cores_last api w = spdk_env_get_last_core api w"

definition cores_count :: "'w event_api \<Rightarrow> 'w \<Rightarrow> u32" where
  "cores_count api w = spdk_env_get_core_count api w"

datatype core_iterator = CoreIterator (iter_current: u32)

definition cores_iter :: core_iterator where
  "cores_iter = CoreIterator u32_max"

definition core_next :: "'w event_api \<Rightarrow> core_iterator \<Rightarrow> 'w \<Rightarrow> u32 option \<times> core_iterator" where
  "core_next api self w =
     (if iter_current self = u32_max
      then let c = cores_first api w in (Some c, CoreIterator c)
      else let n = spdk_env_get_next_core api (iter_current self) w
           in if n = u32_max then (None, self) else (Some n, CoreIterator n))"

section \<open>Events\<close>

datatype spdk_event = SpdkEvent (event_ptr: ptr) (closure_ptr: ptr)

definition event_new ::
  "'w event_api \<Rightarrow> u32 \<Rightarrow> 'f message \<Rightarrow> ('c, 'f, 'w) courier \<Rightarrow>
     ((error, spdk_event) result \<times> ('c, 'f, 'w) courier) option" where
  "event_new api lcore f s =
     (case box_into_raw f (closures s) of (arg1, h) \<Rightarrow>
      case spdk_event_allocate api lcore arg1 (host s) of (p, w) \<Rightarrow>
        let s = s\<lparr>closures := h, host := w\<rparr>
        in if p = null
           then (case box_from_raw arg1 (closures s) of
                   None \<Rightarrow> None
                 | Some (_, h) \<Rightarrow>
                     Some (Inl (InvalidArgument (''Failed to allocate event for lcore '' @
                             unsigned_to_string lcore @ ''. Is it in reactor_mask?'')),
                           s\<lparr>closures := h\<rparr>))
           else Some (Inr (SpdkEvent p arg1), s))"

text \<open>\<open>call\<close> consumes the event without running its destructor.\<close>

definition event_call :: "'w event_api \<Rightarrow> spdk_event \<Rightarrow> ('c, 'f, 'w) courier \<Rightarrow> ('c, 'f, 'w) courier" where
  "event_call api self s = s\<lparr>host := spdk_event_call api (event_ptr self) (host s)\<rparr>"

definition event_drop :: "spdk_event \<Rightarrow> ('c, 'f, 'w) courier \<Rightarrow> ('c, 'f, 'w) courier option" where
  "event_drop self s =
     (if closure_ptr self \<noteq> null
      then (case box_from_raw (closure_ptr self) (closures s) of
              None \<Rightarrow> None
            | Some (_, h) \<Rightarrow> Some (s\<lparr>closures := h\<rparr>))
      else Some s)"

definition call_on ::
  "'w event_api \<Rightarrow> u32 \<Rightarrow> 'f message \<Rightarrow> ('c, 'f, 'w) courier \<Rightarrow>
     ((error, unit) result \<times> ('c, 'f, 'w) courier) option" where
  "call_on api lcore f s =
     (case event_new api lcore f s of
        None \<Rightarrow> None
      | Some (Inl e, s) \<Rightarrow> Some (Inl e, s)
      | Some (Inr ev, s) \<Rightarrow> Some (Inr (), event_call api ev s))"

text \<open>If the event is not made, the sender goes down with the closure; the receiver with the error.\<close>

definition call_on_async ::
  "'w event_api \<Rightarrow> ('c, (error, 'a) result) oneshot \<Rightarrow> u32 \<Rightarrow> 'f \<Rightarrow> ('c, 'f, 'w) courier \<Rightarrow>
     ((error, completion_receiver) result \<times> ('c, 'f, 'w) courier) option" where
  "call_on_async api os lcore f s =
     (case completion os (courier_chans s) of (t, r, c) \<Rightarrow>
      case call_on api lcore (RunAndSend f t) (s\<lparr>courier_chans := c\<rparr>) of
        None \<Rightarrow> None
      | Some (Inl e, s) \<Rightarrow>
          Some (Inl e, s\<lparr>courier_chans := os_drop_rx os (rx r) (os_drop_tx os (tx t) (courier_chans s))\<rparr>)
      | Some (Inr _, s) \<Rightarrow> Some (Inr r, s))"

definition event_trampoline ::
  "('c, (error, 'a) result) oneshot \<Rightarrow> ('f \<Rightarrow> 'a) \<Rightarrow> ptr \<Rightarrow> ('c, 'f, 'w) courier \<Rightarrow>
     ('c, 'f, 'w) courier option" where
  "event_trampoline os eval arg1 s =
     (case box_from_raw arg1 (closures s) of
        None \<Rightarrow> None
      | Some (boxed, h) \<Rightarrow> Some (run_message os eval boxed (s\<lparr>closures := h\<rparr>)))"

section \<open>Iterating over the cores\<close>

text \<open>SPDK lists the cores \<open>cs\<close>: the first, each one's successor, and no successor of the last.\<close>

fun successors :: "'w event_api \<Rightarrow> 'w \<Rightarrow> u32 list \<Rightarrow> bool" where
  "successors api w [] = False"
| "successors api w [c] = (c \<noteq> u32_max \<and> spdk_env_get_next_core api c w = u32_max)"
| "successors api w (c # d # cs) =
     (c \<noteq> u32_max \<and> spdk_env_get_next_core api c w = d \<and> successors api w (d # cs))"

definition lists_cores :: "'w event_api \<Rightarrow> 'w \<Rightarrow> u32 list \<Rightarrow> bool" where
  "lists_cores api w cs \<longleftrightarrow> successors api w cs \<and> spdk_env_get_first_core api w = hd cs"

fun iterate_cores :: "'w event_api \<Rightarrow> 'w \<Rightarrow> nat \<Rightarrow> core_iterator \<Rightarrow> u32 option list" where
  "iterate_cores api w 0 it = []"
| "iterate_cores api w (Suc n) it =
     (case core_next api it w of (x, it) \<Rightarrow> x # iterate_cores api w n it)"

lemma iterate_last:
  "c \<noteq> u32_max \<Longrightarrow> spdk_env_get_next_core api c w = u32_max \<Longrightarrow>
     iterate_cores api w n (CoreIterator c) = replicate n None"
  by (induction n) (simp_all add: core_next_def Let_def)

lemma iterate_from:
  "successors api w (c # cs) \<Longrightarrow>
     iterate_cores api w (length cs + n) (CoreIterator c) = map Some cs @ replicate n None"
proof (induction cs arbitrary: c)
  case Nil
  then show ?case by (simp add: iterate_last)
next
  case (Cons d cs)
  then have "d \<noteq> u32_max" by (cases cs) simp_all
  with Cons show ?case by (simp add: core_next_def Let_def)
qed

text \<open>
  If SPDK lists the cores \<open>cs\<close>, the iterator yields exactly \<open>cs\<close>, in order, and then nothing,
  however often it is asked.
\<close>

theorem cores_iterated:
  assumes "lists_cores api w cs"
  shows "iterate_cores api w (length cs + n) cores_iter = map Some cs @ replicate n None"
proof -
  from assms obtain c ds where cs: "cs = c # ds" "successors api w (c # ds)"
    "spdk_env_get_first_core api w = c" by (cases cs) (auto simp: lists_cores_def)
  from cs(2) have "c \<noteq> u32_max" by (cases ds) simp_all
  with cs iterate_from [OF cs(2), of n] show ?thesis
    by (simp add: cores_iter_def core_next_def cores_first_def Let_def)
qed

definition demo_event :: "ptr list event_api" where
  "demo_event = \<lparr>spdk_env_get_current_core = (\<lambda>_. 0), spdk_env_get_first_core = (\<lambda>_. 0),
     spdk_env_get_last_core = (\<lambda>_. 5), spdk_env_get_core_count = (\<lambda>_. 3),
     spdk_env_get_next_core = (\<lambda>c _. if c = 0 then 2 else if c = 2 then 5 else - 1),
     spdk_event_allocate = (\<lambda>lcore p w. (if lcore = 2 then p else 0, w)),
     spdk_event_call = (\<lambda>p w. w @ [p])\<rparr>"

theorem cores_iterated_witness:
  "iterate_cores demo_event [] 5 cores_iter = [Some 0, Some 2, Some 5, None, None]"
proof -
  have "lists_cores demo_event [] [0, 2, 5]" by (simp add: lists_cores_def demo_event_def)
  from cores_iterated [OF this, of 2] show ?thesis by (simp add: numeral_2_eq_2 numeral_3_eq_3 eval_nat_numeral)
qed

section \<open>The closure of an event\<close>

text \<open>
  C29: The closure of an event is freed exactly once: by \<open>new\<close> if SPDK makes no event; otherwise it stays
  boxed until the event is dropped, or, if it is called, until the trampoline runs it; each restores the
  closures alive before, and none is undefined.
\<close>

theorem event_closure_freed:
  assumes "boxes_ok (closures s)"
  shows "(\<exists>e s'. event_new api lcore f s = Some (Inl e, s') \<and> cells (closures s') = cells (closures s) \<and>
       executed s' = executed s) \<or>
     (\<exists>ev s'. event_new api lcore f s = Some (Inr ev, s') \<and>
       (\<exists>t. event_drop ev s' = Some t \<and> cells (closures t) = cells (closures s) \<and> executed t = executed s) \<and>
       (\<exists>t. event_trampoline os eval (closure_ptr ev) (event_call api ev s') = Some t \<and>
          cells (closures t) = cells (closures s) \<and> executed t = executed s @ [f]))"
proof -
  obtain p h where p: "box_into_raw f (closures s) = (p, h)" by fastforce
  obtain q w where q: "spdk_event_allocate api lcore p (host s) = (q, w)" by fastforce
  from box.into_fresh [OF assms p] have nn: "p \<noteq> null" by simp
  from box.round_trip [OF assms p] obtain h' where
    h': "box_from_raw p h = Some (f, h')" "cells h' = cells (closures s)" by blast
  show ?thesis
  proof (cases "q = null")
    case True
    with p q h' show ?thesis by (intro disjI1) (simp add: event_new_def Let_def)
  next
    case False
    with p q h' nn show ?thesis
      by (intro disjI2) (simp add: event_new_def event_drop_def event_trampoline_def event_call_def Let_def)
  qed
qed

theorem event_closure_freed_witness:
  "\<exists>ev s' t. event_new demo_event 2 (Run (7 :: nat)) (no_closures no_chans []) = Some (Inr ev, s') \<and>
     event_trampoline ref_oneshot (\<lambda>n :: nat. n) (closure_ptr ev) (event_call demo_event ev s') = Some t \<and>
     cells (closures t) = Map.empty \<and> executed t = [Run 7]"
proof -
  let ?s = "no_closures (no_chans :: (error, nat) result chan_store) [] :: (_, nat, ptr list) courier"
  obtain s' where n: "event_new demo_event 2 (Run 7) ?s = Some (Inr (SpdkEvent 1 1), s')"
    by (simp add: event_new_def demo_event_def no_closures_def no_boxes_def box_into_raw_def Let_def)
  have "boxes_ok (closures ?s)" "cells (closures ?s) = Map.empty" "executed ?s = []"
    by (simp_all add: no_closures_def no_boxes_def boxes_ok_def)
  with event_closure_freed [of ?s demo_event 2 "Run 7" ref_oneshot "\<lambda>n :: nat. n"] n show ?thesis by auto
qed

text \<open>
  SPDK's documentation: allocating an event queues nothing, calling it appends its context to the queue
  of its core; the reactor takes events from the head (\<open>pop\<close>).
\<close>

definition event_contract :: "'w event_api \<Rightarrow> u32 \<Rightarrow> ('w \<Rightarrow> ptr list) \<Rightarrow> ('w \<Rightarrow> 'w) \<Rightarrow> bool" where
  "event_contract api lcore queue pop \<longleftrightarrow>
     (\<forall>p w. let (e, w') = spdk_event_allocate api lcore p w in
        queue w' = queue w \<and> (e \<noteq> null \<longrightarrow> queue (spdk_event_call api e w') = queue w @ [p])) \<and>
     (\<forall>w. queue (pop w) = tl (queue w))"

lemma event_contractD:
  assumes "event_contract api lcore queue pop" "spdk_event_allocate api lcore p w = (e, w')"
  shows "queue w' = queue w" and "e \<noteq> null \<Longrightarrow> queue (spdk_event_call api e w') = queue w @ [p]"
proof -
  from assms(1) have "let (e, w') = spdk_event_allocate api lcore p w in
      queue w' = queue w \<and> (e \<noteq> null \<longrightarrow> queue (spdk_event_call api e w') = queue w @ [p])"
    unfolding event_contract_def by blast
  with assms(2) show "queue w' = queue w" "e \<noteq> null \<Longrightarrow> queue (spdk_event_call api e w') = queue w @ [p]"
    by simp_all
qed

text \<open>The state after \<open>call_on\<close>, whatever it returned.\<close>

definition post_event ::
  "'w event_api \<Rightarrow> u32 \<Rightarrow> 'f message \<Rightarrow> ('c, 'f, 'w) courier \<Rightarrow> ('c, 'f, 'w) courier" where
  "post_event api lcore f s = (case call_on api lcore f s of Some (_, s') \<Rightarrow> s' | None \<Rightarrow> s)"

lemma call_on_eq:
  assumes "boxes_ok (closures s)" "box_into_raw f (closures s) = (p, h)"
    and "spdk_event_allocate api lcore p (host s) = (e, w)"
  shows "e = null \<Longrightarrow> \<exists>h' m. call_on api lcore f s = Some (Inl (InvalidArgument m), s\<lparr>host := w, closures := h'\<rparr>) \<and>
       boxes_ok h' \<and> cells h' = cells (closures s)"
    and "e \<noteq> null \<Longrightarrow> call_on api lcore f s =
       Some (Inr (), s\<lparr>closures := h, host := spdk_event_call api e w\<rparr>)"
proof -
  from box.round_trip [OF assms(1,2)] obtain h' where
    h': "box_from_raw p h = Some (f, h')" "cells h' = cells (closures s)" by blast
  with box.from_ok [OF box.into_ok [OF assms(1,2)]] assms(2,3)
  show "e = null \<Longrightarrow> \<exists>h' m. call_on api lcore f s = Some (Inl (InvalidArgument m), s\<lparr>host := w, closures := h'\<rparr>) \<and>
       boxes_ok h' \<and> cells h' = cells (closures s)"
    by (intro exI [of _ h']) (simp add: call_on_def event_new_def Let_def)
  from assms(2,3) show "e \<noteq> null \<Longrightarrow> call_on api lcore f s =
       Some (Inr (), s\<lparr>closures := h, host := spdk_event_call api e w\<rparr>)"
    by (simp add: call_on_def event_new_def event_call_def Let_def)
qed

interpretation events: dispatch "post_event api lcore" "event_trampoline os eval" "\<lambda>s. queue (host s)"
    "\<lambda>s. s\<lparr>host := pop (host s)\<rparr>" "\<lambda>s. cells (closures s)" executed
    "\<lambda>s. boxes_ok (closures s) \<and> event_contract api lcore queue pop"
    "\<forall>p w. fst (spdk_event_allocate api lcore p w) \<noteq> null"
  for api :: "'w event_api" and lcore queue pop
    and os :: "('c, (error, 'a) result) oneshot" and eval :: "'f \<Rightarrow> 'a"
proof
  fix s :: "('c, 'f, 'w) courier" and m :: "'f message"
  assume ok: "boxes_ok (closures s) \<and> event_contract api lcore queue pop"
  obtain p h where p: "box_into_raw m (closures s) = (p, h)" by fastforce
  obtain e w where e: "spdk_event_allocate api lcore p (host s) = (e, w)" by fastforce
  note call = call_on_eq [OF conjunct1 [OF ok] p e] and con = event_contractD [OF conjunct2 [OF ok] e]
  note h = box.into_contents [OF p] box.into_fresh [OF conjunct1 [OF ok] p] box.into_ok [OF conjunct1 [OF ok] p]
  show "(boxes_ok (closures (post_event api lcore m s)) \<and> event_contract api lcore queue pop) \<and>
      executed (post_event api lcore m s) = executed s"
    using ok h call by (cases "e = null") (auto simp: post_event_def)
  show "(\<exists>p. cells (closures s) p = None \<and>
          cells (closures (post_event api lcore m s)) = (cells (closures s))(p \<mapsto> m) \<and>
          queue (host (post_event api lcore m s)) = queue (host s) @ [p]) \<or>
      \<not> (\<forall>p w. fst (spdk_event_allocate api lcore p w) \<noteq> null) \<and>
      cells (closures s) \<subseteq>\<^sub>m cells (closures (post_event api lcore m s)) \<and>
      queue (host (post_event api lcore m s)) = queue (host s)"
  proof (cases "e = null")
    case True
    with e have "\<not> (\<forall>p w. fst (spdk_event_allocate api lcore p w) \<noteq> null)" by (metis fst_conv)
    with call(1) [OF True] con(1) show ?thesis by (intro disjI2) (auto simp: post_event_def)
  next
    case False
    with call(2) con(2) h show ?thesis by (intro disjI1 exI [of _ p]) (simp add: post_event_def)
  qed
  show "(boxes_ok (closures (s\<lparr>host := pop (host s)\<rparr>)) \<and> event_contract api lcore queue pop) \<and>
      executed (s\<lparr>host := pop (host s)\<rparr>) = executed s \<and>
      cells (closures (s\<lparr>host := pop (host s)\<rparr>)) = cells (closures s) \<and>
      queue (host (s\<lparr>host := pop (host s)\<rparr>)) = tl (queue (host s))"
    using ok by (simp add: event_contract_def)
next
  fix s :: "('c, 'f, 'w) courier" and m :: "'f message" and p
  assume ok: "boxes_ok (closures s) \<and> event_contract api lcore queue pop" and p: "cells (closures s) p = Some m"
  from box.from_Some [OF p] obtain h where h: "box_from_raw p (closures s) = Some (m, h)"
    "cells h = (cells (closures s))(p := None)" by blast
  with box.from_ok [OF conjunct1 [OF ok] h(1)] ok show "\<exists>s'. event_trampoline os eval p s = Some s' \<and>
      (boxes_ok (closures s') \<and> event_contract api lcore queue pop) \<and>
      cells (closures s') = (cells (closures s))(p := None) \<and>
      executed s' = executed s @ [m] \<and> queue (host s') = queue (host s)"
    by (simp add: event_trampoline_def)
qed

text \<open>
  Whatever is dispatched to a core and whenever its reactor runs, every event finds its closure, and
  the closures run, followed by those queued, are a subsequence of the ones dispatched, in order: all
  of them if SPDK always makes the event.
\<close>

theorem events_fifo:
  assumes "event_contract api lcore queue pop" "queue w = []"
  shows "\<exists>s. dispatch_ops (post_event api lcore) (event_trampoline os eval) (\<lambda>s. queue (host s))
         (\<lambda>s. s\<lparr>host := pop (host s)\<rparr>) ops (no_closures c w) = Some s \<and>
     subseq (executed s @ map (\<lambda>p. the (cells (closures s) p)) (queue (host s))) (posted ops) \<and>
     ((\<forall>p w. fst (spdk_event_allocate api lcore p w) \<noteq> null) \<longrightarrow>
       executed s @ map (\<lambda>p. the (cells (closures s) p)) (queue (host s)) = posted ops)"
proof -
  have "boxes_ok (closures (no_closures c w)) \<and> event_contract api lcore queue pop"
    "queue (host (no_closures c w)) = []" "executed (no_closures c w) = []"
    using assms by (simp_all add: no_closures_def)
  from events.ops_fifo [OF this] show ?thesis unfolding events.queued_def .
qed

theorem events_fifo_witness:
  "\<exists>s. dispatch_ops (post_event demo_event 2) (event_trampoline ref_oneshot (\<lambda>n :: nat. n))
         (\<lambda>s. host s) (\<lambda>s. s\<lparr>host := tl (host s)\<rparr>)
         [Post (Run 1), Deliver, Post (Run 2), Deliver, Deliver, Post (Run 3)]
         (no_closures no_chans []) = Some s \<and>
     subseq (executed s @ map (\<lambda>p. the (cells (closures s) p)) (host s)) [Run 1, Run 2, Run 3]"
proof -
  have "event_contract demo_event 2 (\<lambda>w. w) tl" by (simp add: event_contract_def demo_event_def)
  from events_fifo [OF this, where w = "[]" and os = ref_oneshot and eval = "\<lambda>n :: nat. n" and c = no_chans
      and ops = "[Post (Run 1), Deliver, Post (Run 2), Deliver, Deliver, Post (Run 3)]"]
  show ?thesis by auto
qed

end
