(* ===== verification/Env.thy ===== *)
theory Env
  imports Process
begin

text \<open>
  \<open>spdk-io/src/env.rs\<close>: the environment of the process, built once from a builder behind the flag
  \<open>ENV_INITIALIZED\<close>. The C struct of options is a record of the fields the builder sets and the others.
\<close>

datatype log_level = LogDisabled | LogError | LogWarn | LogNotice | LogInfo | LogDebug

record env_builder =
  env_name :: "string option"
  core_mask :: "string option"
  mem_size_mb :: "i32 option"
  env_shm_id :: "i32 option"
  env_no_pci :: bool
  env_no_huge :: bool
  hugepage_single_segments :: bool
  env_main_core :: "i32 option"
  env_log_level :: "log_level option"

text \<open>A \<open>char *\<close> field of the C struct is the string it points to, \<open>None\<close> for null.\<close>

record 'o env_opts =
  opts_size :: nat
  opts_name :: "string option"
  opts_core_mask :: "string option"
  opts_mem_size :: i32
  opts_shm_id :: i32
  opts_main_core :: i32
  opts_no_pci :: bool
  opts_no_huge :: bool
  opts_hugepage_single_segments :: bool
  opts_rest :: 'o

record ('o, 'w) env_api =
  env_opts_size :: nat
  spdk_env_opts_init :: "'w \<Rightarrow> 'o env_opts"
  spdk_log_set_print_level :: "i32 \<Rightarrow> 'w \<Rightarrow> 'w"
  spdk_env_init :: "'o env_opts \<Rightarrow> 'w \<Rightarrow> i32 \<times> 'w"
  spdk_env_fini :: "'w \<Rightarrow> 'w"
  log_level_value :: "log_level \<Rightarrow> i32"

definition env_builder_new :: env_builder where
  "env_builder_new = \<lparr>env_name = None, core_mask = None, mem_size_mb = None, env_shm_id = None,
     env_no_pci = False, env_no_huge = False, hugepage_single_segments = False, env_main_core = None,
     env_log_level = None\<rparr>"

definition env_builder_default :: env_builder where
  "env_builder_default = env_builder_new"

text \<open>\<open>SpdkEnv::builder\<close>.\<close>

definition env_make_builder :: env_builder where
  "env_make_builder = env_builder_new"

definition set_name :: "string \<Rightarrow> env_builder \<Rightarrow> env_builder" where
  "set_name n self = self\<lparr>env_name := Some n\<rparr>"

definition set_core_mask :: "string \<Rightarrow> env_builder \<Rightarrow> env_builder" where
  "set_core_mask m self = self\<lparr>core_mask := Some m\<rparr>"

definition set_mem_size_mb :: "i32 \<Rightarrow> env_builder \<Rightarrow> env_builder" where
  "set_mem_size_mb mb self = self\<lparr>mem_size_mb := Some mb\<rparr>"

definition set_shm_id :: "i32 \<Rightarrow> env_builder \<Rightarrow> env_builder" where
  "set_shm_id i self = self\<lparr>env_shm_id := Some i\<rparr>"

definition set_no_pci :: "bool \<Rightarrow> env_builder \<Rightarrow> env_builder" where
  "set_no_pci b self = self\<lparr>env_no_pci := b\<rparr>"

definition set_no_huge :: "bool \<Rightarrow> env_builder \<Rightarrow> env_builder" where
  "set_no_huge b self = self\<lparr>env_no_huge := b\<rparr>"

definition set_hugepage_single_segments :: "bool \<Rightarrow> env_builder \<Rightarrow> env_builder" where
  "set_hugepage_single_segments b self = self\<lparr>hugepage_single_segments := b\<rparr>"

definition set_main_core :: "i32 \<Rightarrow> env_builder \<Rightarrow> env_builder" where
  "set_main_core c self = self\<lparr>env_main_core := Some c\<rparr>"

definition set_log_level :: "log_level \<Rightarrow> env_builder \<Rightarrow> env_builder" where
  "set_log_level l self = self\<lparr>env_log_level := Some l\<rparr>"

text \<open>A built environment is the unit value \<open>()\<close>: the struct has one private unit field.\<close>

definition env_build ::
  "('o, 'w) env_api \<Rightarrow> env_builder \<Rightarrow> 'w process \<Rightarrow> (error, unit) result \<times> 'w process" where
  "env_build api self s =
     (let was = ENV_INITIALIZED s; s = s\<lparr>ENV_INITIALIZED := True\<rparr>
      in if was then (Inl AlreadyInitialized, s)
         else case transpose_map cstring (env_name self) of
           Inl e \<Rightarrow> (Inl e, s)
         | Inr name_cstr \<Rightarrow> case transpose_map cstring (core_mask self) of
           Inl e \<Rightarrow> (Inl e, s)
         | Inr core_mask_cstr \<Rightarrow>
             let opts = spdk_env_opts_init api (spdk s);
                 opts = opts\<lparr>opts_size := env_opts_size api\<rparr>;
                 opts = (case name_cstr of Some n \<Rightarrow> opts\<lparr>opts_name := Some n\<rparr> | None \<Rightarrow> opts);
                 opts = (case core_mask_cstr of Some m \<Rightarrow> opts\<lparr>opts_core_mask := Some m\<rparr> | None \<Rightarrow> opts);
                 opts = (case mem_size_mb self of Some m \<Rightarrow> opts\<lparr>opts_mem_size := m\<rparr> | None \<Rightarrow> opts);
                 opts = (case env_shm_id self of Some i \<Rightarrow> opts\<lparr>opts_shm_id := i\<rparr> | None \<Rightarrow> opts);
                 opts = (case env_main_core self of Some c \<Rightarrow> opts\<lparr>opts_main_core := c\<rparr> | None \<Rightarrow> opts);
                 opts = opts\<lparr>opts_no_pci := env_no_pci self\<rparr>;
                 opts = opts\<lparr>opts_no_huge := env_no_huge self\<rparr>;
                 opts = opts\<lparr>opts_hugepage_single_segments := hugepage_single_segments self\<rparr>;
                 s = (case env_log_level self of
                        Some level \<Rightarrow> exec (spdk_log_set_print_level api (log_level_value api level)) s
                      | None \<Rightarrow> s)
             in case call (spdk_env_init api opts) s of (rc, s) \<Rightarrow>
                  if rc \<noteq> 0
                  then (Inl (EnvInit (''spdk_env_init failed with error code '' @ i32_to_string rc)),
                        s\<lparr>ENV_INITIALIZED := False\<rparr>)
                  else (Inr (), s))"

definition env_init_default ::
  "('o, 'w) env_api \<Rightarrow> 'w process \<Rightarrow> (error, unit) result \<times> 'w process" where
  "env_init_default api s = env_build api env_builder_new s"

definition env_is_initialized :: "'w process \<Rightarrow> bool" where
  "env_is_initialized s = ENV_INITIALIZED s"

definition env_drop :: "('o, 'w) env_api \<Rightarrow> 'w process \<Rightarrow> 'w process" where
  "env_drop api s = (exec (spdk_env_fini api) s)\<lparr>ENV_INITIALIZED := False\<rparr>"

section \<open>Properties\<close>

definition has_nul :: "string option \<Rightarrow> bool" where
  "has_nul x \<longleftrightarrow> (\<exists>s. x = Some s \<and> nul \<in> set s)"

lemma transpose_cstring:
  "has_nul x \<Longrightarrow> \<exists>n s. transpose_map cstring x = Inl (NulError n s)"
  "\<not> has_nul x \<Longrightarrow> transpose_map cstring x = Inr x"
  by (auto simp: has_nul_def transpose_map_def cstring_nul split: option.splits)

text \<open>The options given to SPDK.\<close>

definition env_opts_of :: "('o, 'w) env_api \<Rightarrow> env_builder \<Rightarrow> 'w \<Rightarrow> 'o env_opts" where
  "env_opts_of api b w = (let d = spdk_env_opts_init api w in
     \<lparr>opts_size = env_opts_size api,
      opts_name = (if env_name b = None then opts_name d else env_name b),
      opts_core_mask = (if core_mask b = None then opts_core_mask d else core_mask b),
      opts_mem_size = unwrap_or (mem_size_mb b) (opts_mem_size d),
      opts_shm_id = unwrap_or (env_shm_id b) (opts_shm_id d),
      opts_main_core = unwrap_or (env_main_core b) (opts_main_core d),
      opts_no_pci = env_no_pci b, opts_no_huge = env_no_huge b,
      opts_hugepage_single_segments = hugepage_single_segments b, opts_rest = opts_rest d\<rparr>)"

definition env_log :: "('o, 'w) env_api \<Rightarrow> env_builder \<Rightarrow> 'w \<Rightarrow> 'w" where
  "env_log api b w = (case env_log_level b of
     Some l \<Rightarrow> spdk_log_set_print_level api (log_level_value api l) w | None \<Rightarrow> w)"

lemma env_build_cases:
  shows "ENV_INITIALIZED s \<Longrightarrow> env_build api b s = (Inl AlreadyInitialized, s)"
    and "\<not> ENV_INITIALIZED s \<Longrightarrow> has_nul (env_name b) \<or> has_nul (core_mask b) \<Longrightarrow>
      \<exists>n t. env_build api b s = (Inl (NulError n t), s\<lparr>ENV_INITIALIZED := True\<rparr>)"
    and "\<not> ENV_INITIALIZED s \<Longrightarrow> \<not> has_nul (env_name b) \<Longrightarrow> \<not> has_nul (core_mask b) \<Longrightarrow>
      spdk_env_init api (env_opts_of api b (spdk s)) (env_log api b (spdk s)) = (rc, w) \<Longrightarrow>
      env_build api b s = (if rc = 0 then (Inr (), s\<lparr>ENV_INITIALIZED := True, spdk := w\<rparr>)
        else (Inl (EnvInit (''spdk_env_init failed with error code '' @ i32_to_string rc)),
              s\<lparr>ENV_INITIALIZED := False, spdk := w\<rparr>))"
proof -
  show "ENV_INITIALIZED s \<Longrightarrow> env_build api b s = (Inl AlreadyInitialized, s)"
    by (simp add: env_build_def)
  show "\<exists>n t. env_build api b s = (Inl (NulError n t), s\<lparr>ENV_INITIALIZED := True\<rparr>)"
    if "\<not> ENV_INITIALIZED s" "has_nul (env_name b) \<or> has_nul (core_mask b)"
  proof (cases "has_nul (env_name b)")
    case True
    with that transpose_cstring(1) [OF True] show ?thesis by (auto simp: env_build_def)
  next
    case False
    with that transpose_cstring(1) [of "core_mask b"] transpose_cstring(2) [OF False]
    show ?thesis by (auto simp: env_build_def)
  qed
  assume *: "\<not> ENV_INITIALIZED s" "\<not> has_nul (env_name b)" "\<not> has_nul (core_mask b)"
    "spdk_env_init api (env_opts_of api b (spdk s)) (env_log api b (spdk s)) = (rc, w)"
  let ?d = "(spdk_env_opts_init api (spdk s))\<lparr>opts_size := env_opts_size api\<rparr>"
  let ?o1 = "case env_name b of Some n \<Rightarrow> ?d\<lparr>opts_name := Some n\<rparr> | None \<Rightarrow> ?d"
  let ?o2 = "case core_mask b of Some m \<Rightarrow> ?o1\<lparr>opts_core_mask := Some m\<rparr> | None \<Rightarrow> ?o1"
  let ?o3 = "case mem_size_mb b of Some m \<Rightarrow> ?o2\<lparr>opts_mem_size := m\<rparr> | None \<Rightarrow> ?o2"
  let ?o4 = "case env_shm_id b of Some i \<Rightarrow> ?o3\<lparr>opts_shm_id := i\<rparr> | None \<Rightarrow> ?o3"
  let ?o5 = "case env_main_core b of Some c \<Rightarrow> ?o4\<lparr>opts_main_core := c\<rparr> | None \<Rightarrow> ?o4"
  have opts: "?o5\<lparr>opts_no_pci := env_no_pci b, opts_no_huge := env_no_huge b,
      opts_hugepage_single_segments := hugepage_single_segments b\<rparr> = env_opts_of api b (spdk s)"
    by (cases "spdk_env_opts_init api (spdk s)"; cases "env_name b"; cases "core_mask b";
        cases "mem_size_mb b"; cases "env_shm_id b"; cases "env_main_core b")
      (simp_all add: env_opts_of_def Let_def)
  have "call (spdk_env_init api (env_opts_of api b (spdk s)))
      (case env_log_level b of Some l \<Rightarrow>
         exec (spdk_log_set_print_level api (log_level_value api l)) (s\<lparr>ENV_INITIALIZED := True\<rparr>)
       | None \<Rightarrow> s\<lparr>ENV_INITIALIZED := True\<rparr>) = (rc, s\<lparr>ENV_INITIALIZED := True, spdk := w\<rparr>)"
    using *(4) by (cases "env_log_level b") (simp_all add: call_def exec_def env_log_def)
  with *(1) transpose_cstring(2) [OF *(2)] transpose_cstring(2) [OF *(3)] opts
  show "env_build api b s = (if rc = 0 then (Inr (), s\<lparr>ENV_INITIALIZED := True, spdk := w\<rparr>)
        else (Inl (EnvInit (''spdk_env_init failed with error code '' @ i32_to_string rc)),
              s\<lparr>ENV_INITIALIZED := False, spdk := w\<rparr>))"
    by (simp add: env_build_def Let_def)
qed

text \<open>
  C30: A successful build gives SPDK its defaults with exactly the settings of the builder replaced,
  after setting the log level; from then on every build of any builder is refused without a call to
  SPDK, until the environment is dropped, which clears the flag.
\<close>

theorem env_build_once:
  assumes "env_build api b s = (Inr (), s')"
  shows "\<not> env_is_initialized s \<and> env_is_initialized s' \<and>
     spdk_env_init api (env_opts_of api b (spdk s)) (env_log api b (spdk s)) = (0, spdk s') \<and>
     env_build api b' s' = (Inl AlreadyInitialized, s') \<and> \<not> env_is_initialized (env_drop api s')"
proof -
  have f: "\<not> ENV_INITIALIZED s" using assms env_build_cases(1) [of s api b] by auto
  moreover have n: "\<not> (has_nul (env_name b) \<or> has_nul (core_mask b))"
    using assms env_build_cases(2) [OF f, of b api] by auto
  moreover obtain rc w where
    "spdk_env_init api (env_opts_of api b (spdk s)) (env_log api b (spdk s)) = (rc, w)" by fastforce
  moreover from env_build_cases(3) [OF f _ _ this] n assms have "rc = 0" "s' = s\<lparr>ENV_INITIALIZED := True, spdk := w\<rparr>"
    by (auto split: if_splits)
  ultimately show ?thesis
    using env_build_cases(1) [of s' api b'] by (simp add: env_is_initialized_def env_drop_def)
qed

definition demo_env :: "(unit, nat) env_api" where
  "demo_env = \<lparr>env_opts_size = 120,
     spdk_env_opts_init = (\<lambda>_. \<lparr>opts_size = 0, opts_name = None, opts_core_mask = Some ''0x1'',
       opts_mem_size = - 1, opts_shm_id = - 1, opts_main_core = - 1, opts_no_pci = False,
       opts_no_huge = False, opts_hugepage_single_segments = False, opts_rest = ()\<rparr>),
     spdk_log_set_print_level = (\<lambda>_ w. w), spdk_env_init = (\<lambda>opts w. (if opts_no_huge opts then 0 else - 1, Suc w)),
     spdk_env_fini = (\<lambda>w. 0), log_level_value = (\<lambda>_. 0)\<rparr>"

theorem env_build_once_witness:
  "\<exists>s'. env_build demo_env (set_no_huge True env_builder_new) (fresh_process 0) = (Inr (), s') \<and>
     env_build demo_env env_builder_new s' = (Inl AlreadyInitialized, s')"
proof -
  obtain s' where s': "env_build demo_env (set_no_huge True env_builder_new) (fresh_process 0) = (Inr (), s')"
    by (simp add: env_build_def demo_env_def set_no_huge_def env_builder_new_def fresh_process_def call_def Let_def)
  from env_build_once [OF s'] s' show ?thesis by blast
qed

text \<open>
  C31: What a failed build was. If the environment existed, nothing has changed. If it did not and the
  strings have no NUL byte, SPDK was called, with exactly the options of the builder, and refused: the
  error tells its code, the flag is clear, and a later build calls SPDK again and succeeds exactly if
  SPDK then returns 0. If the name or the core mask has a NUL byte, SPDK was not called, but the flag
  stays set, and every later build fails as already initialised.
\<close>

theorem env_build_fails:
  assumes "env_build api b s = (Inl e, s')"
  shows "(env_is_initialized s \<longrightarrow> e = AlreadyInitialized \<and> s' = s) \<and>
     (\<not> env_is_initialized s \<and> \<not> has_nul (env_name b) \<and> \<not> has_nul (core_mask b) \<longrightarrow>
        (\<exists>rc. rc \<noteq> 0 \<and> spdk_env_init api (env_opts_of api b (spdk s)) (env_log api b (spdk s)) = (rc, spdk s') \<and>
           e = EnvInit (''spdk_env_init failed with error code '' @ i32_to_string rc)) \<and>
        \<not> env_is_initialized s' \<and>
        (\<not> has_nul (env_name b') \<and> \<not> has_nul (core_mask b') \<longrightarrow>
           (case spdk_env_init api (env_opts_of api b' (spdk s')) (env_log api b' (spdk s')) of (rc', w') \<Rightarrow>
              spdk (snd (env_build api b' s')) = w' \<and> (fst (env_build api b' s') = Inr () \<longleftrightarrow> rc' = 0)))) \<and>
     (\<not> env_is_initialized s \<and> (has_nul (env_name b) \<or> has_nul (core_mask b)) \<longrightarrow>
        (\<exists>n t. e = NulError n t) \<and> spdk s' = spdk s \<and> env_is_initialized s' \<and>
        env_build api b' s' = (Inl AlreadyInitialized, s'))"
proof (cases "ENV_INITIALIZED s")
  case True
  with assms env_build_cases(1) [OF True, of api b] show ?thesis by (simp add: env_is_initialized_def)
next
  case f: False
  show ?thesis
  proof (cases "has_nul (env_name b) \<or> has_nul (core_mask b)")
    case True
    with f assms env_build_cases(2) [OF f True, of api] env_build_cases(1) [of s' api b'] show ?thesis
      by (auto simp: env_is_initialized_def)
  next
    case False
    obtain rc w where init: "spdk_env_init api (env_opts_of api b (spdk s)) (env_log api b (spdk s)) = (rc, w)"
      by fastforce
    from env_build_cases(3) [OF f _ _ init] False assms have *: "rc \<noteq> 0"
      "e = EnvInit (''spdk_env_init failed with error code '' @ i32_to_string rc)"
      "s' = s\<lparr>ENV_INITIALIZED := False, spdk := w\<rparr>" by (auto split: if_splits)
    then have "\<not> ENV_INITIALIZED s'" by simp
    note again = env_build_cases(3) [OF this, of b' api]
    from f False init * again show ?thesis
      by (auto simp: env_is_initialized_def split: prod.split)
  qed
qed

text \<open>A refusal after which another builder succeeds, and a NUL byte after which none does.\<close>

theorem env_build_fails_witness:
  "(\<exists>e s'. env_build demo_env env_builder_new (fresh_process 0) = (Inl e, s') \<and>
     spdk s' = 1 \<and> fst (env_build demo_env (set_no_huge True env_builder_new) s') = Inr ()) \<and>
   (\<exists>e s'. env_build demo_env (set_name [nul] env_builder_new) (fresh_process 0) = (Inl e, s') \<and>
     spdk s' = 0 \<and> env_build demo_env (set_no_huge True env_builder_new) s' = (Inl AlreadyInitialized, s'))"
proof
  let ?b = "set_no_huge True env_builder_new"
  obtain e s' where s': "env_build demo_env env_builder_new (fresh_process 0) = (Inl e, s')"
    by (simp add: env_build_def demo_env_def env_builder_new_def fresh_process_def call_def Let_def)
  have plain: "\<not> env_is_initialized (fresh_process 0)" "\<not> has_nul (env_name env_builder_new)"
    "\<not> has_nul (core_mask env_builder_new)" "\<not> has_nul (env_name ?b)" "\<not> has_nul (core_mask ?b)"
    by (simp_all add: env_is_initialized_def fresh_process_def has_nul_def env_builder_new_def set_no_huge_def)
  from env_build_fails [OF s', of ?b] plain
  have "\<exists>rc. spdk_env_init demo_env (env_opts_of demo_env env_builder_new 0) (env_log demo_env env_builder_new 0) =
      (rc, spdk s')"
    and "fst (env_build demo_env ?b s') = Inr ()"
    by (auto simp: fresh_process_def demo_env_def env_opts_of_def set_no_huge_def Let_def)
  with s' show "\<exists>e s'. env_build demo_env env_builder_new (fresh_process 0) = (Inl e, s') \<and>
      spdk s' = 1 \<and> fst (env_build demo_env ?b s') = Inr ()"
    by (auto simp: demo_env_def env_log_def env_builder_new_def)
next
  obtain n t s' where s': "env_build demo_env (set_name [nul] env_builder_new) (fresh_process 0) =
      (Inl (NulError n t), s')"
    by (simp add: env_build_def set_name_def env_builder_new_def fresh_process_def cstring_nul transpose_map_def)
  have "has_nul (env_name (set_name [nul] env_builder_new))" "\<not> env_is_initialized (fresh_process 0)"
    by (simp_all add: has_nul_def set_name_def env_is_initialized_def fresh_process_def)
  with env_build_fails [OF s', of "set_no_huge True env_builder_new"] s'
  show "\<exists>e s'. env_build demo_env (set_name [nul] env_builder_new) (fresh_process 0) = (Inl e, s') \<and>
     spdk s' = 0 \<and> env_build demo_env (set_no_huge True env_builder_new) s' = (Inl AlreadyInitialized, s')"
    by (auto simp: fresh_process_def)
qed

end
