(* ===== verification/App.thy ===== *)
theory App
  imports Env Thread
begin

text \<open>
  \<open>spdk-io/src/app.rs\<close>: the SPDK application. \<open>spdk_app_start\<close> blocks: it either returns an error at
  once, or calls \<open>start_callback\<close> with the boxed closure and goes on until the application stops. The
  parameter \<open>app_api\<close> has these two parts, \<open>spdk_app_start_begin\<close> (\<open>Some rc\<close>: it returns \<open>rc\<close> without
  calling back) and \<open>spdk_app_start_end\<close>.
\<close>

record app_builder =
  app_name :: "string option"
  config_file :: "string option"
  json_data :: "string option"
  json_config_ignore_errors :: bool
  reactor_mask :: "string option"
  rpc_addr :: "string option"
  app_main_core :: "i32 option"
  app_mem_size_mb :: "i32 option"
  app_shm_id :: "i32 option"
  app_no_pci :: bool
  app_no_huge :: bool
  app_log_level :: "log_level option"

text \<open>A \<open>json_data\<close> pointer is the bytes it points to; its size is the field after it.\<close>

record 'o app_opts =
  ao_name :: "string option"
  ao_json_config_file :: "string option"
  ao_json_data :: "string option"
  ao_json_data_size :: nat
  ao_json_config_ignore_errors :: bool
  ao_reactor_mask :: "string option"
  ao_rpc_addr :: "string option"
  ao_main_core :: i32
  ao_mem_size :: i32
  ao_shm_id :: i32
  ao_no_pci :: bool
  ao_no_huge :: bool
  ao_print_level :: i32
  ao_rest :: 'o

record ('o, 'w) app_api =
  spdk_app_opts_init :: "'w \<Rightarrow> 'o app_opts"
  spdk_app_start_begin :: "'o app_opts \<Rightarrow> 'w \<Rightarrow> i32 option \<times> 'w"
  spdk_app_start_end :: "'w \<Rightarrow> i32 \<times> 'w"
  spdk_app_fini :: "'w \<Rightarrow> 'w"
  spdk_app_stop :: "i32 \<Rightarrow> 'w \<Rightarrow> 'w"
  spdk_app_start_shutdown :: "'w \<Rightarrow> 'w"
  spdk_app_get_shm_id :: "'w \<Rightarrow> i32"
  app_log_level_value :: "log_level \<Rightarrow> i32"

definition app_builder_new :: app_builder where
  "app_builder_new = \<lparr>app_name = None, config_file = None, json_data = None,
     json_config_ignore_errors = False, reactor_mask = None, rpc_addr = None, app_main_core = None,
     app_mem_size_mb = None, app_shm_id = None, app_no_pci = False, app_no_huge = False,
     app_log_level = None\<rparr>"

definition app_builder_default :: app_builder where
  "app_builder_default = app_builder_new"

text \<open>\<open>SpdkApp::builder\<close>.\<close>

definition app_make_builder :: app_builder where
  "app_make_builder = app_builder_new"

definition app_set_name :: "string \<Rightarrow> app_builder \<Rightarrow> app_builder" where
  "app_set_name n self = self\<lparr>app_name := Some n\<rparr>"

definition app_set_config_file :: "string \<Rightarrow> app_builder \<Rightarrow> app_builder" where
  "app_set_config_file path self = self\<lparr>config_file := Some path\<rparr>"

definition app_set_json_data :: "string \<Rightarrow> app_builder \<Rightarrow> app_builder" where
  "app_set_json_data json self = self\<lparr>json_data := Some json\<rparr>"

definition app_set_json_config_ignore_errors :: "bool \<Rightarrow> app_builder \<Rightarrow> app_builder" where
  "app_set_json_config_ignore_errors b self = self\<lparr>json_config_ignore_errors := b\<rparr>"

definition app_set_reactor_mask :: "string \<Rightarrow> app_builder \<Rightarrow> app_builder" where
  "app_set_reactor_mask m self = self\<lparr>reactor_mask := Some m\<rparr>"

definition app_set_rpc_addr :: "string \<Rightarrow> app_builder \<Rightarrow> app_builder" where
  "app_set_rpc_addr a self = self\<lparr>rpc_addr := Some a\<rparr>"

definition app_set_main_core :: "i32 \<Rightarrow> app_builder \<Rightarrow> app_builder" where
  "app_set_main_core c self = self\<lparr>app_main_core := Some c\<rparr>"

definition app_set_mem_size_mb :: "i32 \<Rightarrow> app_builder \<Rightarrow> app_builder" where
  "app_set_mem_size_mb mb self = self\<lparr>app_mem_size_mb := Some mb\<rparr>"

definition app_set_shm_id :: "i32 \<Rightarrow> app_builder \<Rightarrow> app_builder" where
  "app_set_shm_id i self = self\<lparr>app_shm_id := Some i\<rparr>"

definition app_set_no_pci :: "bool \<Rightarrow> app_builder \<Rightarrow> app_builder" where
  "app_set_no_pci b self = self\<lparr>app_no_pci := b\<rparr>"

definition app_set_no_huge :: "bool \<Rightarrow> app_builder \<Rightarrow> app_builder" where
  "app_set_no_huge b self = self\<lparr>app_no_huge := b\<rparr>"

definition app_set_log_level :: "log_level \<Rightarrow> app_builder \<Rightarrow> app_builder" where
  "app_set_log_level l self = self\<lparr>app_log_level := Some l\<rparr>"

section \<open>Running\<close>

text \<open>
  The process and the boxed closures. \<open>run_user\<close> runs a closure; \<open>None\<close> if it never returns (a panic in
  it aborts the process).
\<close>

type_synonym ('k, 'w) app_state = "'w process \<times> 'k boxes"

definition start_callback ::
  "('k \<Rightarrow> 'w process \<Rightarrow> 'w process option) \<Rightarrow> ptr \<Rightarrow> ('k, 'w) app_state \<Rightarrow> ('k, 'w) app_state option" where
  "start_callback run_user ctx st =
     (case st of (s, h) \<Rightarrow>
        let s = assume_thread_lib_initialized s
        in case box_from_raw ctx h of
             None \<Rightarrow> None
           | Some (f, h) \<Rightarrow> map_option (\<lambda>s. (s, h)) (run_user f s))"

definition app_run ::
  "('o, 'w) app_api \<Rightarrow> ('k \<Rightarrow> 'w process \<Rightarrow> 'w process option) \<Rightarrow> app_builder \<Rightarrow> 'k \<Rightarrow>
     ('k, 'w) app_state \<Rightarrow> ((error, unit) result \<times> ('k, 'w) app_state) option" where
  "app_run api run_user self f st =
     (case transpose_map cstring (app_name self) of Inl e \<Rightarrow> Some (Inl e, st)
      | Inr name_cstr \<Rightarrow> case transpose_map cstring (config_file self) of Inl e \<Rightarrow> Some (Inl e, st)
      | Inr config_file_cstr \<Rightarrow> case transpose_map cstring (reactor_mask self) of Inl e \<Rightarrow> Some (Inl e, st)
      | Inr reactor_mask_cstr \<Rightarrow> case transpose_map cstring (rpc_addr self) of Inl e \<Rightarrow> Some (Inl e, st)
      | Inr rpc_addr_cstr \<Rightarrow>
        case st of (s, h) \<Rightarrow>
        case box_into_raw f h of (callback_ptr, h) \<Rightarrow>
        let opts = spdk_app_opts_init api (spdk s);
            opts = (case name_cstr of Some n \<Rightarrow> opts\<lparr>ao_name := Some n\<rparr> | None \<Rightarrow> opts);
            opts = (case config_file_cstr of Some c \<Rightarrow> opts\<lparr>ao_json_config_file := Some c\<rparr> | None \<Rightarrow> opts);
            opts = (case json_data self of
                      Some j \<Rightarrow> opts\<lparr>ao_json_data := Some j, ao_json_data_size := length j\<rparr> | None \<Rightarrow> opts);
            opts = opts\<lparr>ao_json_config_ignore_errors := json_config_ignore_errors self\<rparr>;
            opts = (case reactor_mask_cstr of Some m \<Rightarrow> opts\<lparr>ao_reactor_mask := Some m\<rparr> | None \<Rightarrow> opts);
            opts = (case rpc_addr_cstr of Some a \<Rightarrow> opts\<lparr>ao_rpc_addr := Some a\<rparr> | None \<Rightarrow> opts);
            opts = (case app_main_core self of Some c \<Rightarrow> opts\<lparr>ao_main_core := c\<rparr> | None \<Rightarrow> opts);
            opts = (case app_mem_size_mb self of Some m \<Rightarrow> opts\<lparr>ao_mem_size := m\<rparr> | None \<Rightarrow> opts);
            opts = (case app_shm_id self of Some i \<Rightarrow> opts\<lparr>ao_shm_id := i\<rparr> | None \<Rightarrow> opts);
            opts = opts\<lparr>ao_no_pci := app_no_pci self\<rparr>;
            opts = opts\<lparr>ao_no_huge := app_no_huge self\<rparr>;
            opts = (case app_log_level self of
                      Some level \<Rightarrow> opts\<lparr>ao_print_level := app_log_level_value api level\<rparr> | None \<Rightarrow> opts)
        in case (case call (spdk_app_start_begin api opts) s of
                   (Some rc, s) \<Rightarrow> Some (rc, s, h)
                 | (None, s) \<Rightarrow>
                     (case start_callback run_user callback_ptr (s, h) of
                        None \<Rightarrow> None
                      | Some (s, h) \<Rightarrow>
                          (case call (spdk_app_start_end api) s of (rc, s) \<Rightarrow> Some (rc, s, h)))) of
             None \<Rightarrow> None
           | Some (rc, s, h) \<Rightarrow>
               let s = exec (spdk_app_fini api) s
               in Some (if rc \<noteq> 0
                        then Inl (EnvInit (''spdk_app_start failed with error code '' @ i32_to_string rc))
                        else Inr (), (s, h)))"

definition stop_with_code :: "('o, 'w) app_api \<Rightarrow> i32 \<Rightarrow> 'w process \<Rightarrow> 'w process" where
  "stop_with_code api rc s = exec (spdk_app_stop api rc) s"

definition app_stop :: "('o, 'w) app_api \<Rightarrow> 'w process \<Rightarrow> 'w process" where
  "app_stop api s = stop_with_code api 0 s"

definition start_shutdown :: "('o, 'w) app_api \<Rightarrow> 'w process \<Rightarrow> 'w process" where
  "start_shutdown api s = exec (spdk_app_start_shutdown api) s"

definition app_get_shm_id :: "('o, 'w) app_api \<Rightarrow> 'w process \<Rightarrow> i32" where
  "app_get_shm_id api s = spdk_app_get_shm_id api (spdk s)"

text \<open>
  \<open>run_async\<close>: the closure blocks on the future that \<open>f\<close> makes, then stops the application. \<open>fut\<close> is
  the poll function of that future.
\<close>

definition async_main ::
  "('o, 'w) app_api \<Rightarrow> 'w thread_api \<Rightarrow> ('k \<Rightarrow> waker \<Rightarrow> 'w process \<Rightarrow> unit poll \<times> 'w process) \<Rightarrow> 'k \<Rightarrow>
     'w process \<Rightarrow> 'w process option" where
  "async_main api tapi fut f s =
     (case block_on (\<lambda>s. spdk_get_thread tapi (spdk s))
             (\<lambda>p s. snd (current_poll tapi (CurrentThread p) s)) (fut f) s of
        Some (Returned (_, s)) \<Rightarrow> Some (app_stop api s)
      | _ \<Rightarrow> None)"

definition run_async ::
  "('o, 'w) app_api \<Rightarrow> 'w thread_api \<Rightarrow> ('k \<Rightarrow> waker \<Rightarrow> 'w process \<Rightarrow> unit poll \<times> 'w process) \<Rightarrow> app_builder \<Rightarrow> 'k \<Rightarrow>
     ('k, 'w) app_state \<Rightarrow> ((error, unit) result \<times> ('k, 'w) app_state) option" where
  "run_async api tapi fut self f st = app_run api (async_main api tapi fut) self f st"

section \<open>Properties\<close>

text \<open>The options given to SPDK.\<close>

definition app_opts_of :: "('o, 'w) app_api \<Rightarrow> app_builder \<Rightarrow> 'w \<Rightarrow> 'o app_opts" where
  "app_opts_of api b w = (let d = spdk_app_opts_init api w in
     \<lparr>ao_name = (if app_name b = None then ao_name d else app_name b),
      ao_json_config_file = (if config_file b = None then ao_json_config_file d else config_file b),
      ao_json_data = (if json_data b = None then ao_json_data d else json_data b),
      ao_json_data_size = (case json_data b of None \<Rightarrow> ao_json_data_size d | Some j \<Rightarrow> length j),
      ao_json_config_ignore_errors = json_config_ignore_errors b,
      ao_reactor_mask = (if reactor_mask b = None then ao_reactor_mask d else reactor_mask b),
      ao_rpc_addr = (if rpc_addr b = None then ao_rpc_addr d else rpc_addr b),
      ao_main_core = unwrap_or (app_main_core b) (ao_main_core d),
      ao_mem_size = unwrap_or (app_mem_size_mb b) (ao_mem_size d),
      ao_shm_id = unwrap_or (app_shm_id b) (ao_shm_id d),
      ao_no_pci = app_no_pci b, ao_no_huge = app_no_huge b,
      ao_print_level = (case app_log_level b of None \<Rightarrow> ao_print_level d
                        | Some l \<Rightarrow> app_log_level_value api l),
      ao_rest = ao_rest d\<rparr>)"

definition app_has_nul :: "app_builder \<Rightarrow> bool" where
  "app_has_nul b \<longleftrightarrow> has_nul (app_name b) \<or> has_nul (config_file b) \<or> has_nul (reactor_mask b) \<or>
     has_nul (rpc_addr b)"

definition app_result :: "i32 \<Rightarrow> (error, unit) result" where
  "app_result rc = (if rc \<noteq> 0
     then Inl (EnvInit (''spdk_app_start failed with error code '' @ i32_to_string rc)) else Inr ())"

lemma app_opts_applied:
  fixes api :: "('o, 'w) app_api"
  shows "(let opts = spdk_app_opts_init api w;
        opts = (case app_name b of Some n \<Rightarrow> opts\<lparr>ao_name := Some n\<rparr> | None \<Rightarrow> opts);
        opts = (case config_file b of Some c \<Rightarrow> opts\<lparr>ao_json_config_file := Some c\<rparr> | None \<Rightarrow> opts);
        opts = (case json_data b of
                  Some j \<Rightarrow> opts\<lparr>ao_json_data := Some j, ao_json_data_size := length j\<rparr> | None \<Rightarrow> opts);
        opts = opts\<lparr>ao_json_config_ignore_errors := json_config_ignore_errors b\<rparr>;
        opts = (case reactor_mask b of Some m \<Rightarrow> opts\<lparr>ao_reactor_mask := Some m\<rparr> | None \<Rightarrow> opts);
        opts = (case rpc_addr b of Some a \<Rightarrow> opts\<lparr>ao_rpc_addr := Some a\<rparr> | None \<Rightarrow> opts);
        opts = (case app_main_core b of Some c \<Rightarrow> opts\<lparr>ao_main_core := c\<rparr> | None \<Rightarrow> opts);
        opts = (case app_mem_size_mb b of Some m \<Rightarrow> opts\<lparr>ao_mem_size := m\<rparr> | None \<Rightarrow> opts);
        opts = (case app_shm_id b of Some i \<Rightarrow> opts\<lparr>ao_shm_id := i\<rparr> | None \<Rightarrow> opts);
        opts = opts\<lparr>ao_no_pci := app_no_pci b\<rparr>;
        opts = opts\<lparr>ao_no_huge := app_no_huge b\<rparr>;
        opts = (case app_log_level b of
                  Some level \<Rightarrow> opts\<lparr>ao_print_level := app_log_level_value api level\<rparr> | None \<Rightarrow> opts)
      in F opts) = F (app_opts_of api b w)"
proof -
  have "(x :: 'o app_opts) = y" if "ao_name x = ao_name y" "ao_json_config_file x = ao_json_config_file y"
    "ao_json_data x = ao_json_data y" "ao_json_data_size x = ao_json_data_size y"
    "ao_json_config_ignore_errors x = ao_json_config_ignore_errors y"
    "ao_reactor_mask x = ao_reactor_mask y" "ao_rpc_addr x = ao_rpc_addr y" "ao_main_core x = ao_main_core y"
    "ao_mem_size x = ao_mem_size y" "ao_shm_id x = ao_shm_id y" "ao_no_pci x = ao_no_pci y"
    "ao_no_huge x = ao_no_huge y" "ao_print_level x = ao_print_level y" "ao_rest x = ao_rest y" for x y
    using that by (cases x; cases y) simp
  note ext = this
  show ?thesis unfolding Let_def
    by (rule arg_cong [where f = F], rule ext)
      (simp_all add: app_opts_of_def Let_def split: option.split)
qed

lemma app_run_nul:
  "app_has_nul b \<Longrightarrow> \<exists>n t. app_run api run_user b f st = Some (Inl (NulError n t), st)"
proof -
  assume "app_has_nul b"
  then consider (name) "has_nul (app_name b)" | (config) "\<not> has_nul (app_name b)" "has_nul (config_file b)"
    | (mask) "\<not> has_nul (app_name b)" "\<not> has_nul (config_file b)" "has_nul (reactor_mask b)"
    | (rpc) "\<not> has_nul (app_name b)" "\<not> has_nul (config_file b)" "\<not> has_nul (reactor_mask b)" "has_nul (rpc_addr b)"
    unfolding app_has_nul_def by blast
  then show ?thesis
    by cases (auto simp: app_run_def transpose_cstring(2) dest!: transpose_cstring(1))
qed

lemma app_run_eq:
  assumes "\<not> app_has_nul b" "box_into_raw f h = (p, h1)"
  shows "app_run api run_user b f (s, h) =
     (case (case call (spdk_app_start_begin api (app_opts_of api b (spdk s))) s of
              (Some rc, s) \<Rightarrow> Some (rc, s, h1)
            | (None, s) \<Rightarrow>
                (case start_callback run_user p (s, h1) of
                   None \<Rightarrow> None
                 | Some (s, h) \<Rightarrow>
                     (case call (spdk_app_start_end api) s of (rc, s) \<Rightarrow> Some (rc, s, h)))) of
        None \<Rightarrow> None
      | Some (rc, s, h) \<Rightarrow> Some (app_result rc, (exec (spdk_app_fini api) s, h)))"
proof -
  from assms(1) have "transpose_map cstring (app_name b) = Inr (app_name b)"
    "transpose_map cstring (config_file b) = Inr (config_file b)"
    "transpose_map cstring (reactor_mask b) = Inr (reactor_mask b)"
    "transpose_map cstring (rpc_addr b) = Inr (rpc_addr b)"
    by (simp_all add: app_has_nul_def transpose_cstring(2))
  then show ?thesis
    unfolding app_run_def assms(2) prod.case sum.case app_opts_applied app_result_def Let_def
    by (simp only: sum.case app_opts_applied [unfolded Let_def] prod.case)
qed

text \<open>
  C33: When SPDK starts, \<open>run\<close> gives it its default options with exactly the builder's settings replaced,
  runs the closure exactly once, with the thread library marked initialised, frees its box, waits for
  the application to stop, finalises SPDK, and returns Ok exactly if SPDK's code is 0.
\<close>

theorem app_run_started:
  assumes "\<not> app_has_nul b" "boxes_ok h"
    and "spdk_app_start_begin api (app_opts_of api b (spdk s)) (spdk s) = (None, w1)"
    and "run_user f (s\<lparr>spdk := w1, THREAD_LIB_INITIALIZED := True\<rparr>) = Some s2"
    and "spdk_app_start_end api (spdk s2) = (rc, w3)"
  shows "\<exists>h'. app_run api run_user b f (s, h) =
       Some (app_result rc, (s2\<lparr>spdk := spdk_app_fini api w3\<rparr>, h')) \<and> cells h' = cells h"
proof -
  obtain p h1 where p: "box_into_raw f h = (p, h1)" by fastforce
  from box.round_trip [OF assms(2) p] obtain h' where
    h': "box_from_raw p h1 = Some (f, h')" "cells h' = cells h" by blast
  with assms(3-5) show ?thesis
    by (simp add: app_run_eq [OF assms(1) p] call_def start_callback_def assume_thread_lib_initialized_def
        exec_def Let_def)
qed

definition demo_app :: "(unit, nat) app_api" where
  "demo_app = \<lparr>spdk_app_opts_init = (\<lambda>_. \<lparr>ao_name = Some ''spdk'', ao_json_config_file = None, ao_json_data = None,
       ao_json_data_size = 0, ao_json_config_ignore_errors = False, ao_reactor_mask = None, ao_rpc_addr = None,
       ao_main_core = - 1, ao_mem_size = - 1, ao_shm_id = - 1, ao_no_pci = False, ao_no_huge = False,
       ao_print_level = 2, ao_rest = ()\<rparr>),
     spdk_app_start_begin = (\<lambda>opts w. if ao_no_huge opts then (None, Suc w) else (Some 12, w)),
     spdk_app_start_end = (\<lambda>w. (0, w)), spdk_app_fini = (\<lambda>w. w), spdk_app_stop = (\<lambda>_ w. w + 100),
     spdk_app_start_shutdown = (\<lambda>w. w), spdk_app_get_shm_id = (\<lambda>_. 0), app_log_level_value = (\<lambda>_. 0)\<rparr>"

lemma demo_app_opts:
  "spdk_app_start_begin demo_app (app_opts_of demo_app (app_set_no_huge b app_builder_new) w) w =
     (if b then (None, Suc w) else (Some 12, w))"
  "\<not> app_has_nul (app_set_no_huge b app_builder_new)"
  by (simp_all add: demo_app_def app_opts_of_def app_set_no_huge_def app_builder_new_def app_has_nul_def
      has_nul_def Let_def)

theorem app_run_started_witness:
  "\<exists>h'. app_run demo_app (\<lambda>n s. Some (s\<lparr>spdk := spdk s + n\<rparr>)) (app_set_no_huge True app_builder_new) 40
       (fresh_process 1, no_boxes) =
     Some (app_result 0, ((fresh_process 42)\<lparr>THREAD_LIB_INITIALIZED := True\<rparr>, h')) \<and> cells h' = cells no_boxes"
proof -
  let ?run = "\<lambda>n s. Some (s\<lparr>spdk := spdk s + n\<rparr>)" and ?s2 = "(fresh_process 42)\<lparr>THREAD_LIB_INITIALIZED := True\<rparr>"
  have b: "spdk_app_start_begin demo_app (app_opts_of demo_app (app_set_no_huge True app_builder_new)
      (spdk (fresh_process 1))) (spdk (fresh_process 1)) = (None, 2)"
    using demo_app_opts(1) [of True 1] by (simp add: fresh_process_def)
  have u: "?run 40 ((fresh_process 1)\<lparr>spdk := 2, THREAD_LIB_INITIALIZED := True\<rparr>) = Some ?s2"
    by (simp add: fresh_process_def)
  have e: "spdk_app_start_end demo_app (spdk ?s2) = (0, 42)" by (simp add: demo_app_def fresh_process_def)
  from app_run_started [where run_user = ?run, OF demo_app_opts(2) boxes_ok_no_boxes b u e]
  show ?thesis by (simp add: demo_app_def fresh_process_def)
qed

text \<open>
  If a string has a NUL byte, \<open>run\<close> changes nothing and reports it. If SPDK refuses to start, the
  closure never runs, the code is reported, and the box of the closure stays behind with no owner.
\<close>

theorem app_run_not_started:
  assumes "app_has_nul b \<or> fst (spdk_app_start_begin api (app_opts_of api b (spdk s)) (spdk s)) = Some rc"
    and "boxes_ok h"
  shows "(\<exists>n t. app_has_nul b \<and> app_run api run_user b f (s, h) = Some (Inl (NulError n t), (s, h))) \<or>
     (\<exists>w p h'. \<not> app_has_nul b \<and> app_run api run_user b f (s, h) = Some (app_result rc, (s\<lparr>spdk := w\<rparr>, h')) \<and>
        cells h p = None \<and> cells h' = (cells h)(p \<mapsto> f))"
proof (cases "app_has_nul b")
  case True
  with app_run_nul [OF True, of api run_user f "(s, h)"] show ?thesis by blast
next
  case False
  obtain p h1 where p: "box_into_raw f h = (p, h1)" by fastforce
  from False assms(1) obtain w where "spdk_app_start_begin api (app_opts_of api b (spdk s)) (spdk s) = (Some rc, w)"
    by (metis fst_conv surj_pair)
  then have "app_run api run_user b f (s, h) = Some (app_result rc, (s\<lparr>spdk := spdk_app_fini api w\<rparr>, h1))"
    by (simp add: app_run_eq [OF False p] call_def exec_def)
  with False box.into_contents [OF p] box.into_fresh [OF assms(2) p] show ?thesis by blast
qed

theorem app_run_not_started_witness:
  "\<exists>w p h'. app_run demo_app (\<lambda>n s. None) (app_set_no_huge False app_builder_new) (40 :: nat)
       (fresh_process 1, no_boxes) = Some (app_result 12, ((fresh_process 1)\<lparr>spdk := w\<rparr>, h')) \<and>
     cells h' = [p \<mapsto> 40]"
proof -
  have "fst (spdk_app_start_begin demo_app (app_opts_of demo_app (app_set_no_huge False app_builder_new)
      (spdk (fresh_process 1))) (spdk (fresh_process 1))) = Some 12"
    using demo_app_opts(1) [of False 1] by (simp add: fresh_process_def)
  from app_run_not_started [OF disjI2 [OF this] boxes_ok_no_boxes, of "\<lambda>n s. None" "40 :: nat"]
    demo_app_opts(2) [of False]
  show ?thesis by (simp add: no_boxes_def)
qed

text \<open>
  C34: \<open>run_async\<close> stops the application by itself: if SPDK starts with a current thread and the future is
  ready after \<open>n\<close> polls of that thread, the closure ends with a call to stop with code 0 and nothing
  else, and \<open>run_async\<close> returns what SPDK's end of the run reports.
\<close>

theorem run_async_stops:
  assumes "\<not> app_has_nul b" "boxes_ok h"
    and "spdk_app_start_begin api (app_opts_of api b (spdk s)) (spdk s) = (None, w1)"
    and "s1 = s\<lparr>spdk := w1, THREAD_LIB_INITIALIZED := True\<rparr>" "spdk_get_thread tapi w1 = p" "p \<noteq> null"
    and "\<And>k. k < n \<Longrightarrow> fst (fut f NoopWaker ((block_on_round (fut f NoopWaker)
      (\<lambda>s. snd (current_poll tapi (CurrentThread p) s)) ^^ k) s1)) = Pending"
    and "fut f NoopWaker ((block_on_round (fut f NoopWaker) (\<lambda>s. snd (current_poll tapi (CurrentThread p) s)) ^^ n) s1) =
      (Ready (), s2)"
    and "spdk_app_start_end api (spdk_app_stop api 0 (spdk s2)) = (rc, w3)"
  shows "\<exists>h'. run_async api tapi fut b f (s, h) =
       Some (app_result rc, (s2\<lparr>spdk := spdk_app_fini api w3\<rparr>, h')) \<and> cells h' = cells h"
proof -
  let ?tp = "\<lambda>s. snd (current_poll tapi (CurrentThread p) s)"
  have "block_on_loop (fut f NoopWaker) ?tp s1 = Some ((), s2)"
    using block_on_loop_rounds [of n "fut f NoopWaker" ?tp s1, OF assms(7)] assms(8)
      block_on_loop_ready [of "fut f NoopWaker" "(block_on_round (fut f NoopWaker) ?tp ^^ n) s1" "()" ?tp] by simp
  then have "async_main api tapi fut f s1 = Some (app_stop api s2)"
    using assms(4-6) by (simp add: async_main_def block_on_def)
  then have user: "async_main api tapi fut f (s\<lparr>spdk := w1, THREAD_LIB_INITIALIZED := True\<rparr>) =
      Some (s2\<lparr>spdk := spdk_app_stop api 0 (spdk s2)\<rparr>)"
    using assms(4) by (simp add: app_stop_def stop_with_code_def exec_def)
  obtain q h1 where q: "box_into_raw f h = (q, h1)" by fastforce
  from box.round_trip [OF assms(2) q] obtain h' where
    h': "box_from_raw q h1 = Some (f, h')" "cells h' = cells h" by blast
  with assms(3,9) user show ?thesis
    by (simp add: run_async_def app_run_eq [OF assms(1) q] call_def start_callback_def
        assume_thread_lib_initialized_def exec_def Let_def)
qed

text \<open>A future that is ready once the state has reached a number.\<close>

definition demo_fut :: "nat \<Rightarrow> waker \<Rightarrow> nat process \<Rightarrow> unit poll \<times> nat process" where
  "demo_fut k cx s = (if spdk s < k then Pending else Ready (), s)"

theorem run_async_stops_witness:
  "\<exists>h'. run_async demo_app count_thread demo_fut
       (app_set_no_huge True app_builder_new) 3 (fresh_process 1, no_boxes) =
     Some (app_result 0, ((fresh_process 103)\<lparr>THREAD_LIB_INITIALIZED := True\<rparr>, h')) \<and> cells h' = cells no_boxes"
proof -
  let ?S = "\<lambda>k. (fresh_process k)\<lparr>THREAD_LIB_INITIALIZED := True\<rparr> :: nat process"
  let ?r = "block_on_round (demo_fut 3 NoopWaker) (\<lambda>s. snd (current_poll count_thread (CurrentThread 5) s))"
  have round: "?r (?S k) = ?S (Suc k)" for k
    by (simp add: block_on_round_def current_poll_def call_def count_thread_def fresh_process_def demo_fut_def)
  have start: "spdk_app_start_begin demo_app (app_opts_of demo_app (app_set_no_huge True app_builder_new)
      (spdk (fresh_process 1))) (spdk (fresh_process 1)) = (None, 2)"
    using demo_app_opts(1) [of True 1] by (simp add: fresh_process_def)
  have s1: "?S 2 = (fresh_process 1)\<lparr>spdk := 2, THREAD_LIB_INITIALIZED := True\<rparr>" by (simp add: fresh_process_def)
  have th: "spdk_get_thread count_thread 2 = 5" by (simp add: count_thread_def)
  have pend: "fst (demo_fut 3 NoopWaker ((?r ^^ k) (?S 2))) = Pending" if "k < 1" for k
    using that by (simp add: fresh_process_def demo_fut_def)
  have ready: "demo_fut 3 NoopWaker ((?r ^^ 1) (?S 2)) = (Ready (), ?S 3)"
    using round [of 2] by (simp add: fresh_process_def demo_fut_def)
  have fin: "spdk_app_start_end demo_app (spdk_app_stop demo_app 0 (spdk (?S 3))) = (0, 103)"
    by (simp add: demo_app_def fresh_process_def)
  have "(5 :: ptr) \<noteq> null" by simp
  from run_async_stops [where fut = demo_fut and f = 3 and n = 1, OF demo_app_opts(2) boxes_ok_no_boxes start s1 th this pend ready fin]
  show ?thesis by (simp add: demo_app_def fresh_process_def)
qed

end
