(* ===== verification/Build.thy ===== *)
theory Build
  imports PkgConf_Correct Process
begin

text \<open>
  \<open>spdk-io-sys/build.rs\<close>: the build script of the bindings, the client of the \<open>pkgconf\<close> crate. It finds
  SPDK with pkg-config, prints the link directives, and hands the compiler flags to bindgen. The
  environment, the file system, pkg-config and bindgen are parameters.
\<close>

definition spdk_libs :: "string list" where
  "spdk_libs =
    [''spdk_env_dpdk'', ''spdk_thread'', ''spdk_bdev'', ''spdk_blob'', ''spdk_blob_bdev'', ''spdk_nvme'',
     ''spdk_nvmf'', ''spdk_log'', ''spdk_util'', ''spdk_json'', ''spdk_rpc'', ''spdk_jsonrpc'',
     ''spdk_event'', ''spdk_event_bdev'', ''spdk_event_nvmf'', ''spdk_bdev_malloc'', ''spdk_bdev_null'',
     ''spdk_accel'', ''spdk_sock'', ''spdk_sock_posix'', ''libdpdk'', ''spdk_syslibs'']"

definition forced_libs :: "string list" where
  "forced_libs =
    [''spdk_event_bdev'', ''spdk_event_nvmf'', ''spdk_event_accel'', ''spdk_event_vmd'', ''spdk_event_sock'',
     ''spdk_event_iobuf'', ''spdk_event_keyring'', ''spdk_bdev_null'', ''spdk_bdev_malloc'', ''spdk_accel'',
     ''spdk_sock_posix'', ''spdk_nvmf'', ''spdk_nvme'']"

text \<open>The settings given to bindgen, each the builder's method and its argument.\<close>

definition bindgen_settings :: "(string \<times> string) list" where
  "bindgen_settings =
    [(''header'', ''wrapper.h''),
     (''allowlist_function'', ''spdk_.*''), (''allowlist_type'', ''spdk_.*''), (''allowlist_var'', ''SPDK_.*''),
     (''allowlist_type'', ''rte_.*''), (''allowlist_function'', ''rte_.*''),
     (''derive_default'', ''true''), (''derive_debug'', ''true''), (''derive_copy'', ''true''),
     (''wrap_unsafe_ops'', ''true''),
     (''opaque_type'', ''spdk_nvme_ctrlr''), (''opaque_type'', ''spdk_nvme_ns''),
     (''opaque_type'', ''spdk_nvme_qpair''), (''opaque_type'', ''spdk_bdev''),
     (''opaque_type'', ''spdk_bdev_desc''), (''opaque_type'', ''spdk_io_channel''),
     (''opaque_type'', ''spdk_thread''), (''opaque_type'', ''spdk_poller''),
     (''opaque_type'', ''spdk_blob_store''), (''opaque_type'', ''spdk_blob''),
     (''opaque_type'', ''spdk_nvme_ctrlr_data''), (''opaque_type'', ''spdk_bdev_ext_io_opts''),
     (''opaque_type'', ''spdk_nvmf_fabric_connect_rsp''), (''opaque_type'', ''spdk_nvmf_fabric_prop_get_rsp''),
     (''opaque_type'', ''spdk_nvme_tcp_cmd''), (''opaque_type'', ''spdk_nvme_tcp_rsp''),
     (''opaque_type'', ''spdk_nvmf_transport_opts''), (''opaque_type'', ''spdk_nvme_cdata_oncs''),
     (''opaque_type'', ''spdk_nvmf_tgt''), (''opaque_type'', ''spdk_nvmf_transport''),
     (''opaque_type'', ''spdk_nvmf_subsystem''), (''opaque_type'', ''spdk_nvmf_poll_group''),
     (''opaque_type'', ''spdk_nvmf_qpair''), (''opaque_type'', ''spdk_nvmf_ctrlr''),
     (''opaque_type'', ''spdk_nvmf_ns''), (''layout_tests'', ''false'')]"

record ('b, 'w) build_env =
  env_var :: "string \<Rightarrow> string option"
  file_exists :: "string \<Rightarrow> bool"
  pkg_config_command :: "'w command"
  bindgen :: "(string \<times> string) list \<Rightarrow> string list \<Rightarrow> 'w \<Rightarrow> 'b option \<times> 'w"
  write_file :: "string \<Rightarrow> 'b \<Rightarrow> 'w \<Rightarrow> bool \<times> 'w"

text \<open>
  The lines printed, how the script ended, and the state. The debug form of an error after the message
  of \<open>expect\<close> is left out.
\<close>

definition build_main :: "('b, 'w) build_env \<Rightarrow> 'w \<Rightarrow> string list \<times> unit ending \<times> 'w" where
  "build_main E w =
     (let out = [''cargo:rerun-if-changed=wrapper.h'', ''cargo:rerun-if-env-changed=PKG_CONFIG_PATH''];
          pkg_config_path = unwrap_or (env_var E ''PKG_CONFIG_PATH'') ''/opt/spdk/lib/pkgconfig'';
          parser = parser_force_whole_archive parser_new forced_libs
      in case probe parser (file_exists E) (pkg_config_command E) spdk_libs (Some pkg_config_path) w of
           None \<Rightarrow> (out, Panicked ''parse'', w)
         | Some (Inl _, w) \<Rightarrow> (out, Panicked ''pkg-config failed'', w)
         | Some (Inr pkg, w) \<Rightarrow>
             let out = emit_cargo_metadata (libs pkg) True out;
                 clang_args = to_clang_args (cflags pkg)
             in case bindgen E bindgen_settings clang_args w of
                  (None, w) \<Rightarrow> (out, Panicked ''Failed to generate SPDK bindings'', w)
                | (Some bindings, w) \<Rightarrow>
                    (case env_var E ''OUT_DIR'' of
                       None \<Rightarrow> (out, Panicked ''called `Result::unwrap()` on an `Err` value'', w)
                     | Some dir \<Rightarrow>
                         (case write_file E (path_join dir ''bindings.rs'') bindings w of (ok, w) \<Rightarrow>
                            if ok then (out, Returned (), w)
                            else (out, Panicked ''Failed to write bindings'', w))))"

text \<open>
  C38: When the script succeeds, every library on its forced list that pkg-config names and that has a
  static archive outside the system roots is linked with the directive for whole archives, so that
  the linker keeps its registration constructors.
\<close>

theorem build_keeps_constructors:
  assumes "build_main E w = (out, Returned (), w')"
    and "run_pkg_config (pkg_config_command E) spdk_libs
      (Some (unwrap_or (env_var E ''PKG_CONFIG_PATH'') ''/opt/spdk/lib/pkgconfig'')) w = (Inr libs_text, w1)"
    and "n \<in> set forced_libs" "asked n (split_whitespace libs_text)"
    and "is_static_available parser_new (file_exists E) n (collect_lib_dirs (split_whitespace libs_text))"
  shows "''cargo:rustc-link-lib=static:+whole-archive,-bundle='' @ n \<in> set out"
proof -
  let ?P = "parser_force_whole_archive parser_new forced_libs" and ?ts = "split_whitespace libs_text"
  let ?st = "\<lambda>n. is_static_available ?P (file_exists E) n (collect_lib_dirs ?ts)"
  have st: "?st n" using assms(5) by (simp add: is_static_available_def parser_force_whole_archive_def)
  have "n \<noteq> ''pthread''" using assms(3) by (auto simp: forced_libs_def)
  with assms(3,4) st have "Library n WholeArchive \<in> set (flags_of ?st (set forced_libs) False {} ?ts)"
    by (subst flags_of_Library) (simp_all add: decided_kind_def)
  then obtain fs where fs: "parse ?P (file_exists E) libs_text = Some fs" "Library n WholeArchive \<in> set fs"
    using parse_eq [of ?P "file_exists E" libs_text] by (simp add: parser_force_whole_archive_def)
  from assms(1,2) fs(1) have "out = print_lines (to_cargo_directives fs True)
      [''cargo:rerun-if-changed=wrapper.h'', ''cargo:rerun-if-env-changed=PKG_CONFIG_PATH'']"
    by (auto simp: build_main_def probe_def emit_cargo_metadata_def Let_def
        split: prod.splits sum.splits option.splits if_splits)
  moreover have "to_cargo_directive (Library n WholeArchive) True \<in> set (to_cargo_directives fs True)"
    using fs(2) unfolding to_cargo_directives_def by (simp del: to_cargo_directive.simps)
  ultimately have "to_cargo_directive (Library n WholeArchive) True \<in> set out"
    by (simp add: print_lines_append del: to_cargo_directive.simps)
  then show ?thesis by simp
qed

definition demo_build :: "(unit, nat) build_env" where
  "demo_build = \<lparr>env_var = (\<lambda>v. if v = ''OUT_DIR'' then Some ''/out'' else None),
     file_exists = (\<lambda>p. p = ''/s/libspdk_nvme.a''),
     pkg_config_command = (\<lambda>_ args w. (Inr \<lparr>success = True,
       stdout = (if ''--libs'' \<in> set args then ''-L/s -lspdk_nvme'' else ''''), stderr = ''''\<rparr>, w)),
     bindgen = (\<lambda>_ _ w. (Some (), w)), write_file = (\<lambda>_ _ w. (True, w))\<rparr>"

theorem build_keeps_constructors_witness:
  "\<exists>out. build_main demo_build 0 = (out, Returned (), 0) \<and>
     ''cargo:rustc-link-lib=static:+whole-archive,-bundle=spdk_nvme'' \<in> set out"
proof -
  let ?text = "''-L/s -lspdk_nvme''"
  have ts: "split_whitespace ?text = [''-L/s'', ''-lspdk_nvme'']" by code_simp
  have lossy: "from_utf8_lossy ?text = ?text" by (rule from_utf8_lossy_valid) code_simp
  have none: "from_utf8_lossy '''' = ''''" by code_simp
  have run: "run_pkg_config (pkg_config_command demo_build) spdk_libs
      (Some (unwrap_or (env_var demo_build ''PKG_CONFIG_PATH'') ''/opt/spdk/lib/pkgconfig'')) 0 = (Inr ?text, 0)"
    by (simp add: run_pkg_config_def run_pkg_config_raw_def demo_build_def lossy)
  have "''--libs'' \<notin> set spdk_libs" by (simp add: spdk_libs_def)
  then obtain out where out: "build_main demo_build 0 = (out, Returned (), 0)"
    by (simp add: build_main_def probe_def run_pkg_config_def run_pkg_config_cflags_def
        run_pkg_config_raw_def demo_build_def parse_eq lossy none Let_def)
  have a: "asked ''spdk_nvme'' (split_whitespace ?text)" unfolding ts asked_def by code_simp
  have s: "is_static_available parser_new (file_exists demo_build) ''spdk_nvme''
      (collect_lib_dirs (split_whitespace ?text))"
    unfolding ts demo_build_def by code_simp
  have "''spdk_nvme'' \<in> set forced_libs" by (simp add: forced_libs_def)
  from build_keeps_constructors [OF out run this a s] out show ?thesis by simp
qed

end
