(* ===== verification/BufferLife.thy ===== *)
theory BufferLife
  imports Bdev NvmeNs
begin

text \<open>
  DMA buffers and the requests that use them. A request borrows its buffer while its future is alive,
  so the borrow checker lets the owner drop the buffer only when no unfinished future uses it; SPDK,
  however, uses the buffer until it has completed the request. \<open>buf_reachable\<close> adds the allocator of
  \<open>dma.rs\<close> and that rule to the step relation of requests.
\<close>

section \<open>Who waits for a request in flight\<close>

definition in_flight_for :: "('c, 'w, 'st) io_system \<Rightarrow> chan \<Rightarrow> nat \<Rightarrow> bool" where
  "in_flight_for S ch i \<longleftrightarrow> chan_of S i = Some ch \<and>
     (tasks S i = Some (Awaiting (CompletionReceiver ch)) \<or>
      tasks S i = Some Finished \<and> outcome S i = None)"

definition flights_owned :: "('w \<Rightarrow> ptr set) \<Rightarrow> ('c, 'w, 'st) io_system \<Rightarrow> bool" where
  "flights_owned pending S \<longleftrightarrow> (\<forall>p ch. p \<in> pending (dev (rt S)) \<longrightarrow>
     cells (sender_boxes (rt S)) p = Some ch \<longrightarrow> (\<exists>i. in_flight_for S ch i))"

lemma flights_ownedI:
  assumes "\<And>p ch. p \<in> pending (dev (rt S)) \<Longrightarrow> cells (sender_boxes (rt S)) p = Some ch \<Longrightarrow>
    \<exists>i. in_flight_for S ch i"
  shows "flights_owned pending S"
  using assms by (auto simp: flights_owned_def)

lemma flights_owned_mono:
  assumes "flights_owned pending S"
    and "pending (dev (rt T)) \<subseteq> pending (dev (rt S))"
    and "\<And>p ch. p \<in> pending (dev (rt T)) \<Longrightarrow> cells (sender_boxes (rt T)) p = Some ch \<Longrightarrow>
      cells (sender_boxes (rt S)) p = Some ch"
    and "\<And>p ch i. cells (sender_boxes (rt S)) p = Some ch \<Longrightarrow> in_flight_for S ch i \<Longrightarrow> in_flight_for T ch i"
  shows "flights_owned pending T"
proof (rule flights_ownedI)
  fix p ch assume p: "p \<in> pending (dev (rt T))" "cells (sender_boxes (rt T)) p = Some ch"
  with assms(1-3) obtain i where "in_flight_for S ch i" unfolding flights_owned_def by blast
  with assms(4) [OF assms(3) [OF p]] show "\<exists>i. in_flight_for T ch i" by blast
qed

context io_protocol
begin

lemma in_flight_for_first_poll:
  assumes "chan_of S i = None" and "in_flight_for S ch j"
  shows "in_flight_for (record_poll i Unstarted x f' s sub S) ch j"
proof -
  from assms have "j \<noteq> i" by (auto simp: in_flight_for_def)
  with assms(2) show ?thesis
    by (auto simp: in_flight_for_def record_poll_def Let_def split: prod.splits poll.splits option.splits)
qed

lemma flights_owned_poll_first:
  assumes os: "oneshot_spec os view" and con: "submit_contract submit release pending"
    and inv: "sys_inv decode err_of view pending S" and own: "flights_owned pending S"
    and i: "tasks S i = Some Unstarted" and res: "resume q Unstarted (rt S) = Some (x, f', s)"
  shows "flights_owned pending
    (record_poll i Unstarted x f' s (submitted os (submit q) (rt S)) S)"
proof -
  from inv have ok: "boxes_ok (sender_boxes (rt S))" and io: "io_inv decode err_of
      (cells (sender_boxes (rt S))) (pending (dev (rt S))) (view (chans (rt S))) (tasks S)
      (outcome S) (chan_of S) (told S) (refused S)" by (simp_all add: sys_inv_def)
  have none: "chan_of S i = None" using tasks_invD(4) [OF io_invD(2) [OF io]] i by simp
  note P = boxes_invD(2) [OF io_invD(1) [OF io]]
  note keep = in_flight_for_first_poll [OF none]
  from os con ok show ?thesis
  proof (cases rule: first_poll [where q = q])
    case (accepted p ch s')
    show ?thesis
    proof (rule flights_ownedI)
      fix p' ch' assume "p' \<in> pending (dev (rt (record_poll i Unstarted x f' s
          (submitted os (submit q) (rt S)) S)))"
        "cells (sender_boxes (rt (record_poll i Unstarted x f' s
          (submitted os (submit q) (rt S)) S))) p' = Some ch'"
      with accepted res have *: "p' \<in> insert p (pending (dev (rt S)))"
        "((cells (sender_boxes (rt S)))(p \<mapsto> ch)) p' = Some ch'" by (simp_all add: record_poll_def)
      show "\<exists>j. in_flight_for (record_poll i Unstarted x f' s (submitted os (submit q) (rt S)) S) ch' j"
      proof (cases "p' = p")
        case True
        with * accepted res have "in_flight_for
            (record_poll i Unstarted x f' s (submitted os (submit q) (rt S)) S) ch' i"
          by (simp add: in_flight_for_def record_poll_def)
        then show ?thesis ..
      next
        case False
        with * have "p' \<in> pending (dev (rt S))" "cells (sender_boxes (rt S)) p' = Some ch'" by simp_all
        with own obtain j where "in_flight_for S ch' j" unfolding flights_owned_def by blast
        then show ?thesis by (blast intro: keep)
      qed
    qed
  next
    case (told p ch st s')
    with res show ?thesis
      by (intro flights_owned_mono [OF own] keep) (simp_all add: record_poll_def)
  next
    case (refused p ch rc s')
    with res P show ?thesis
      by (intro flights_owned_mono [OF own] keep) (auto simp: record_poll_def split: if_splits)
  qed
qed

lemma flights_owned_poll_later:
  assumes os: "oneshot_spec os view" and inv: "sys_inv decode err_of view pending S"
    and own: "flights_owned pending S"
    and i: "tasks S i = Some (Awaiting r)" and res: "resume q (Awaiting r) (rt S) = Some (x, f', s)"
  shows "flights_owned pending (record_poll i (Awaiting r) x f' s sub S)"
proof -
  from inv have io: "io_inv decode err_of
      (cells (sender_boxes (rt S))) (pending (dev (rt S))) (view (chans (rt S))) (tasks S)
      (outcome S) (chan_of S) (told S) (refused S)" by (simp add: sys_inv_def)
  note B = boxes_invD [OF io_invD(1) [OF io]] and Y = tasks_invD [OF io_invD(2) [OF io]]
  from os inv i show ?thesis
  proof (cases rule: later_poll [where q = q])
    case (waiting p c)
    with i have "(tasks S)(i \<mapsto> Awaiting r) = tasks S" by (simp add: fun_upd_idem)
    with waiting res show ?thesis
      by (intro flights_owned_mono [OF own]) (auto simp: in_flight_for_def record_poll_def)
  next
    case (finished st c)
    have "ch \<noteq> rx r" if "cells (sender_boxes (rt S)) p = Some ch" for p ch
      using B(6) [OF that] finished(1) by auto
    moreover have "chan_of S i = Some (rx r)" using Y(1) [OF i] .
    ultimately show ?thesis using finished res
      by (intro flights_owned_mono [OF own]) (auto simp: in_flight_for_def record_poll_def)
  qed
qed

lemma flights_owned_step:
  assumes os: "oneshot_spec os view" and con: "submit_contract submit release pending"
    and inv: "sys_inv decode err_of view pending S" and own: "flights_owned pending S"
    and st: "io_step os resume submit callback pending job S T"
  shows "flights_owned pending T"
proof -
  from inv have ok: "boxes_ok (sender_boxes (rt S))" and io: "io_inv decode err_of
      (cells (sender_boxes (rt S))) (pending (dev (rt S))) (view (chans (rt S))) (tasks S)
      (outcome S) (chan_of S) (told S) (refused S)" by (simp_all add: sys_inv_def)
  note Y = tasks_invD [OF io_invD(2) [OF io]]
    and R = outcome_invD(1) [OF io_invD(4) [OF io]]
  from st show ?thesis
  proof cases
    case (spawn i)
    with Y(3) [of i] show ?thesis
      by (intro flights_owned_mono [OF own]) (auto simp: in_flight_for_def)
  next
    case (poll i f x f' s)
    show ?thesis
    proof (cases f)
      case Unstarted
      with poll flights_owned_poll_first [OF os con inv own] show ?thesis by simp
    next
      case (Awaiting r)
      with poll flights_owned_poll_later [OF os inv own] show ?thesis by simp
    next
      case Finished
      with poll show ?thesis by simp
    qed
  next
    case (cancel i f)
    have "outcome S i = None" using R [of i] cancel(2,3) by fastforce
    moreover have "sender_boxes (drop_future os f (rt S)) = sender_boxes (rt S)"
      "dev (drop_future os f (rt S)) = dev (rt S)" by (cases f; simp)+
    ultimately show ?thesis using cancel
      by (intro flights_owned_mono [OF own]) (auto simp: in_flight_for_def)
  next
    case (complete p w st s ch)
    from complete_boxed_Some [OF os, of "(rt S)\<lparr>dev := w\<rparr>" p ch decode release st] ok complete(4,5)
    have "cells (sender_boxes s) = (cells (sender_boxes (rt S)))(p := None)" "dev s = release st w"
      by (auto simp: callback_eq)
    with complete submit_contract_release [OF con] show ?thesis
      by (intro flights_owned_mono [OF own]) (auto simp: in_flight_for_def split: if_splits)
  next
    case (device w)
    with own show ?thesis by (simp add: flights_owned_def in_flight_for_def)
  next
    case (enter cx)
    with own show ?thesis by (simp add: flights_owned_def in_flight_for_def)
  qed
qed

lemma reachable_flights_owned:
  assumes os: "oneshot_spec os view" and con: "submit_contract submit release pending"
    and "io_reachable os resume submit callback pending job S"
  shows "flights_owned pending S"
  using assms(3)
proof induction
  case (start s)
  then show ?case by (simp add: flights_owned_def io_start_def)
next
  case (step S T)
  from flights_owned_step [OF os con reachable_inv [OF os con step.hyps(1)] step.IH step.hyps(2)]
  show ?case .
qed

end

section \<open>Requests and the allocator\<close>

text \<open>
  A state of requests with the state of the allocator. A task is made from a buffer that is owned, a
  buffer is dropped only when no unfinished future borrows it, and buffers are made at any time.
\<close>

inductive buf_reachable ::
  "('c, io_result) oneshot \<Rightarrow> ('q \<Rightarrow> future \<Rightarrow> ('c, 'w) runtime \<Rightarrow> ('c, 'w) resumed) \<Rightarrow>
   ('q \<Rightarrow> ('w, 'st) submission) \<Rightarrow>
   ('st \<Rightarrow> ptr \<Rightarrow> ('c, 'w) runtime \<Rightarrow> ('c, 'w) runtime option) \<Rightarrow> ('w \<Rightarrow> ptr set) \<Rightarrow> (nat \<Rightarrow> 'q) \<Rightarrow>
   ('q \<Rightarrow> dma_buf) \<Rightarrow> 'm dma_api \<Rightarrow> ('m \<Rightarrow> ptr \<rightharpoonup> usize) \<Rightarrow> ('c, 'w, 'st) io_system \<Rightarrow> 'm \<Rightarrow> bool"
  for os resume submit callback pending job buf dma live
where
  start: "boxes_ok (sender_boxes s) \<Longrightarrow> cells (sender_boxes s) = Map.empty \<Longrightarrow> pending (dev s) = {} \<Longrightarrow>
     buf_reachable os resume submit callback pending job buf dma live (io_start s) m"
| io: "buf_reachable os resume submit callback pending job buf dma live S m \<Longrightarrow>
     io_step os resume submit callback pending job S T \<Longrightarrow>
     (\<And>i. tasks S i = None \<Longrightarrow> tasks T i \<noteq> None \<Longrightarrow> owns live (buf (job i)) m) \<Longrightarrow>
     buf_reachable os resume submit callback pending job buf dma live T m"
| make: "buf_reachable os resume submit callback pending job buf dma live S m \<Longrightarrow>
     alloc dma sz align m = (r, m') \<or> alloc_zeroed dma sz align m = (r, m') \<Longrightarrow>
     buf_reachable os resume submit callback pending job buf dma live S m'"
| free: "buf_reachable os resume submit callback pending job buf dma live S m \<Longrightarrow>
     (\<And>i f. tasks S i = Some f \<Longrightarrow> f \<noteq> Finished \<Longrightarrow> dma_as_ptr (buf (job i)) \<noteq> dma_as_ptr b) \<Longrightarrow>
     buf_reachable os resume submit callback pending job buf dma live S (dma_drop dma b m)"

inductive_cases io_stepE: "io_step os resume submit callback pending job S T"

lemma buf_reachable_io:
  "buf_reachable os resume submit callback pending job buf dma live S m \<Longrightarrow>
     io_reachable os resume submit callback pending job S"
proof (induction rule: buf_reachable.induct)
  case (start s m)
  then show ?case by (rule io_reachable.start)
next
  case (io S m T)
  from io.IH io.hyps(2) show ?case by (rule io_reachable.step)
qed

lemma io_step_unfinished:
  assumes "io_step os resume submit callback pending job S T" "tasks T i = Some f" "f \<noteq> Finished"
  shows "tasks S i = None \<or> (\<exists>g. tasks S i = Some g \<and> g \<noteq> Finished)"
  using assms
  by (cases rule: io_stepE)
    (auto simp: record_poll_def Let_def split: if_splits prod.splits)

lemma make_owns:
  assumes "dma_contract dma live" "owns live b m"
    and "alloc dma sz align m = (r, m') \<or> alloc_zeroed dma sz align m = (r, m')"
  shows "owns live b m'"
proof (cases r)
  case (Inl e)
  with assms malloced.get_Inl [OF assms(1)] zeroed.get_Inl [OF assms(1)] show ?thesis
    unfolding owns_def by metis
next
  case (Inr a)
  with assms malloced.get_disjoint [OF assms(1,2)] zeroed.get_disjoint [OF assms(1,2)] show ?thesis
    by metis
qed

lemma borrowed_alive:
  assumes dma: "dma_contract dma live"
    and "buf_reachable os resume submit callback pending job buf dma live S m"
    and "tasks S i = Some f" "f \<noteq> Finished"
  shows "owns live (buf (job i)) m"
  using assms(2-)
proof (induction arbitrary: i f)
  case (start s m)
  then show ?case by (simp add: io_start_def)
next
  case (io S m T)
  from io_step_unfinished [OF io.hyps(2) io.prems] io.IH io.hyps(3) io.prems(1) show ?case by fastforce
next
  case (make S m sz align r m')
  from make_owns [OF dma make.IH [OF make.prems] make.hyps(2)] show ?case .
next
  case (free S m b)
  from malloced.put_other [OF dma free.IH [OF free.prems]] free.hyps(2) [OF free.prems] show ?case
    by (simp add: dma_as_ptr_def)
qed

context io_protocol
begin

text \<open>SPDK's context of a request whose future was not dropped refers to a live buffer.\<close>

lemma flight_buffer:
  assumes os: "oneshot_spec os view" and con: "submit_contract submit release pending"
    and dma: "dma_contract dma live"
    and S: "buf_reachable os resume submit callback pending job buf dma live S m"
    and p: "p \<in> pending (dev (rt S))"
  shows "\<exists>i ch. cells (sender_boxes (rt S)) p = Some ch \<and> chan_of S i = Some ch \<and>
     (owns live (buf (job i)) m \<or> tasks S i = Some Finished \<and> outcome S i = None)"
proof -
  note reach = buf_reachable_io [OF S]
  from callback_defined [OF os reachable_inv [OF os con reach] p] obtain ch where
    ch: "cells (sender_boxes (rt S)) p = Some ch" by blast
  with reachable_flights_owned [OF os con reach] p obtain i where "in_flight_for S ch i"
    unfolding flights_owned_def by blast
  with ch borrowed_alive [OF dma S, of i] show ?thesis unfolding in_flight_for_def by blast
qed

text \<open>A request that SPDK accepts can be in flight, with its buffer owned.\<close>

lemma takes_off:
  fixes s :: "('c, 'w) runtime"
  assumes os: "oneshot_spec os view" and con: "submit_contract submit release pending"
    and acc: "\<And>p w. fst (submit q p w) = (0, None)"
    and s: "boxes_ok (sender_boxes s)" "cells (sender_boxes s) = Map.empty" "pending (dev s) = {}"
    and b: "owns live (buf q) m"
  obtains S :: "('c, 'w, 'st) io_system" and p ch
    where "buf_reachable os resume submit callback pending (\<lambda>_. q) buf dma live S m"
      "p \<in> pending (dev (rt S))" "cells (sender_boxes (rt S)) p = Some ch"
      "tasks S = [0 \<mapsto> Awaiting (CompletionReceiver ch)]"
proof -
  let ?reach = "buf_reachable os resume submit callback pending (\<lambda>_. q) buf dma live"
  let ?S0 = "(io_start s :: ('c, 'w, 'st) io_system)\<lparr>tasks := [0 \<mapsto> Unstarted]\<rparr>"
  have "?reach (io_start s) m" by (rule buf_reachable.start) (rule s)+
  from buf_reachable.io [OF this io_step.spawn [of "io_start s" 0]] have r0: "?reach ?S0 m"
    using b by (simp add: io_start_def)
  have "fst (snd (submitted os (submit q) s)) = 0 \<and> snd (snd (submitted os (submit q) s)) = None"
    by (simp add: submitted_def split: prod.splits) (metis acc fst_conv prod.inject)
  then obtain p ch s1 where res: "resume q Unstarted s = Some (Pending, Awaiting (CompletionReceiver ch), s1)"
    and sub: "submitted os (submit q) s = (ch, 0, None)"
    and s1: "cells (sender_boxes s1) p = Some ch" "p \<in> pending (dev s1)"
  proof (cases rule: first_poll [OF os con s(1), of q])
    case (1 p ch s1)
    then show thesis by (intro that [of ch s1 p]) simp_all
  qed simp_all
  let ?S1 = "record_poll 0 Unstarted Pending (Awaiting (CompletionReceiver ch)) s1
    (submitted os (submit q) s) ?S0"
  have "io_step os resume submit callback pending (\<lambda>_. q) ?S0 ?S1"
    using io_step.poll [of ?S0 0 Unstarted resume "\<lambda>_. q"] res by (simp add: io_start_def)
  with r0 have "?reach ?S1 m"
    by (rule buf_reachable.io) (use sub in \<open>auto simp: record_poll_def split: if_splits\<close>)
  moreover have "rt ?S1 = s1" "tasks ?S1 = [0 \<mapsto> Awaiting (CompletionReceiver ch)]"
    using sub by (simp_all add: record_poll_def)
  ultimately show thesis using s1 by (intro that [of ?S1 p ch]) simp_all
qed

end

section \<open>Block devices and namespaces\<close>

fun bdev_buffer :: "bdev_request \<Rightarrow> dma_buf" where
  "bdev_buffer (BdevRead d ch b off) = b"
| "bdev_buffer (BdevWrite d ch b off) = b"

fun nvme_buffer :: "nvme_command \<Rightarrow> dma_buf" where
  "nvme_buffer (NvmeRead ns q b lba n) = b"
| "nvme_buffer (NvmeWrite ns q b lba n) = b"

abbreviation bdev_buf_reachable where
  "bdev_buf_reachable os api \<equiv> buf_reachable os (bdev_resume os api) (bdev_submit api) (bdev_io_completion_cb os api)"

abbreviation nvme_buf_reachable where
  "nvme_buf_reachable os api \<equiv> buf_reachable os (nvme_resume os api) (nvme_submit api) (nvme_io_complete os)"

text \<open>
  C4: While SPDK holds the context of a read or write of a block device, the buffer of that request is
  an owned, live block of the allocator, unless the future of the request was dropped before it
  returned: nothing else a program can do within the borrow rules frees a buffer in flight.
\<close>

theorem bdev_buffer_alive:
  assumes "oneshot_spec os view" "submit_contract (bdev_submit api) (bdev_release api) pending"
    and "dma_contract dma live" "bdev_buf_reachable os api pending job bdev_buffer dma live S m"
    and "p \<in> pending (dev (rt S))"
  shows "\<exists>i ch. cells (sender_boxes (rt S)) p = Some ch \<and> chan_of S i = Some ch \<and>
     (owns live (bdev_buffer (job i)) m \<or> tasks S i = Some Finished \<and> outcome S i = None)"
  using assms by (rule bdev_io.flight_buffer)

lemma nvme_buffer_alive:
  assumes "oneshot_spec os view" "submit_contract (nvme_submit api) (\<lambda>_ w. w) pending"
    and "dma_contract dma live" "nvme_buf_reachable os api pending job nvme_buffer dma live S m"
    and "p \<in> pending (dev (rt S))"
  shows "\<exists>i ch. cells (sender_boxes (rt S)) p = Some ch \<and> chan_of S i = Some ch \<and>
     (owns live (nvme_buffer (job i)) m \<or> tasks S i = Some Finished \<and> outcome S i = None)"
  using assms by (rule nvme_io.flight_buffer)

definition demo_memory :: "usize boxes" where
  "demo_memory = snd (bump 512 0 no_boxes)"

lemma demo_memory_owns: "owns bump_live \<lparr>buf_ptr = 2, buf_len = 512\<rparr> demo_memory"
  by (simp add: demo_memory_def owns_def bump_live_def bump_def no_boxes_def Let_def)

lemma demo_bdev_flies:
  assumes "bdev_buffer q = \<lparr>buf_ptr = 2, buf_len = 512\<rparr>"
  obtains S p ch where
    "bdev_buf_reachable ref_oneshot demo_bdev (\<lambda>w. w) (\<lambda>_. q) bdev_buffer bump_api bump_live S demo_memory"
    "p \<in> dev (rt S)" "cells (sender_boxes (rt S)) p = Some ch"
    "tasks S = [0 \<mapsto> Awaiting (CompletionReceiver ch)]"
proof -
  have "fst (bdev_submit demo_bdev q p w) = (0, None)" for p w
    by (simp add: demo_bdev_submit demo_submit_def)
  from bdev_io.takes_off [OF ref_oneshot_spec demo_bdev_contract this demo_runtime_ok,
      where buf = bdev_buffer and m = demo_memory and live = bump_live and dma = bump_api]
  show thesis using that demo_memory_owns assms by auto
qed

theorem bdev_buffer_alive_witness:
  "\<exists>S p. bdev_buf_reachable ref_oneshot demo_bdev (\<lambda>w. w)
       (\<lambda>_. BdevRead (BdevDesc 8) (IoChannel 9) \<lparr>buf_ptr = 2, buf_len = 512\<rparr> 0) bdev_buffer bump_api bump_live
       S demo_memory \<and> p \<in> dev (rt S) \<and> owns bump_live \<lparr>buf_ptr = 2, buf_len = 512\<rparr> demo_memory"
proof -
  let ?q = "BdevRead (BdevDesc 8) (IoChannel 9) \<lparr>buf_ptr = 2, buf_len = 512\<rparr> 0"
  obtain S p ch where S: "bdev_buf_reachable ref_oneshot demo_bdev (\<lambda>w. w) (\<lambda>_. ?q) bdev_buffer bump_api
      bump_live S demo_memory" "p \<in> dev (rt S)" "cells (sender_boxes (rt S)) p = Some ch"
    "tasks S = [0 \<mapsto> Awaiting (CompletionReceiver ch)]"
    by (rule demo_bdev_flies [of ?q, OF bdev_buffer.simps(1)])
  from bdev_buffer_alive [OF ref_oneshot_spec demo_bdev_contract bump_contract S(1,2)] S show ?thesis
    by (auto split: if_splits)
qed

text \<open>
  The exception is real: after the future of a read is dropped, its buffer can be dropped too, while
  SPDK still holds the request and will write to the block.
\<close>

lemma dropped_read_dangles:
  "\<exists>S m p. bdev_buf_reachable ref_oneshot demo_bdev (\<lambda>w. w)
       (\<lambda>_. BdevRead (BdevDesc 8) (IoChannel 9) \<lparr>buf_ptr = 2, buf_len = 512\<rparr> 0) bdev_buffer bump_api bump_live
       S m \<and> p \<in> dev (rt S) \<and> bump_live m 2 = None"
proof -
  let ?b = "\<lparr>buf_ptr = 2, buf_len = 512\<rparr>"
  let ?q = "BdevRead (BdevDesc 8) (IoChannel 9) ?b 0"
  let ?reach = "bdev_buf_reachable ref_oneshot demo_bdev (\<lambda>w. w) (\<lambda>_. ?q) bdev_buffer bump_api bump_live"
  obtain S p ch where S: "?reach S demo_memory" "p \<in> dev (rt S)" "cells (sender_boxes (rt S)) p = Some ch"
      "tasks S = [0 \<mapsto> Awaiting (CompletionReceiver ch)]"
    by (rule demo_bdev_flies [of ?q, OF bdev_buffer.simps(1)])
  let ?f = "Awaiting (CompletionReceiver ch)"
  let ?T = "S\<lparr>rt := drop_future ref_oneshot ?f (rt S), tasks := (tasks S)(0 \<mapsto> Finished)\<rparr>"
  have "?reach ?T demo_memory"
    by (rule buf_reachable.io [OF S(1) io_step.cancel [of S 0 ?f]]) (use S(4) in \<open>auto split: if_splits\<close>)
  then have "?reach ?T (dma_drop bump_api ?b demo_memory)"
    by (rule buf_reachable.free) (use S(4) in \<open>auto split: if_splits\<close>)
  moreover have "p \<in> dev (rt ?T)" using S(2) by simp
  moreover have "bump_live (dma_drop bump_api ?b demo_memory) 2 = None"
    by (simp add: dma_drop_def bump_api_def bump_live_def)
  ultimately show ?thesis by blast
qed

end
