(* ===== verification/Blocking.thy ===== *)
theory Blocking
  imports Bdev NvmeNs
begin

text \<open>
  Requests under \<open>block_on\<close>: the caller polls the future of a request and, while it is pending, polls
  its SPDK thread, which takes completions from the device and runs their callbacks. The device is a
  parameter: \<open>fetch\<close> yields the next completion, if there is one.
\<close>

section \<open>Polling the thread\<close>

text \<open>One poll delivers at most \<open>k\<close> completions; \<open>None\<close> is a callback that is undefined.\<close>

fun deliver ::
  "('w \<Rightarrow> (ptr \<times> 'st) option \<times> 'w) \<Rightarrow>
   ('st \<Rightarrow> ptr \<Rightarrow> ('c, 'w) runtime \<Rightarrow> ('c, 'w) runtime option) \<Rightarrow> nat \<Rightarrow>
     ('c, 'w) runtime \<Rightarrow> ('c, 'w) runtime option" where
  "deliver fetch callback 0 s = Some s"
| "deliver fetch callback (Suc k) s =
     (case fetch (dev s) of
        (None, w) \<Rightarrow> Some (s\<lparr>dev := w\<rparr>)
      | (Some (p, st), w) \<Rightarrow>
          (case callback st p (s\<lparr>dev := w\<rparr>) of
             None \<Rightarrow> None
           | Some s' \<Rightarrow> deliver fetch callback k s'))"

text \<open>
  The state that \<open>block_on\<close> works on: the future and the thread's state, \<open>None\<close> once something was
  undefined. The future is polled in the context that \<open>block_on\<close> passes; a poll that panics yields \<open>None\<close>
  as its result.
\<close>

fun await_blocked ::
  "(future \<Rightarrow> ('c, 'w) runtime \<Rightarrow> ('c, 'w) resumed) \<Rightarrow> waker \<Rightarrow> (future \<times> ('c, 'w) runtime) option \<Rightarrow>
     io_result option poll \<times> (future \<times> ('c, 'w) runtime) option" where
  "await_blocked resume cx None = (Ready None, None)"
| "await_blocked resume cx (Some (f, s)) =
     (case resume f (s\<lparr>poll_cx := cx\<rparr>) of
        None \<Rightarrow> (Ready None, None)
      | Some (Ready r, f', s') \<Rightarrow> (Ready (Some r), Some (f', s'))
      | Some (Pending, f', s') \<Rightarrow> (Pending, Some (f', s')))"

definition poll_blocked ::
  "(('c, 'w) runtime \<Rightarrow> ('c, 'w) runtime option) \<Rightarrow> ptr \<Rightarrow> (future \<times> ('c, 'w) runtime) option \<Rightarrow>
     (future \<times> ('c, 'w) runtime) option" where
  "poll_blocked poll thread s =
     (case s of None \<Rightarrow> None | Some (f, s) \<Rightarrow> map_option (Pair f) (poll s))"

definition block_on_request ::
  "ptr \<Rightarrow> (future \<Rightarrow> ('c, 'w) runtime \<Rightarrow> ('c, 'w) resumed) \<Rightarrow>
   (('c, 'w) runtime \<Rightarrow> ('c, 'w) runtime option) \<Rightarrow> ('c, 'w) runtime \<Rightarrow>
     (io_result option \<times> (future \<times> ('c, 'w) runtime) option) ending option" where
  "block_on_request thread resume poll s =
     block_on (\<lambda>_. thread) (poll_blocked poll) (await_blocked resume) (Some (Unstarted, s))"

text \<open>
  The device completes contexts it holds, each once, and every context it holds in the end: \<open>due w p\<close>
  bounds how often the device can be asked before it completes \<open>p\<close>.
\<close>

definition device_contract ::
  "('w \<Rightarrow> (ptr \<times> 'st) option \<times> 'w) \<Rightarrow> ('st \<Rightarrow> 'w \<Rightarrow> 'w) \<Rightarrow> ('w \<Rightarrow> ptr set) \<Rightarrow> ('w \<Rightarrow> ptr \<Rightarrow> nat) \<Rightarrow> bool" where
  "device_contract fetch release pending due \<longleftrightarrow>
     (\<forall>w w'. fetch w = (None, w') \<longrightarrow> pending w' = pending w \<and>
        (\<forall>q \<in> pending w. due w' q < due w q)) \<and>
     (\<forall>w p st w'. fetch w = (Some (p, st), w') \<longrightarrow> p \<in> pending w \<and> pending w' = pending w - {p} \<and>
        (\<forall>q \<in> pending w - {p}. due w' q < due w q)) \<and>
     (\<forall>st w q. due (release st w) q = due w q)"

lemma device_contract_none:
  assumes "device_contract fetch release pending due" "fetch w = (None, w')"
  shows "pending w' = pending w" "q \<in> pending w \<Longrightarrow> due w' q < due w q"
  using assms unfolding device_contract_def by blast+

lemma device_contract_some:
  assumes "device_contract fetch release pending due" "fetch w = (Some (p, st), w')"
  shows "p \<in> pending w" "pending w' = pending w - {p}"
    "q \<in> pending w \<Longrightarrow> q \<noteq> p \<Longrightarrow> due w' q < due w q"
  using assms unfolding device_contract_def by blast+

lemma device_contract_release:
  "device_contract fetch release pending due \<Longrightarrow> due (release st w) q = due w q"
  unfolding device_contract_def by blast

definition reported :: "('w \<Rightarrow> (ptr \<times> 'st) option \<times> 'w) \<Rightarrow> 'st \<Rightarrow> bool" where
  "reported fetch st \<longleftrightarrow> (\<exists>w p w'. fetch w = (Some (p, st), w'))"

text \<open>
  Where a task stands: it is suspended, and has been told its status, or SPDK holds its context and
  the device completes it within \<open>m\<close> questions.
\<close>

definition awaits ::
  "('w \<Rightarrow> (ptr \<times> 'st) option \<times> 'w) \<Rightarrow> ('w \<Rightarrow> ptr set) \<Rightarrow> ('w \<Rightarrow> ptr \<Rightarrow> nat) \<Rightarrow>
     ('c, 'w, 'st) io_system \<Rightarrow> nat \<Rightarrow> nat \<Rightarrow> bool" where
  "awaits fetch pending due S i m \<longleftrightarrow> (\<exists>r. tasks S i = Some (Awaiting r) \<and>
     ((\<exists>st. told S (rx r) = Some st \<and> reported fetch st) \<or>
      (\<exists>p \<in> pending (dev (rt S)). cells (sender_boxes (rt S)) p = Some (rx r) \<and> due (dev (rt S)) p < m)))"

lemma awaits_step:
  assumes "awaits fetch pending due S i m" "tasks T i = tasks S i"
    and "\<And>ch st. told S ch = Some st \<Longrightarrow> told T ch = Some st"
    and "\<And>p ch. p \<in> pending (dev (rt S)) \<Longrightarrow> cells (sender_boxes (rt S)) p = Some ch \<Longrightarrow>
      due (dev (rt S)) p < m \<Longrightarrow> (\<exists>st. told T ch = Some st \<and> reported fetch st) \<or>
        p \<in> pending (dev (rt T)) \<and> cells (sender_boxes (rt T)) p = Some ch \<and> due (dev (rt T)) p < m'"
  shows "awaits fetch pending due T i m'"
proof -
  from assms(1) obtain r where r: "tasks S i = Some (Awaiting r)"
    and "(\<exists>st. told S (rx r) = Some st \<and> reported fetch st) \<or>
      (\<exists>p \<in> pending (dev (rt S)). cells (sender_boxes (rt S)) p = Some (rx r) \<and> due (dev (rt S)) p < m)"
    unfolding awaits_def by blast
  with assms(3,4) [where ch = "rx r"] have "(\<exists>st. told T (rx r) = Some st \<and> reported fetch st) \<or>
      (\<exists>p \<in> pending (dev (rt T)). cells (sender_boxes (rt T)) p = Some (rx r) \<and> due (dev (rt T)) p < m')"
    by blast
  with r assms(2) show ?thesis unfolding awaits_def by simp
qed

lemma awaits_mono:
  assumes "awaits fetch pending due S i m" "m \<le> n"
  shows "awaits fetch pending due S i n"
  using assms(1) by (rule awaits_step) (use assms(2) in auto)

lemma awaits_entered: "awaits fetch pending due S i m \<Longrightarrow> awaits fetch pending due (entered cx S) i m"
  by (simp add: awaits_def)

text \<open>Between two states no open channel was closed but boxed ones, and no box was added.\<close>

definition closes_boxed ::
  "('c \<Rightarrow> chan \<Rightarrow> io_result chan_view) \<Rightarrow> ('c, 'w, 'st) io_system \<Rightarrow> ('c, 'w, 'st) io_system \<Rightarrow> bool" where
  "closes_boxed view S T \<longleftrightarrow> cells (sender_boxes (rt T)) \<subseteq>\<^sub>m cells (sender_boxes (rt S)) \<and>
     (\<forall>ch. view (chans (rt S)) ch = Open \<longrightarrow> view (chans (rt T)) ch = Open \<or>
        (\<exists>p. cells (sender_boxes (rt S)) p = Some ch))"

lemma closes_boxed_refl: "closes_boxed view S S"
  by (simp add: closes_boxed_def)

lemma closes_boxed_trans:
  assumes "closes_boxed view S T" "closes_boxed view T U"
  shows "closes_boxed view S U"
proof -
  have "cells (sender_boxes (rt U)) \<subseteq>\<^sub>m cells (sender_boxes (rt S))"
    using assms by (meson closes_boxed_def map_le_trans)
  moreover have "\<exists>p. cells (sender_boxes (rt S)) p = Some ch" if "cells (sender_boxes (rt T)) p = Some ch" for p ch
    using assms(1) that unfolding closes_boxed_def by (intro exI [of _ p]) (metis domI map_le_def)
  ultimately show ?thesis using assms unfolding closes_boxed_def by blast
qed

context io_protocol
begin

text \<open>One completion, as a step of the system.\<close>

lemma fetch_step:
  assumes os: "oneshot_spec os view" and con: "submit_contract submit release pending"
    and dev: "device_contract fetch release pending due"
    and S: "io_reachable os resume submit callback pending job S"
    and t: "fetch (dev (rt S)) = (Some (p, st), w)"
  obtains s ch where "callback st p ((rt S)\<lparr>dev := w\<rparr>) = Some s" "cells (sender_boxes (rt S)) p = Some ch"
    "told S ch = None" "dev s = release st w" "cells (sender_boxes s) = (cells (sender_boxes (rt S)))(p := None)"
    "\<forall>d. d \<noteq> ch \<longrightarrow> view (chans s) d = view (chans (rt S)) d"
    "io_reachable os resume submit callback pending job (S\<lparr>rt := s, told := (told S)(ch \<mapsto> st)\<rparr>)"
proof -
  note inv = reachable_inv [OF os con S] and d = device_contract_some [OF dev t]
  from callback_defined [OF os inv d(1)] obtain ch s where
    ch: "cells (sender_boxes (rt S)) p = Some ch" and s: "callback st p ((rt S)\<lparr>dev := w\<rparr>) = Some s" by blast
  from inv have ok: "boxes_ok (sender_boxes (rt S))" by (simp add: sys_inv_def)
  from inv ch have "told S ch = None"
    by (auto simp: sys_inv_def io_inv_def dest: boxes_invD(6))
  moreover from complete_boxed_Some [OF os, of "(rt S)\<lparr>dev := w\<rparr>" p ch decode release st] ok ch s
  have "dev s = release st w" "cells (sender_boxes s) = (cells (sender_boxes (rt S)))(p := None)"
    by (auto simp: callback_eq)
  moreover have "view (chans (rt S)) ch = Open \<or> view (chans (rt S)) ch = ReceiverGone"
    using inv ch by (auto simp: sys_inv_def io_inv_def dest: boxes_invD(6))
  with complete_boxed_Some [OF os, of "(rt S)\<lparr>dev := w\<rparr>" p ch decode release st] ok ch s
  have "\<forall>d. d \<noteq> ch \<longrightarrow> view (chans s) d = view (chans (rt S)) d"
    by (auto simp: callback_eq)
  moreover from io_reachable.step [OF S io_step.complete [of p pending S w callback st s ch, OF d(1,2) s ch]]
  have "io_reachable os resume submit callback pending job (S\<lparr>rt := s, told := (told S)(ch \<mapsto> st)\<rparr>)" .
  ultimately show thesis using that ch s by blast
qed

text \<open>Asking the device once: it has nothing, or it completes a request.\<close>

lemma fetch_none:
  assumes dev: "device_contract fetch release pending due"
    and S: "io_reachable os resume submit callback pending job S" and t: "fetch (dev (rt S)) = (None, w)"
    and T: "T = S\<lparr>rt := (rt S)\<lparr>dev := w\<rparr>\<rparr>"
  shows "io_reachable os resume submit callback pending job T" "pending (dev (rt T)) = pending (dev (rt S))"
    and "polled_by T = polled_by S" "closes_boxed view S T"
    and "awaits fetch pending due S i m \<Longrightarrow> awaits fetch pending due T i (m - 1)"
proof -
  note d = device_contract_none [OF dev t]
  show "io_reachable os resume submit callback pending job T"
    unfolding T by (rule io_reachable.step [OF S io_step.device [OF d(1)]])
  show "pending (dev (rt T)) = pending (dev (rt S))" "polled_by T = polled_by S" "closes_boxed view S T"
    using d(1) T by (simp_all add: closes_boxed_def)
  assume "awaits fetch pending due S i m"
  then show "awaits fetch pending due T i (m - 1)"
  proof (rule awaits_step)
    fix q ch
    assume q: "q \<in> pending (dev (rt S))" "cells (sender_boxes (rt S)) q = Some ch" "due (dev (rt S)) q < m"
    with d(2) [OF q(1)] have "due w q < m - 1" by simp
    with q d(1) T show "(\<exists>st. told T ch = Some st \<and> reported fetch st) \<or> q \<in> pending (dev (rt T)) \<and>
        cells (sender_boxes (rt T)) q = Some ch \<and> due (dev (rt T)) q < m - 1" by simp
  qed (simp_all add: T)
qed

lemma fetch_some:
  assumes os: "oneshot_spec os view" and con: "submit_contract submit release pending"
    and dev: "device_contract fetch release pending due"
    and S: "io_reachable os resume submit callback pending job S" and t: "fetch (dev (rt S)) = (Some (p, st), w)"
  obtains T where "callback st p ((rt S)\<lparr>dev := w\<rparr>) = Some (rt T)"
    "io_reachable os resume submit callback pending job T" "tasks T = tasks S" "polled_by T = polled_by S"
    "pending (dev (rt T)) \<subset> pending (dev (rt S))" "closes_boxed view S T"
    "\<forall>i m. awaits fetch pending due S i m \<longrightarrow> awaits fetch pending due T i (m - 1)"
proof -
  note d = device_contract_some [OF dev t]
  from fetch_step [OF os con dev S t] obtain s ch where
    s: "callback st p ((rt S)\<lparr>dev := w\<rparr>) = Some s" "cells (sender_boxes (rt S)) p = Some ch"
    "told S ch = None" "dev s = release st w"
    "cells (sender_boxes s) = (cells (sender_boxes (rt S)))(p := None)"
    "\<forall>d. d \<noteq> ch \<longrightarrow> view (chans s) d = view (chans (rt S)) d"
    "io_reachable os resume submit callback pending job (S\<lparr>rt := s, told := (told S)(ch \<mapsto> st)\<rparr>)" .
  let ?T = "S\<lparr>rt := s, told := (told S)(ch \<mapsto> st)\<rparr>"
  have pend: "pending (dev s) = pending (dev (rt S)) - {p}"
    using s(4) d(2) submit_contract_release [OF con] by simp
  have "awaits fetch pending due ?T i (m - 1)" if "awaits fetch pending due S i m" for i m
    using that
  proof (rule awaits_step)
    show "told ?T ch' = Some st'" if "told S ch' = Some st'" for ch' st'
      using that s(3) by auto
    fix q ch'
    assume q: "q \<in> pending (dev (rt S))" "cells (sender_boxes (rt S)) q = Some ch'" "due (dev (rt S)) q < m"
    show "(\<exists>st. told ?T ch' = Some st \<and> reported fetch st) \<or> q \<in> pending (dev (rt ?T)) \<and>
        cells (sender_boxes (rt ?T)) q = Some ch' \<and> due (dev (rt ?T)) q < m - 1"
    proof (cases "q = p")
      case True
      with q s(2) t show ?thesis unfolding reported_def by auto
    next
      case False
      with d(3) [OF q(1) False] q(3) have "due (dev s) q < m - 1"
        unfolding s(4) device_contract_release [OF dev] by simp
      with False q(1,2) s(5) pend show ?thesis by (intro disjI2) simp
    qed
  qed simp
  moreover have "pending (dev (rt ?T)) \<subset> pending (dev (rt S))" using pend d(1) by auto
  moreover have "closes_boxed view S ?T"
    unfolding closes_boxed_def
  proof (intro conjI allI impI)
    show "cells (sender_boxes (rt ?T)) \<subseteq>\<^sub>m cells (sender_boxes (rt S))" using s(5) by (simp add: map_le_def)
    fix d assume "view (chans (rt S)) d = Open"
    then show "view (chans (rt ?T)) d = Open \<or> (\<exists>p. cells (sender_boxes (rt S)) p = Some d)"
      using s(2,6) by (cases "d = ch") auto
  qed
  ultimately show thesis using s(1,7) by (intro that [of ?T]) simp_all
qed

text \<open>What a poll of the thread does: every request is delivered or comes closer.\<close>

lemma deliver_awaits:
  assumes os: "oneshot_spec os view" and con: "submit_contract submit release pending"
    and dev: "device_contract fetch release pending due"
    and "io_reachable os resume submit callback pending job S"
  shows "\<exists>T. io_reachable os resume submit callback pending job T \<and>
     deliver fetch callback k (rt S) = Some (rt T) \<and> tasks T = tasks S \<and> polled_by T = polled_by S \<and>
     closes_boxed view S T \<and>
     pending (dev (rt T)) \<subseteq> pending (dev (rt S)) \<and>
     (k \<noteq> 0 \<and> fst (fetch (dev (rt S))) \<noteq> None \<longrightarrow> pending (dev (rt T)) \<subset> pending (dev (rt S))) \<and>
     (\<forall>i m. awaits fetch pending due S i m \<longrightarrow> awaits fetch pending due T i (m - of_bool (k \<noteq> 0)))"
  using assms(4)
proof (induction k arbitrary: S)
  case 0
  then show ?case using closes_boxed_refl by auto
next
  case (Suc k)
  obtain c w where t: "fetch (dev (rt S)) = (c, w)" by fastforce
  show ?case
  proof (cases c)
    case None
    let ?T = "S\<lparr>rt := (rt S)\<lparr>dev := w\<rparr>\<rparr>"
    from fetch_none [OF dev Suc.prems t [unfolded None] refl] t None show ?thesis
      by (intro exI [of _ ?T]) simp
  next
    case (Some x)
    then obtain p st where x: "c = Some (p, st)" by (cases x) auto
    from fetch_some [OF os con dev Suc.prems t [unfolded x]] obtain T where
      T: "callback st p ((rt S)\<lparr>dev := w\<rparr>) = Some (rt T)" "io_reachable os resume submit callback pending job T"
      "tasks T = tasks S" "polled_by T = polled_by S" "pending (dev (rt T)) \<subset> pending (dev (rt S))"
      "closes_boxed view S T" "\<forall>i m. awaits fetch pending due S i m \<longrightarrow> awaits fetch pending due T i (m - 1)" .
    from Suc.IH [OF T(2)] obtain U where
      U: "io_reachable os resume submit callback pending job U" "deliver fetch callback k (rt T) = Some (rt U)"
      "tasks U = tasks T" "polled_by U = polled_by T" "pending (dev (rt U)) \<subseteq> pending (dev (rt T))"
      "closes_boxed view T U" "\<forall>i m. awaits fetch pending due T i m \<longrightarrow> awaits fetch pending due U i (m - of_bool (k \<noteq> 0))" by blast
    have "awaits fetch pending due U i (m - 1)" if "awaits fetch pending due S i m" for i m
      using that T(7) U(7) by (meson awaits_mono diff_le_self)
    with U(1-5) T(1-5) closes_boxed_trans [OF T(6) U(6)] t x show ?thesis
      by (intro exI [of _ U]) (simp, blast)
  qed
qed

text \<open>A poll of a suspended task that has no answer yet changes nothing that matters.\<close>

lemma poll_keeps_awaits:
  assumes os: "oneshot_spec os view" and con: "submit_contract submit release pending"
    and S: "io_reachable os resume submit callback pending job S" and i: "tasks S i = Some (Awaiting r)"
    and st: "told S (rx r) = None"
  obtains T where "resume (job i) (Awaiting r) (rt S) = Some (Pending, Awaiting r, rt T)"
    "io_reachable os resume submit callback pending job T" "tasks T = tasks S"
    "polled_by T = (polled_by S)(i := poll_cx (rt S))"
    "\<forall>j m. awaits fetch pending due S j m \<longrightarrow> awaits fetch pending due T j m"
proof -
  from os reachable_inv [OF os con S] i obtain c where
    c: "resume (job i) (Awaiting r) (rt S) = Some (Pending, Awaiting r, (rt S)\<lparr>chans := c\<rparr>)"
  proof (cases rule: later_poll [where q = "job i"])
    case (waiting p c)
    then show thesis by (intro that)
  qed (use st in simp)
  let ?T = "record_poll i (Awaiting r) Pending (Awaiting r) ((rt S)\<lparr>chans := c\<rparr>)
    (submitted os (submit (job i)) (rt S)) S"
  have eq: "rt ?T = (rt S)\<lparr>chans := c\<rparr>" "tasks ?T = tasks S" "told ?T = told S"
    "polled_by ?T = (polled_by S)(i := poll_cx (rt S))"
    using i by (simp_all add: record_poll_def fun_upd_idem)
  have "io_reachable os resume submit callback pending job ?T"
    by (rule io_reachable.step [OF S io_step.poll [where resume = resume and job = job]]) (use i c in simp_all)
  moreover have "awaits fetch pending due ?T j m" if "awaits fetch pending due S j m" for j m
    using that by (rule awaits_step) (simp_all add: eq)
  ultimately show thesis using c eq by (intro that [of ?T]) simp_all
qed

text \<open>The loop, once the request is suspended.\<close>

lemma blocked_loop:
  assumes os: "oneshot_spec os view" and con: "submit_contract submit release pending"
    and dev: "device_contract fetch release pending due" and k: "k \<noteq> 0"
    and "io_reachable os resume submit callback pending job S"
    and "tasks S i = Some (Awaiting r)" and "awaits fetch pending due S i m"
  shows "\<exists>st s. reported fetch st \<and>
     block_on_loop (await_blocked (resume (job i)) cx) (poll_blocked (deliver fetch callback k) thread)
       (Some (Awaiting r, rt S)) = Some (Some (decode st), Some (Finished, s))"
  using assms(5-)
proof (induction m arbitrary: S rule: less_induct)
  let ?fut = "await_blocked (resume (job i)) cx" and ?tp = "poll_blocked (deliver fetch callback k) thread"
  case (less m)
  let ?S = "entered cx S"
  have S: "io_reachable os resume submit callback pending job ?S"
    by (rule io_reachable.step [OF less.prems(1) io_step.enter])
  have i: "tasks ?S i = Some (Awaiting r)" using less.prems(2) by simp
  show ?case
  proof (cases "told S (rx r)")
    case (Some st)
    with less.prems reachable_inv [OF os con less.prems(1)] have "reported fetch st"
      by (fastforce simp: awaits_def sys_inv_def io_inv_def dest: boxes_invD(6))
    moreover from told_ready [OF os con S i, of st] Some obtain s where
      "resume (job i) (Awaiting r) ((rt S)\<lparr>poll_cx := cx\<rparr>) = Some (Ready (decode st), Finished, s)" by auto
    ultimately show ?thesis by (intro exI [of _ st] exI [of _ s]) (simp add: block_on_loop_ready)
  next
    case None
    then have "told ?S (rx r) = None" by simp
    from poll_keeps_awaits [OF os con S i this] obtain T where
      T: "resume (job i) (Awaiting r) (rt ?S) = Some (Pending, Awaiting r, rt T)"
      "io_reachable os resume submit callback pending job T" "tasks T = tasks ?S"
      "polled_by T = (polled_by ?S)(i := poll_cx (rt ?S))"
      "\<forall>j m. awaits fetch pending due ?S j m \<longrightarrow> awaits fetch pending due T j m" .
    from deliver_awaits [OF os con dev T(2), of k] T(5) awaits_entered [OF less.prems(3), of cx] k
    obtain U where
      U: "io_reachable os resume submit callback pending job U" "deliver fetch callback k (rt T) = Some (rt U)"
      "tasks U = tasks T" "awaits fetch pending due U i (m - 1)" by fastforce
    have "block_on_loop ?fut ?tp (Some (Awaiting r, rt S)) = block_on_loop ?fut ?tp (Some (Awaiting r, rt U))"
      using T(1) U(2) by (subst block_on_loop_pending) (simp_all add: block_on_round_def poll_blocked_def)
    moreover have "m \<noteq> 0" using less.prems(2,3) None by (auto simp: awaits_def)
    ultimately show ?thesis using less.IH [OF _ U(1) _ U(4)] U(3) T(3) less.prems(2) by simp
  qed
qed

lemma accepted_returns:
  assumes os: "oneshot_spec os view" and con: "submit_contract submit release pending"
    and dev: "device_contract fetch release pending due" and k: "k \<noteq> 0"
    and S: "io_reachable os resume submit callback pending job S" and i: "tasks S i = Some Unstarted"
    and res: "resume (job i) Unstarted (rt S) = Some (Pending, Awaiting (CompletionReceiver ch), s)"
    and cx: "rt S = s0\<lparr>poll_cx := cx\<rparr>"
    and p: "p \<in> pending (dev s)" "cells (sender_boxes s) p = Some ch"
  shows "\<exists>st s'. reported fetch st \<and>
    block_on_loop (await_blocked (resume (job i)) cx) (poll_blocked (deliver fetch callback k) thread)
      (Some (Unstarted, s0)) = Some (Some (decode st), Some (Finished, s'))"
proof -
  let ?fut = "await_blocked (resume (job i)) cx" and ?tp = "poll_blocked (deliver fetch callback k) thread"
  let ?T = "record_poll i Unstarted Pending (Awaiting (CompletionReceiver ch)) s
    (submitted os (submit (job i)) (rt S)) S"
  have T: "io_reachable os resume submit callback pending job ?T"
    by (rule io_reachable.step [OF S]) (use io_step.poll [of S i Unstarted resume job Pending] i res in simp)
  have eq: "rt ?T = s" "tasks ?T i = Some (Awaiting (CompletionReceiver ch))"
    by (simp_all add: record_poll_def Let_def split: prod.split)
  have "awaits fetch pending due ?T i (Suc (due (dev s) p))"
    using p eq by (auto simp: awaits_def)
  with deliver_awaits [OF os con dev T, of k] k eq obtain U where
    U: "io_reachable os resume submit callback pending job U" "deliver fetch callback k s = Some (rt U)"
    "tasks U i = Some (Awaiting (CompletionReceiver ch))" "awaits fetch pending due U i (due (dev s) p)"
    by fastforce
  have "block_on_loop ?fut ?tp (Some (Unstarted, s0)) =
      block_on_loop ?fut ?tp (Some (Awaiting (CompletionReceiver ch), rt U))"
    using res [unfolded cx] U(2) by (subst block_on_loop_pending) (simp_all add: block_on_round_def poll_blocked_def)
  with blocked_loop [OF os con dev k U(1,3,4), of cx thread] show ?thesis by auto
qed

lemma request_returns:
  assumes os: "oneshot_spec os view" and con: "submit_contract submit release pending"
    and dev: "device_contract fetch release pending due" and k: "k \<noteq> 0" and thread: "thread \<noteq> null"
    and S: "io_reachable os resume submit callback pending job S" and i: "tasks S i = None"
  shows "\<exists>r s. block_on_request thread (resume (job i)) (deliver fetch callback k) (rt S) =
       Some (Returned (Some r, Some (Finished, s))) \<and>
     ((\<exists>rc p w w'. submit (job i) p w = ((rc, None), w') \<and> rc \<noteq> 0 \<and> r = Inl (err_of rc)) \<or>
      (\<exists>st. (reported fetch st \<or> (\<exists>p w w'. submit (job i) p w = ((0, Some st), w'))) \<and> r = decode st))"
proof -
  let ?fut = "await_blocked (resume (job i)) NoopWaker"
    and ?tp = "poll_blocked (deliver fetch callback k) thread" and ?s = "(rt S)\<lparr>poll_cx := NoopWaker\<rparr>"
  let ?S = "entered NoopWaker (S\<lparr>tasks := (tasks S)(i \<mapsto> Unstarted)\<rparr>)"
  have loop: "block_on_request thread (resume (job i)) (deliver fetch callback k) (rt S) =
      map_option Returned (block_on_loop ?fut ?tp (Some (Unstarted, rt S)))"
    using thread by (simp add: block_on_request_def block_on_def nonnull_def)
  note io_reachable.step [OF S io_step.spawn [where S = S and i = i, OF i]]
  from io_reachable.step [OF this io_step.enter, of NoopWaker]
  have S': "io_reachable os resume submit callback pending job ?S" by simp
  from reachable_inv [OF os con S] have "boxes_ok (sender_boxes ?s)" by (simp add: sys_inv_def)
  with os con show ?thesis
  proof (cases rule: first_poll [where q = "job i" and s = ?s])
    case (accepted p ch s)
    have "\<exists>st s'. reported fetch st \<and> block_on_loop ?fut ?tp (Some (Unstarted, rt S)) =
        Some (Some (decode st), Some (Finished, s'))"
      by (rule accepted_returns [OF os con dev k S', where p = p and ch = ch and s = s and s0 = "rt S"]) (use accepted in simp_all)
    then show ?thesis by (auto simp: loop)
  next
    case (told p ch st s)
    then have "\<exists>p w w'. submit (job i) p w = ((0, Some st), w')"
      by (auto simp: submitted_def split: prod.splits)
    moreover have "block_on_request thread (resume (job i)) (deliver fetch callback k) (rt S) =
        Some (Returned (Some (decode st), Some (Finished, s)))"
      using told(2) by (simp add: loop block_on_loop_ready)
    ultimately show ?thesis by blast
  next
    case (refused p ch rc s)
    then have "\<exists>p w w'. submit (job i) p w = ((rc, None), w')"
      by (auto simp: submitted_def split: prod.splits)
    moreover have "block_on_request thread (resume (job i)) (deliver fetch callback k) (rt S) =
        Some (Returned (Some (Inl (err_of rc)), Some (Finished, s)))"
      using refused(3) by (simp add: loop block_on_loop_ready)
    ultimately show ?thesis using refused(2) by blast
  qed
qed

end

section \<open>Block devices and namespaces\<close>

text \<open>A status of a block device, taken apart.\<close>

lemma bdev_status:
  "(\<exists>st. P st \<and> r = bdev_decode st) \<longleftrightarrow> (\<exists>io ok. P (io, ok) \<and> r = (if ok then Inr () else Inl IoError))"
  by (simp add: split_paired_Ex bdev_decode_def)

text \<open>
  C9: A read or write of a block device under \<open>block_on\<close>, started in any state that other requests have
  reached, returns, whatever is in flight, if the device completes every request in the end. No poll
  panics and no callback is undefined on the way; the result is the code of a refused submission, or Ok
  or an I/O error as the device reported.
\<close>

theorem blocking_bdev_returns:
  assumes "oneshot_spec os view" "submit_contract (bdev_submit api) (bdev_release api) pending"
    and "device_contract fetch (bdev_release api) pending due" "k \<noteq> 0" "thread \<noteq> null"
    and "io_reachable os (bdev_resume os api) (bdev_submit api) (bdev_io_completion_cb os api) pending job S"
    and "tasks S i = None"
  shows "\<exists>r s. block_on_request thread (bdev_resume os api (job i))
       (deliver fetch (bdev_io_completion_cb os api) k) (rt S) = Some (Returned (Some r, Some (Finished, s))) \<and>
     ((\<exists>rc p w w'. bdev_submit api (job i) p w = ((rc, None), w') \<and> rc \<noteq> 0 \<and> r = Inl (Os rc)) \<or>
      (\<exists>io ok. (reported fetch (io, ok) \<or> (\<exists>p w w'. bdev_submit api (job i) p w = ((0, Some (io, ok)), w'))) \<and>
         r = (if ok then Inr () else Inl IoError)))"
proof -
  obtain r s where
    run: "block_on_request thread (bdev_resume os api (job i)) (deliver fetch (bdev_io_completion_cb os api) k)
      (rt S) = Some (Returned (Some r, Some (Finished, s)))"
    and r: "(\<exists>rc p w w'. bdev_submit api (job i) p w = ((rc, None), w') \<and> rc \<noteq> 0 \<and> r = Inl (Os rc)) \<or>
      (\<exists>st. (reported fetch st \<or> (\<exists>p w w'. bdev_submit api (job i) p w = ((0, Some st), w'))) \<and>
        r = bdev_decode st)"
    using bdev_io.request_returns [OF assms] by (elim exE conjE) (rule that)
  with run show ?thesis unfolding bdev_status by (intro exI conjI)
qed

text \<open>A device that completes its requests in order, with success.\<close>

definition queue_bdev :: "ptr list bdev_api" where
  "queue_bdev = \<lparr>spdk_bdev_get_by_name = (\<lambda>_ _. 7),
     spdk_bdev_get_name = (\<lambda>_ _. ''Null0''), spdk_bdev_get_block_size = (\<lambda>_ _. 512),
     spdk_bdev_get_num_blocks = (\<lambda>_ _. 2048), spdk_bdev_open_ext = (\<lambda>_ _ w. ((0, 8), w)),
     spdk_bdev_close = (\<lambda>_ w. w), spdk_bdev_get_io_channel = (\<lambda>_ w. (9, w)),
     spdk_bdev_desc_get_bdev = (\<lambda>_ _. 7), spdk_bdev_read = (\<lambda>_ _ _ _ _ p w. ((0, None), w @ [p])),
     spdk_bdev_write = (\<lambda>_ _ _ _ _ p w. ((0, None), w @ [p])), spdk_bdev_free_io = (\<lambda>_ w. w)\<rparr>"

fun queue_fetch :: "ptr list \<Rightarrow> (ptr \<times> ptr \<times> bool) option \<times> ptr list" where
  "queue_fetch [] = (None, [])"
| "queue_fetch (p # w) = (Some (p, 5, True), removeAll p w)"

lemma queue_bdev_submit: "bdev_submit queue_bdev q p w = ((0, None), w @ [p])"
  by (cases q) (simp_all add: queue_bdev_def)

lemma queue_contracts:
  "submit_contract (bdev_submit queue_bdev) (bdev_release queue_bdev) set"
  "device_contract queue_fetch (bdev_release queue_bdev) set (\<lambda>w _. length w)"
proof -
  have release: "bdev_release queue_bdev st w = w" for st w
    by (simp add: bdev_release_def queue_bdev_def)
  then show "submit_contract (bdev_submit queue_bdev) (bdev_release queue_bdev) set"
    by (simp add: submit_contract_def queue_bdev_submit)
  have "length (removeAll p w) < Suc (length w)" for p :: ptr and w
    by (simp add: removeAll_filter_not_eq less_Suc_eq_le length_filter_le)
  then show "device_contract queue_fetch (bdev_release queue_bdev) set (\<lambda>w _. length w)"
    unfolding device_contract_def release
    by (auto elim!: queue_fetch.elims simp: removeAll_filter_not_eq less_Suc_eq_le length_filter_le)
qed

theorem blocking_bdev_returns_witness:
  "\<exists>s. block_on_request 3 (bdev_resume ref_oneshot queue_bdev
         (BdevRead (BdevDesc 8) (IoChannel 9) \<lparr>buf_ptr = 16, buf_len = 512\<rparr> 0))
       (deliver queue_fetch (bdev_io_completion_cb ref_oneshot queue_bdev) 32)
       \<lparr>sender_boxes = no_boxes, chans = no_chans, dev = [], poll_cx = NoopWaker\<rparr> =
     Some (Returned (Some (Inr ()), Some (Finished, s)))"
proof -
  let ?q = "BdevRead (BdevDesc 8) (IoChannel 9) \<lparr>buf_ptr = 16, buf_len = 512\<rparr> 0"
  let ?s = "\<lparr>sender_boxes = no_boxes, chans = no_chans, dev = [], poll_cx = NoopWaker\<rparr> :: (io_result chan_store, ptr list) runtime"
  let ?S = "io_start ?s :: (io_result chan_store, ptr list, ptr \<times> bool) io_system"
  have S: "io_reachable ref_oneshot (bdev_resume ref_oneshot queue_bdev) (bdev_submit queue_bdev)
      (bdev_io_completion_cb ref_oneshot queue_bdev) set (\<lambda>_. ?q) ?S"
    by (rule io_reachable.start) (simp_all add: no_boxes_def boxes_ok_def)
  have ok: "ok" if "reported queue_fetch (io, ok)" for io ok
    using that by (auto simp: reported_def elim!: queue_fetch.elims)
  have none: "tasks ?S 0 = None" and rt: "rt ?S = ?s" by (simp_all add: io_start_def)
  have n: "(32 :: nat) \<noteq> 0" "(3 :: ptr) \<noteq> null" by simp_all
  from blocking_bdev_returns [OF ref_oneshot_spec queue_contracts n S none, unfolded rt queue_bdev_submit]
  obtain r s where
    run: "block_on_request 3 (bdev_resume ref_oneshot queue_bdev ?q)
      (deliver queue_fetch (bdev_io_completion_cb ref_oneshot queue_bdev) 32) ?s =
      Some (Returned (Some r, Some (Finished, s)))"
    and r: "\<exists>io ok. reported queue_fetch (io, ok) \<and> r = (if ok then Inr () else Inl IoError)"
    by blast
  from r ok have "r = Inr ()" by auto
  with run show ?thesis by blast
qed

end
