(* ===== verification/Executor.thy ===== *)
theory Executor
  imports Blocking Poller
begin

text \<open>
  Requests driven by a task of their own: a single-threaded executor that runs \<open>spdk_poller\<close> (\<open>poller.rs\<close>),
  or a task that polls a queue pair (\<open>nvme/qpair.rs\<close>), beside any number of reads and writes (\<open>bdev.rs\<close>,
  \<open>nvme/namespace.rs\<close>). The executor is a schedule, a sequence of turns; the
  world of the functions that poll is the state of the requests, because polling runs the callbacks of
  the requests the device has completed.
\<close>

section \<open>The executor\<close>

datatype turn = DriverTurn | TaskTurn nat

text \<open>
  The state: the poller's future, the futures of the tasks and their results, and the process. The
  state of the requests is \<open>None\<close> once a callback was undefined.
\<close>

record ('c, 'w) exec =
  ex_poller :: poller
  ex_task :: "nat \<Rightarrow> future"
  ex_result :: "nat \<rightharpoonup> io_result"
  ex_proc :: "('c, 'w) runtime option process"

definition exec_start :: "('c, 'w) runtime \<Rightarrow> ('c, 'w) exec" where
  "exec_start s = \<lparr>ex_poller = PollerStart, ex_task = (\<lambda>_. Unstarted), ex_result = Map.empty,
     ex_proc = fresh_process (Some s)\<rparr>"

text \<open>A turn that panics, is undefined or never ends is \<open>None\<close>; a finished task is left alone.\<close>

definition poller_turn ::
  "('c, 'w) runtime option thread_api \<Rightarrow> ('c, 'w) exec \<Rightarrow> ('c, 'w) exec option" where
  "poller_turn api X =
     (case spdk_poller api (ex_poller X) (ex_proc X) of
        Some (Returned (Pending, _, f, s)) \<Rightarrow> Some (X\<lparr>ex_poller := f, ex_proc := s\<rparr>)
      | _ \<Rightarrow> None)"

text \<open>
  The task that polls a queue pair, \<open>loop { qpair.process_completions(0); yield_now().await }\<close>, from one
  yield to the next. Its answer, a count or an error number, is ignored.
\<close>

definition qpair_turn ::
  "('c, 'w) runtime option ns_api \<Rightarrow> nvme_qpair \<Rightarrow> ('c, 'w) exec \<Rightarrow> ('c, 'w) exec option" where
  "qpair_turn api qpair X =
     (case call (qpair_process_completions api qpair 0) (ex_proc X) of (_, s) \<Rightarrow>
        if spdk s = None then None else Some (X\<lparr>ex_proc := s\<rparr>))"

text \<open>The executor polls a task in the context of the task's own waker.\<close>

definition task_turn ::
  "('q \<Rightarrow> future \<Rightarrow> ('c, 'w) runtime \<Rightarrow> ('c, 'w) resumed) \<Rightarrow> (nat \<Rightarrow> 'q) \<Rightarrow> nat \<Rightarrow>
     ('c, 'w) exec \<Rightarrow> ('c, 'w) exec option" where
  "task_turn resume job i X =
     (if ex_result X i \<noteq> None then Some X
      else case spdk (ex_proc X) of
        None \<Rightarrow> None
      | Some s \<Rightarrow>
          (case resume (job i) (ex_task X i) (s\<lparr>poll_cx := TaskWaker i\<rparr>) of
             None \<Rightarrow> None
           | Some (q, f, s') \<Rightarrow>
               Some (X\<lparr>ex_task := (ex_task X)(i := f),
                       ex_result := (case q of Ready r \<Rightarrow> (ex_result X)(i \<mapsto> r) | Pending \<Rightarrow> ex_result X),
                       ex_proc := (ex_proc X)\<lparr>spdk := Some s'\<rparr>\<rparr>)))"

fun take_turn ::
  "(('c, 'w) exec \<Rightarrow> ('c, 'w) exec option) \<Rightarrow> ('q \<Rightarrow> future \<Rightarrow> ('c, 'w) runtime \<Rightarrow> ('c, 'w) resumed) \<Rightarrow>
     (nat \<Rightarrow> 'q) \<Rightarrow> turn \<Rightarrow> ('c, 'w) exec \<Rightarrow> ('c, 'w) exec option" where
  "take_turn driver resume job DriverTurn X = driver X"
| "take_turn driver resume job (TaskTurn i) X = task_turn resume job i X"

primrec exec_run ::
  "(('c, 'w) exec \<Rightarrow> ('c, 'w) exec option) \<Rightarrow> ('q \<Rightarrow> future \<Rightarrow> ('c, 'w) runtime \<Rightarrow> ('c, 'w) resumed) \<Rightarrow>
     (nat \<Rightarrow> 'q) \<Rightarrow> (nat \<Rightarrow> turn) \<Rightarrow> nat \<Rightarrow> ('c, 'w) exec \<Rightarrow> ('c, 'w) exec option" where
  "exec_run driver resume job sched 0 X = Some X"
| "exec_run driver resume job sched (Suc n) X =
     Option.bind (exec_run driver resume job sched n X) (take_turn driver resume job (sched n))"

text \<open>
  The hypotheses. The current thread is \<open>th\<close>; polling it delivers at most \<open>k\<close> completions, and reports
  work only if there was one; a submission does not put off the requests already at the device.
\<close>

definition polls_device ::
  "('c, 'w) runtime option thread_api \<Rightarrow> ptr \<Rightarrow> ('w \<Rightarrow> (ptr \<times> 'st) option \<times> 'w) \<Rightarrow>
   ('st \<Rightarrow> ptr \<Rightarrow> ('c, 'w) runtime \<Rightarrow> ('c, 'w) runtime option) \<Rightarrow> nat \<Rightarrow> bool" where
  "polls_device api th fetch callback k \<longleftrightarrow> th \<noteq> null \<and> (\<forall>w. spdk_get_thread api w = th) \<and>
     (\<forall>s. \<exists>work. spdk_thread_poll api th 0 0 (Some s) = (work, deliver fetch callback k s) \<and>
        (work \<noteq> 0 \<longrightarrow> fst (fetch (dev s)) \<noteq> None))"

definition submit_patient ::
  "('q \<Rightarrow> ('w, 'st) submission) \<Rightarrow> ('w \<Rightarrow> ptr set) \<Rightarrow> ('w \<Rightarrow> ptr \<Rightarrow> nat) \<Rightarrow> bool" where
  "submit_patient submit pending due \<longleftrightarrow>
     (\<forall>q p w. \<forall>p' \<in> pending w. due (snd (submit q p w)) p' \<le> due w p')"

fun agrees :: "future option \<Rightarrow> future \<Rightarrow> io_result option \<Rightarrow> bool" where
  "agrees None f r \<longleftrightarrow> f = Unstarted \<and> r = None"
| "agrees (Some g) f r \<longleftrightarrow> f = g \<and> f \<noteq> Unstarted \<and> (r = None \<longleftrightarrow> f \<noteq> Finished)"

definition simulates :: "ptr \<Rightarrow> ('c, 'w) exec \<Rightarrow> ('c, 'w, 'st) io_system \<Rightarrow> bool" where
  "simulates th X S \<longleftrightarrow> spdk (ex_proc X) = Some (rt S) \<and>
     (ex_poller X = PollerStart \<or> ex_poller X = PollerYield (CurrentThread th) True) \<and>
     (\<forall>i. agrees (tasks S i) (ex_task X i) (ex_result X i)) \<and>
     (\<forall>i. tasks S i \<noteq> None \<longrightarrow> polled_by S i = TaskWaker i)"

lemma simulatesD:
  assumes "simulates th X S"
  shows "spdk (ex_proc X) = Some (rt S)" "agrees (tasks S i) (ex_task X i) (ex_result X i)"
    and "tasks S i = Some f \<Longrightarrow> polled_by S i = TaskWaker i"
  using assms by (simp_all add: simulates_def)

context io_protocol
begin

section \<open>The driver's turn\<close>

text \<open>What the tasks need of the driver: a turn leaves them alone and brings each closer to its result.\<close>

definition drives ::
  "('c \<Rightarrow> chan \<Rightarrow> io_result chan_view) \<Rightarrow> ('w \<Rightarrow> (ptr \<times> 'st) option \<times> 'w) \<Rightarrow> ('w \<Rightarrow> ptr set) \<Rightarrow> ('w \<Rightarrow> ptr \<Rightarrow> nat) \<Rightarrow>
     (nat \<Rightarrow> 'q) \<Rightarrow> ptr \<Rightarrow> (('c, 'w) exec \<Rightarrow> ('c, 'w) exec option) \<Rightarrow> bool" where
  "drives view fetch pending due job th driver \<longleftrightarrow> (\<forall>X S.
     io_reachable os resume submit callback pending job S \<longrightarrow> simulates th X S \<longrightarrow>
     (\<exists>Y T. driver X = Some Y \<and> io_reachable os resume submit callback pending job T \<and> simulates th Y T \<and>
        ex_result Y = ex_result X \<and> tasks T = tasks S \<and> closes_boxed view S T \<and>
        (\<forall>i m. awaits fetch pending due S i m \<longrightarrow> awaits fetch pending due T i (m - 1))))"

lemma pending_finite:
  assumes "oneshot_spec os view" "submit_contract submit release pending"
    and "io_reachable os resume submit callback pending job S"
  shows "finite (pending (dev (rt S)))"
proof -
  from reachable_inv [OF assms] have "finite (dom (cells (sender_boxes (rt S))))"
    "pending (dev (rt S)) \<subseteq> dom (cells (sender_boxes (rt S)))"
    by (auto simp: sys_inv_def io_inv_def boxes_inv_def)
  then show ?thesis by (rule finite_subset [rotated])
qed

text \<open>The poller polls until there is no more work, which ends as the requests in flight run out.\<close>

lemma poller_loop_ends:
  assumes os: "oneshot_spec os view" and con: "submit_contract submit release pending"
    and dev: "device_contract fetch release pending due" and k: "k \<noteq> 0"
    and api: "polls_device api th fetch callback k"
    and "io_reachable os resume submit callback pending job S" "spdk s = Some (rt S)"
  shows "\<exists>T s'. poller_loop api (CurrentThread th) s = Some (True, PollerYield (CurrentThread th) True, s') \<and>
     spdk s' = Some (rt T) \<and> io_reachable os resume submit callback pending job T \<and> tasks T = tasks S \<and>
     polled_by T = polled_by S \<and> closes_boxed view S T \<and>
     (\<forall>i m. awaits fetch pending due S i m \<longrightarrow> awaits fetch pending due T i (m - 1))"
  using assms(6-)
proof (induction "card (pending (dev (rt S)))" arbitrary: S s rule: less_induct)
  case less
  from deliver_awaits [OF os con dev less.prems(1), of k] k obtain T where
    T: "io_reachable os resume submit callback pending job T" "deliver fetch callback k (rt S) = Some (rt T)"
    "tasks T = tasks S" "polled_by T = polled_by S" "closes_boxed view S T"
    "fst (fetch (dev (rt S))) \<noteq> None \<Longrightarrow> pending (dev (rt T)) \<subset> pending (dev (rt S))"
    "\<And>i m. awaits fetch pending due S i m \<Longrightarrow> awaits fetch pending due T i (m - 1)" by fastforce
  from api obtain work where work: "spdk_thread_poll api th 0 0 (Some (rt S)) = (work, Some (rt T))"
    "work \<noteq> 0 \<Longrightarrow> fst (fetch (dev (rt S))) \<noteq> None" unfolding polls_device_def T(2) [symmetric] by blast
  let ?s = "s\<lparr>spdk := Some (rt T)\<rparr>"
  have poll: "current_poll api (CurrentThread th) s = (work, ?s)"
    using work(1) less.prems(2) by (simp add: current_poll_def call_def)
  show ?case
  proof (cases "work = 0")
    case True
    with poll have "poller_loop api (CurrentThread th) s = Some (True, PollerYield (CurrentThread th) True, ?s)"
      by (subst poller_loop.simps) (simp add: yield_poll_def yield_now_def)
    with T show ?thesis by (intro exI [of _ T] exI [of _ ?s]) simp
  next
    case False
    with poll have loop: "poller_loop api (CurrentThread th) s = poller_loop api (CurrentThread th) ?s"
      by (subst poller_loop.simps) simp
    have "card (pending (dev (rt T))) < card (pending (dev (rt S)))"
      using psubset_card_mono [OF pending_finite [OF os con less.prems(1)] T(6) [OF work(2) [OF False]]] .
    moreover have "spdk ?s = Some (rt T)" by simp
    ultimately obtain U s' where
      U: "poller_loop api (CurrentThread th) ?s = Some (True, PollerYield (CurrentThread th) True, s')"
      "spdk s' = Some (rt U)" "io_reachable os resume submit callback pending job U" "tasks U = tasks T"
      "polled_by U = polled_by T" "closes_boxed view T U"
      "\<And>i m. awaits fetch pending due T i m \<Longrightarrow> awaits fetch pending due U i (m - 1)"
      using less.hyps [OF _ T(1), of ?s] by blast
    have "awaits fetch pending due U i (m - 1)" if "awaits fetch pending due S i m" for i m
      using U(7) [OF T(7) [OF that]] unfolding awaits_def by fastforce
    with U(1-5) T(3,4) closes_boxed_trans [OF T(5) U(6)] loop show ?thesis by (intro exI [of _ U] exI [of _ s']) simp
  qed
qed

lemma poller_drives:
  assumes "oneshot_spec os view" "submit_contract submit release pending"
    and "device_contract fetch release pending due" "k \<noteq> 0" "polls_device api th fetch callback k"
  shows "drives view fetch pending due job th (poller_turn api)"
  unfolding drives_def
proof (intro allI impI)
  fix X and S :: "('c, 'w, 'st) io_system"
  assume S: "io_reachable os resume submit callback pending job S" and sim: "simulates th X S"
  from sim have rt: "spdk (ex_proc X) = Some (rt S)" by (simp add: simulates_def)
  from poller_loop_ends [OF assms S rt] obtain T s' where
    T: "poller_loop api (CurrentThread th) (ex_proc X) = Some (True, PollerYield (CurrentThread th) True, s')"
    "spdk s' = Some (rt T)" "io_reachable os resume submit callback pending job T" "tasks T = tasks S"
    "polled_by T = polled_by S" "closes_boxed view S T" "\<forall>i m. awaits fetch pending due S i m \<longrightarrow> awaits fetch pending due T i (m - 1)" by blast
  let ?Y = "X\<lparr>ex_poller := PollerYield (CurrentThread th) True, ex_proc := s'\<rparr>"
  have cur: "get_current api s = Some (CurrentThread th)" for s
    using assms(5) by (simp add: get_current_def polls_device_def)
  from sim T(1) have "spdk_poller api (ex_poller X) (ex_proc X) =
      Some (Returned (Pending, True, PollerYield (CurrentThread th) True, s'))"
    by (auto simp: simulates_def spdk_poller_def cur yield_poll_def)
  then have "poller_turn api X = Some ?Y" by (simp add: poller_turn_def)
  moreover have "simulates th ?Y T" using sim T(2,4,5) by (simp add: simulates_def)
  ultimately show "\<exists>Y T. poller_turn api X = Some Y \<and> io_reachable os resume submit callback pending job T \<and>
      simulates th Y T \<and> ex_result Y = ex_result X \<and> tasks T = tasks S \<and> closes_boxed view S T \<and>
      (\<forall>i m. awaits fetch pending due S i m \<longrightarrow> awaits fetch pending due T i (m - 1))"
    using T(3,4,6,7) by (intro exI [of _ ?Y] exI [of _ T]) simp
qed

text \<open>The task that polls a queue pair delivers what the device has completed, once a turn.\<close>

lemma qpair_drives:
  assumes os: "oneshot_spec os view" and con: "submit_contract submit release pending"
    and dev: "device_contract fetch release pending due" and k: "k \<noteq> 0"
    and api: "\<forall>s. snd (spdk_nvme_qpair_process_completions papi (qpair_ptr q) 0 (Some s)) = deliver fetch callback k s"
  shows "drives view fetch pending due job th (qpair_turn papi q)"
  unfolding drives_def
proof (intro allI impI)
  fix X and S :: "('c, 'w, 'st) io_system"
  assume S: "io_reachable os resume submit callback pending job S" and sim: "simulates th X S"
  from deliver_awaits [OF os con dev S, of k] k obtain T where
    T: "io_reachable os resume submit callback pending job T" "deliver fetch callback k (rt S) = Some (rt T)"
    "tasks T = tasks S" "polled_by T = polled_by S" "closes_boxed view S T"
    "\<forall>i m. awaits fetch pending due S i m \<longrightarrow> awaits fetch pending due T i (m - 1)" by auto
  let ?Y = "X\<lparr>ex_proc := (ex_proc X)\<lparr>spdk := Some (rt T)\<rparr>\<rparr>"
  from T(2) api obtain n where
    "spdk_nvme_qpair_process_completions papi (qpair_ptr q) 0 (Some (rt S)) = (n, Some (rt T))"
    by (metis prod.collapse)
  with sim have "qpair_turn papi q X = Some ?Y"
    by (simp add: qpair_turn_def simulates_def call_def qpair_process_completions_def)
  moreover have "simulates th ?Y T" using sim T(3,4) by (simp add: simulates_def)
  ultimately show "\<exists>Y T. qpair_turn papi q X = Some Y \<and> io_reachable os resume submit callback pending job T \<and>
      simulates th Y T \<and> ex_result Y = ex_result X \<and> tasks T = tasks S \<and> closes_boxed view S T \<and>
      (\<forall>i m. awaits fetch pending due S i m \<longrightarrow> awaits fetch pending due T i (m - 1))"
    using T(1,3,5,6) by (intro exI [of _ ?Y] exI [of _ T]) simp
qed

section \<open>A task's turn\<close>

definition result_of ::
  "('w \<Rightarrow> (ptr \<times> 'st) option \<times> 'w) \<Rightarrow> 'q \<Rightarrow> io_result \<Rightarrow> bool" where
  "result_of fetch q r \<longleftrightarrow> (\<exists>rc p w w'. submit q p w = ((rc, None), w') \<and> rc \<noteq> 0 \<and> r = Inl (err_of rc)) \<or>
     (\<exists>st. (reported fetch st \<or> (\<exists>p w w'. submit q p w = ((0, Some st), w'))) \<and> r = decode st)"

lemma result_ofI:
  "submit q p w = ((rc, None), w') \<Longrightarrow> rc \<noteq> 0 \<Longrightarrow> result_of fetch q (Inl (err_of rc))"
  "reported fetch st \<Longrightarrow> result_of fetch q (decode st)"
  "submit q p w = ((0, Some st), w') \<Longrightarrow> result_of fetch q (decode st)"
  unfolding result_of_def by blast+

lemma started:
  assumes os: "oneshot_spec os view" and con: "submit_contract submit release pending" and ok: "boxes_ok (sender_boxes s)"
  obtains x f s' where "resume q Unstarted s = Some (x, f, s')" "f \<noteq> Unstarted" "f = Finished \<longleftrightarrow> x \<noteq> Pending"
    "cells (sender_boxes s) \<subseteq>\<^sub>m cells (sender_boxes s')" "pending (dev s) \<subseteq> pending (dev s')"
    "view (chans s) (fst (submitted os (submit q) s)) = Unmade"
    "(\<exists>r. x = Ready r \<and> result_of fetch q r) \<or>
      (\<exists>p ch. submitted os (submit q) s = (ch, 0, None) \<and> x = Pending \<and> f = Awaiting (CompletionReceiver ch) \<and>
         p \<in> pending (dev s') \<and> cells (sender_boxes s') p = Some ch)"
proof -
  have call: "\<exists>p w w'. submit q p w = ((rc, now), w')" if "submitted os (submit q) s = (ch, rc, now)" for ch rc now
    using that by (auto simp: submitted_def split: prod.splits)
  have insert: "m \<subseteq>\<^sub>m m(p \<mapsto> v)" if "m p = None" for m :: "ptr \<rightharpoonup> chan" and p v
    using that by (auto simp: map_le_def)
  show thesis
  proof (cases rule: first_poll [OF os con ok, of q])
    case (1 p ch s')
    then show thesis by (intro that [of Pending "Awaiting (CompletionReceiver ch)" s']) (auto simp: insert)
  next
    case (2 p ch st s')
    with call have "result_of fetch q (decode st)" by (blast intro: result_ofI)
    with 2 show thesis by (intro that [of "Ready (decode st)" Finished s']) auto
  next
    case (3 p ch rc s')
    with call have "result_of fetch q (Inl (err_of rc))" by (blast intro: result_ofI)
    with 3 show thesis by (intro that [of "Ready (Inl (err_of rc))" Finished s']) (auto simp: insert)
  qed
qed

lemma first_poll_dev:
  assumes "resume q Unstarted s = Some (x, f', s')"
  obtains p rc now w where "submit q p (dev s) = ((rc, now), w)"
    "dev s' = (case now of None \<Rightarrow> w | Some st \<Rightarrow> release st w)"
proof -
  obtain ch c where ch: "os_channel os (chans s) = (ch, c)" by fastforce
  obtain p h where p: "box_into_raw ch (sender_boxes s) = (p, h)" by fastforce
  obtain rc now w where sub: "submit q p (dev s) = ((rc, now), w)" by (metis surj_pair)
  with assms ch p have "dev s' = (case now of None \<Rightarrow> w | Some st \<Rightarrow> release st w)"
    by (auto simp: resume_first submit_then_await_def completion_def sender_into_raw_def submit_call_def
        callback_eq complete_boxed_def await_rx_def split: option.splits prod.splits if_splits poll.splits)
  with sub show thesis using that by blast
qed

lemma reachable_invD:
  assumes "oneshot_spec os view" "submit_contract submit release pending"
    and "io_reachable os resume submit callback pending job S"
  shows "boxes_ok (sender_boxes (rt S))"
    and "view (chans (rt S)) ch = Unmade \<Longrightarrow> told S ch = None"
    and "cells (sender_boxes (rt S)) p = Some ch \<Longrightarrow> told S ch = None"
  using reachable_inv [OF assms]
  by (auto simp: sys_inv_def io_inv_def boxes_inv_def fresh_inv_def)

text \<open>A submission keeps the other requests at the device, and does not put them off.\<close>

lemma first_keeps_awaits:
  assumes dev: "device_contract fetch release pending due" and pat: "submit_patient submit pending due"
    and res: "resume q Unstarted (rt S) = Some (x, f, rt T)" and aw: "awaits fetch pending due S i m"
    and keep: "cells (sender_boxes (rt S)) \<subseteq>\<^sub>m cells (sender_boxes (rt T))"
      "pending (dev (rt S)) \<subseteq> pending (dev (rt T))"
    and same: "tasks T i = tasks S i" "\<And>ch st. told S ch = Some st \<Longrightarrow> told T ch = Some st"
  shows "awaits fetch pending due T i m"
  using aw
proof (rule awaits_step)
  fix p ch
  assume p: "p \<in> pending (dev (rt S))" "cells (sender_boxes (rt S)) p = Some ch" "due (dev (rt S)) p < m"
  from first_poll_dev [OF res] obtain c rc now w where
    w: "submit q c (dev (rt S)) = ((rc, now), w)"
      "dev (rt T) = (case now of None \<Rightarrow> w | Some st \<Rightarrow> release st w)" .
  with pat p(1) have "due w p \<le> due (dev (rt S)) p" unfolding submit_patient_def by (metis snd_conv)
  then have "due (dev (rt T)) p \<le> due (dev (rt S)) p"
    using w(2) device_contract_release [OF dev] by (simp split: option.splits)
  moreover have "cells (sender_boxes (rt T)) p = Some ch"
    using keep(1) p(2) by (force simp: map_le_def)
  ultimately show "(\<exists>st. told T ch = Some st \<and> reported fetch st) \<or> p \<in> pending (dev (rt T)) \<and>
      cells (sender_boxes (rt T)) p = Some ch \<and> due (dev (rt T)) p < m" using p keep(2) by auto
qed (use same in simp_all)

text \<open>A first turn starts the request.\<close>

lemma first_turn:
  assumes os: "oneshot_spec os view" and con: "submit_contract submit release pending"
    and dev: "device_contract fetch release pending due" and pat: "submit_patient submit pending due"
    and S: "io_reachable os resume submit callback pending job S" and j: "tasks S j = None"
    and sim: "simulates th X S"
  obtains Y T where "task_turn resume job j X = Some Y" "io_reachable os resume submit callback pending job T"
    "simulates th Y T" "\<forall>i. i \<noteq> j \<longrightarrow> ex_result Y i = ex_result X i \<and> tasks T i = tasks S i \<and>
      (\<forall>m. awaits fetch pending due S i m \<longrightarrow> awaits fetch pending due T i m)"
    "(\<exists>r. ex_result Y j = Some r \<and> result_of fetch (job j) r) \<or> (\<exists>m. awaits fetch pending due T j m)"
proof -
  let ?S = "entered (TaskWaker j) (S\<lparr>tasks := (tasks S)(j \<mapsto> Unstarted)\<rparr>)"
    and ?s = "(rt S)\<lparr>poll_cx := TaskWaker j\<rparr>"
  let ?sub = "submitted os (submit (job j)) ?s"
  from sim j have X: "spdk (ex_proc X) = Some (rt S)" "ex_task X j = Unstarted" "ex_result X j = None"
    using simulatesD(2) [OF sim, of j] by (auto dest: simulatesD(1))
  from io_reachable.step [OF io_reachable.step [OF S io_step.spawn [OF j]] io_step.enter]
  have S': "io_reachable os resume submit callback pending job ?S" .
  note inv = reachable_invD [OF os con S]
  from inv(1) have "boxes_ok (sender_boxes ?s)" by simp
  from started [OF os con this, of "job j" fetch] obtain q f s where
    res: "resume (job j) Unstarted ?s = Some (q, f, s)" and f: "f \<noteq> Unstarted" "f = Finished \<longleftrightarrow> q \<noteq> Pending"
    and keep: "cells (sender_boxes ?s) \<subseteq>\<^sub>m cells (sender_boxes s)" "pending (dev ?s) \<subseteq> pending (dev s)"
    and sub: "view (chans ?s) (fst ?sub) = Unmade"
    and out: "(\<exists>r. q = Ready r \<and> result_of fetch (job j) r) \<or>
      (\<exists>p ch. ?sub = (ch, 0, None) \<and> q = Pending \<and> f = Awaiting (CompletionReceiver ch) \<and>
         p \<in> pending (dev s) \<and> cells (sender_boxes s) p = Some ch)" .
  let ?T = "record_poll j Unstarted q f s ?sub ?S"
  let ?Y = "X\<lparr>ex_task := (ex_task X)(j := f),
    ex_result := (case q of Ready r \<Rightarrow> (ex_result X)(j \<mapsto> r) | Pending \<Rightarrow> ex_result X),
    ex_proc := (ex_proc X)\<lparr>spdk := Some s\<rparr>\<rparr>"
  have T: "rt ?T = s" "tasks ?T = (tasks S)(j \<mapsto> f)"
    "\<And>ch st. told S ch = Some st \<Longrightarrow> told ?T ch = Some st" "polled_by ?T = (polled_by S)(j := TaskWaker j)"
    using inv(2) [of "fst ?sub"] sub by (auto simp: record_poll_def Let_def split: prod.splits option.splits)
  have "task_turn resume job j X = Some ?Y" using X res by (simp add: task_turn_def)
  moreover have "io_reachable os resume submit callback pending job ?T"
    by (rule io_reachable.step [OF S']) (use io_step.poll [of ?S j Unstarted resume job q] res in simp)
  moreover have "simulates th ?Y ?T"
    using sim f X(3) unfolding simulates_def T by (auto split: poll.splits)
  moreover have "awaits fetch pending due ?T i m" if "i \<noteq> j" "awaits fetch pending due S i m" for i m
    by (rule first_keeps_awaits [OF dev pat _ awaits_entered [OF that(2), where cx = "TaskWaker j"], where q = "job j"])
      (use that(1) res keep T in simp_all)
  moreover from out have "(\<exists>r. ex_result ?Y j = Some r \<and> result_of fetch (job j) r) \<or>
      (\<exists>m. awaits fetch pending due ?T j m)"
  proof
    assume "\<exists>p ch. ?sub = (ch, 0, None) \<and> q = Pending \<and> f = Awaiting (CompletionReceiver ch) \<and>
      p \<in> pending (dev s) \<and> cells (sender_boxes s) p = Some ch"
    then obtain p ch where "f = Awaiting (CompletionReceiver ch)" "p \<in> pending (dev s)"
      "cells (sender_boxes s) p = Some ch" by blast
    then have "awaits fetch pending due ?T j (Suc (due (dev s) p))" unfolding awaits_def T by auto
    then show ?thesis by blast
  qed auto
  ultimately show thesis using T(2) by (intro that [of ?Y ?T]) (auto split: poll.splits)
qed

text \<open>A later turn takes the result, once there is one.\<close>

lemma later_turn:
  assumes os: "oneshot_spec os view" and con: "submit_contract submit release pending"
    and S: "io_reachable os resume submit callback pending job S" and j: "tasks S j = Some (Awaiting r)"
    and sim: "simulates th X S"
  obtains Y T where "task_turn resume job j X = Some Y" "io_reachable os resume submit callback pending job T"
    "simulates th Y T" "\<forall>i. i \<noteq> j \<longrightarrow> ex_result Y i = ex_result X i \<and> tasks T i = tasks S i \<and>
      (\<forall>m. awaits fetch pending due S i m \<longrightarrow> awaits fetch pending due T i m)"
    "\<forall>m. awaits fetch pending due S j m \<longrightarrow>
      (\<exists>x. ex_result Y j = Some x \<and> result_of fetch (job j) x) \<or> m \<noteq> 0 \<and> awaits fetch pending due T j m"
proof -
  from sim j have X: "spdk (ex_proc X) = Some (rt S)" "ex_task X j = Awaiting r" "ex_result X j = None"
    using simulatesD(2) [OF sim, of j] by (auto dest: simulatesD(1))
  let ?S = "entered (TaskWaker j) S" and ?s = "(rt S)\<lparr>poll_cx := TaskWaker j\<rparr>"
  have S': "io_reachable os resume submit callback pending job ?S"
    by (rule io_reachable.step [OF S io_step.enter])
  note inv = reachable_inv [OF os con S']
  have j': "tasks ?S j = Some (Awaiting r)" using j by simp
  let ?sub = "submitted os (submit (job j)) ?s"
  from os inv j' obtain q f c where res': "resume (job j) (Awaiting r) (rt ?S) = Some (q, f, (rt ?S)\<lparr>chans := c\<rparr>)"
    and out': "told ?S (rx r) = None \<and> q = Pending \<and> f = Awaiting r \<or>
      (\<exists>st. told ?S (rx r) = Some st \<and> q = Ready (decode st) \<and> f = Finished)"
    by (cases rule: later_poll [where q = "job j"]) blast+
  note res = res' [unfolded entered_fields] and out = out' [unfolded entered_fields]
  let ?T = "record_poll j (Awaiting r) q f (?s\<lparr>chans := c\<rparr>) ?sub ?S"
  let ?Y = "X\<lparr>ex_task := (ex_task X)(j := f),
    ex_result := (case q of Ready r \<Rightarrow> (ex_result X)(j \<mapsto> r) | Pending \<Rightarrow> ex_result X),
    ex_proc := (ex_proc X)\<lparr>spdk := Some (?s\<lparr>chans := c\<rparr>)\<rparr>\<rparr>"
  have T: "rt ?T = ?s\<lparr>chans := c\<rparr>" "tasks ?T = (tasks S)(j \<mapsto> f)" "told ?T = told S"
    "polled_by ?T = (polled_by S)(j := TaskWaker j)"
    by (simp_all add: record_poll_def)
  have "task_turn resume job j X = Some ?Y" using X res by (simp add: task_turn_def)
  moreover have "io_reachable os resume submit callback pending job ?T"
    by (rule io_reachable.step [OF S']) (use io_step.poll [of ?S j "Awaiting r" resume job q] j res in simp)
  moreover have "simulates th ?Y ?T"
    using sim out X(3) unfolding simulates_def T by (auto split: poll.splits)
  moreover have same: "awaits fetch pending due ?T i m" if "tasks ?T i = tasks S i" "awaits fetch pending due S i m" for i m
    using that(2) by (rule awaits_step) (use that(1) T in simp_all)
  moreover have "(\<exists>x. ex_result ?Y j = Some x \<and> result_of fetch (job j) x) \<or> m \<noteq> 0 \<and> awaits fetch pending due ?T j m"
    if a: "awaits fetch pending due S j m" for m
    using out
  proof
    assume w: "told S (rx r) = None \<and> q = Pending \<and> f = Awaiting r"
    with j T(2) have "tasks ?T j = tasks S j" by simp
    from same [OF this a] have "awaits fetch pending due ?T j m" .
    moreover from a w j have "m \<noteq> 0" by (auto simp: awaits_def)
    ultimately show ?thesis by blast
  next
    assume "\<exists>st. told S (rx r) = Some st \<and> q = Ready (decode st) \<and> f = Finished"
    then obtain st where st: "told S (rx r) = Some st" "q = Ready (decode st)" by blast
    with a j reachable_invD(3) [OF os con S] have "reported fetch st" by (fastforce simp: awaits_def)
    with st(2) show ?thesis by (auto intro: result_ofI)
  qed
  ultimately show thesis using T(2) by (intro that [of ?Y ?T]) (auto split: poll.splits)
qed

section \<open>Fair schedules\<close>

text \<open>
  What holds of a task between two turns: it has not started, or it has its result, or it awaits. The
  number bounds the questions the device must be asked before the task can take its result.
\<close>

definition standing ::
  "('w \<Rightarrow> (ptr \<times> 'st) option \<times> 'w) \<Rightarrow> ('w \<Rightarrow> ptr set) \<Rightarrow> ('w \<Rightarrow> ptr \<Rightarrow> nat) \<Rightarrow> (nat \<Rightarrow> 'q) \<Rightarrow> nat \<Rightarrow> nat \<Rightarrow>
     ('c, 'w) exec \<Rightarrow> ('c, 'w, 'st) io_system \<Rightarrow> bool" where
  "standing fetch pending due job i m X S \<longleftrightarrow>
     (\<exists>r. ex_result X i = Some r \<and> result_of fetch (job i) r) \<or> awaits fetch pending due S i m"

text \<open>
  What a turn does to the tasks: one that has not started starts with its own turn only; the others keep
  their standing; the poller's turn brings each closer; a task that was told takes its result.
\<close>

definition advances ::
  "('w \<Rightarrow> (ptr \<times> 'st) option \<times> 'w) \<Rightarrow> ('w \<Rightarrow> ptr set) \<Rightarrow> ('w \<Rightarrow> ptr \<Rightarrow> nat) \<Rightarrow> (nat \<Rightarrow> 'q) \<Rightarrow> turn \<Rightarrow>
     ('c, 'w) exec \<Rightarrow> ('c, 'w, 'st) io_system \<Rightarrow> ('c, 'w) exec \<Rightarrow> ('c, 'w, 'st) io_system \<Rightarrow> bool" where
  "advances fetch pending due job t X S Y T \<longleftrightarrow>
     (\<forall>i. tasks S i = None \<longrightarrow>
        (if t = TaskTurn i then \<exists>m. standing fetch pending due job i m Y T else tasks T i = None)) \<and>
     (\<forall>i m. standing fetch pending due job i m X S \<longrightarrow>
        standing fetch pending due job i (m - of_bool (t = DriverTurn)) Y T \<and>
        (t = TaskTurn i \<and> m = 0 \<longrightarrow> (\<exists>r. ex_result Y i = Some r \<and> result_of fetch (job i) r)))"

lemma standing_mono:
  "standing fetch pending due job i m X S \<Longrightarrow> m \<le> n \<Longrightarrow> standing fetch pending due job i n X S"
  unfolding standing_def by (blast intro: awaits_mono)

lemma advancesD:
  assumes "advances fetch pending due job t X S Y T"
  shows "tasks S i = None \<Longrightarrow> t \<noteq> TaskTurn i \<Longrightarrow> tasks T i = None"
    and "tasks S i = None \<Longrightarrow> t = TaskTurn i \<Longrightarrow> \<exists>m. standing fetch pending due job i m Y T"
    and "standing fetch pending due job i m X S \<Longrightarrow> standing fetch pending due job i m Y T"
    and "t = DriverTurn \<Longrightarrow> standing fetch pending due job i m X S \<Longrightarrow>
      standing fetch pending due job i (m - 1) Y T"
    and "t = TaskTurn i \<Longrightarrow> standing fetch pending due job i 0 X S \<Longrightarrow>
      \<exists>r. ex_result Y i = Some r \<and> result_of fetch (job i) r"
  using assms unfolding advances_def by (fastforce dest: standing_mono [where n = m])+

lemma first_advances:
  assumes sim: "simulates th X S" and j: "tasks S j = None"
    and others: "\<forall>i. i \<noteq> j \<longrightarrow> ex_result Y i = ex_result X i \<and> tasks T i = tasks S i \<and>
      (\<forall>m. awaits fetch pending due S i m \<longrightarrow> awaits fetch pending due T i m)"
    and own: "(\<exists>r. ex_result Y j = Some r \<and> result_of fetch (job j) r) \<or> (\<exists>m. awaits fetch pending due T j m)"
  shows "advances fetch pending due job (TaskTurn j) X S Y T"
proof -
  have other: "i \<noteq> j" if "standing fetch pending due job i m X S" for i m
    using that simulatesD(2) [OF sim, of j] j by (auto simp: standing_def awaits_def)
  have "standing fetch pending due job i m Y T" if "standing fetch pending due job i m X S" for i m
    using that other [OF that] others by (auto simp: standing_def)
  moreover have "\<exists>m. standing fetch pending due job j m Y T" using own by (auto simp: standing_def)
  moreover have "\<not> standing fetch pending due job j 0 X S" using other by blast
  ultimately show ?thesis using others by (auto simp: advances_def)
qed

lemma later_advances:
  assumes sim: "simulates th X S" and j: "tasks S j = Some (Awaiting r)"
    and others: "\<forall>i. i \<noteq> j \<longrightarrow> ex_result Y i = ex_result X i \<and> tasks T i = tasks S i \<and>
      (\<forall>m. awaits fetch pending due S i m \<longrightarrow> awaits fetch pending due T i m)"
    and own: "\<forall>m. awaits fetch pending due S j m \<longrightarrow>
      (\<exists>x. ex_result Y j = Some x \<and> result_of fetch (job j) x) \<or> m \<noteq> 0 \<and> awaits fetch pending due T j m"
  shows "advances fetch pending due job (TaskTurn j) X S Y T"
proof -
  from j simulatesD(2) [OF sim, of j] have "ex_result X j = None" by auto
  then have own: "(\<exists>x. ex_result Y j = Some x \<and> result_of fetch (job j) x) \<or> m \<noteq> 0 \<and> awaits fetch pending due T j m"
    if "standing fetch pending due job j m X S" for m
    using that own by (auto simp: standing_def)
  have "standing fetch pending due job i m Y T" if "standing fetch pending due job i m X S" for i m
    using that own others by (cases "i = j") (auto simp: standing_def)
  with others j own [of 0] show ?thesis by (auto simp: advances_def)
qed

lemma turn_progress:
  assumes os: "oneshot_spec os view" and con: "submit_contract submit release pending"
    and dev: "device_contract fetch release pending due" and pat: "submit_patient submit pending due"
    and drv: "drives view fetch pending due job th driver"
    and S: "io_reachable os resume submit callback pending job S" and sim: "simulates th X S"
  obtains Y T where "take_turn driver resume job t X = Some Y"
    "io_reachable os resume submit callback pending job T" "simulates th Y T"
    "advances fetch pending due job t X S Y T"
proof (cases t)
  case DriverTurn
  from drv S sim obtain Y T where
    "driver X = Some Y" "io_reachable os resume submit callback pending job T" "simulates th Y T"
    "ex_result Y = ex_result X" "tasks T = tasks S"
    "\<And>i m. awaits fetch pending due S i m \<Longrightarrow> awaits fetch pending due T i (m - 1)"
    unfolding drives_def by blast
  with DriverTurn show thesis by (intro that [of Y T]) (auto simp: standing_def advances_def)
next
  case (TaskTurn j)
  consider (new) "tasks S j = None" | (waiting) r where "tasks S j = Some (Awaiting r)"
    | (over) r where "tasks S j = Some Finished" "ex_result X j = Some r"
    using simulatesD(2) [OF sim, of j] by (cases "tasks S j"; cases "the (tasks S j)") auto
  then show thesis
  proof cases
    case new
    show thesis
    proof (rule first_turn [OF os con dev pat S new sim])
      fix Y and T :: "('c, 'w, 'st) io_system"
      assume *: "task_turn resume job j X = Some Y" "io_reachable os resume submit callback pending job T"
        "simulates th Y T" "\<forall>i. i \<noteq> j \<longrightarrow> ex_result Y i = ex_result X i \<and> tasks T i = tasks S i \<and>
          (\<forall>m. awaits fetch pending due S i m \<longrightarrow> awaits fetch pending due T i m)"
        "(\<exists>r. ex_result Y j = Some r \<and> result_of fetch (job j) r) \<or> (\<exists>m. awaits fetch pending due T j m)"
      from *(1-3) first_advances [where job = job, OF sim new *(4,5)] TaskTurn show thesis by (intro that [of Y T]) simp_all
    qed
  next
    case (waiting r)
    show thesis
    proof (rule later_turn [OF os con S waiting sim, of fetch due])
      fix Y and T :: "('c, 'w, 'st) io_system"
      assume *: "task_turn resume job j X = Some Y" "io_reachable os resume submit callback pending job T"
        "simulates th Y T" "\<forall>i. i \<noteq> j \<longrightarrow> ex_result Y i = ex_result X i \<and> tasks T i = tasks S i \<and>
          (\<forall>m. awaits fetch pending due S i m \<longrightarrow> awaits fetch pending due T i m)"
        "\<forall>m. awaits fetch pending due S j m \<longrightarrow>
          (\<exists>x. ex_result Y j = Some x \<and> result_of fetch (job j) x) \<or> m \<noteq> 0 \<and> awaits fetch pending due T j m"
      from *(1-3) later_advances [where job = job, OF sim waiting *(4,5)] TaskTurn show thesis by (intro that [of Y T]) simp_all
    qed
  next
    case (over r)
    with S sim TaskTurn show thesis
      by (intro that [of X S]) (auto simp: task_turn_def standing_def awaits_def advances_def)
  qed
qed

lemma exec_safe:
  assumes os: "oneshot_spec os view" and con: "submit_contract submit release pending"
    and dev: "device_contract fetch release pending due" and pat: "submit_patient submit pending due"
    and drv: "drives view fetch pending due job th driver"
    and "boxes_ok (sender_boxes s)" "cells (sender_boxes s) = Map.empty" "pending (dev s) = {}"
  shows "\<exists>X S. exec_run driver resume job sched n (exec_start s) = Some X \<and>
     io_reachable os resume submit callback pending job S \<and> simulates th X S \<and>
     (tasks S i = None \<or> (\<exists>m. standing fetch pending due job i m X S))"
proof (induction n)
  case 0
  have "simulates th (exec_start s) (io_start s)"
    by (simp add: simulates_def exec_start_def io_start_def fresh_process_def)
  moreover have "io_reachable os resume submit callback pending job (io_start s)"
    by (rule io_reachable.start) (rule assms(6-8))+
  ultimately show ?case by (auto simp: io_start_def)
next
  case (Suc n)
  then obtain X S where X: "exec_run driver resume job sched n (exec_start s) = Some X"
    "io_reachable os resume submit callback pending job S" "simulates th X S"
    "tasks S i = None \<or> (\<exists>m. standing fetch pending due job i m X S)" by blast
  from turn_progress [OF os con dev pat drv X(2,3), of "sched n"] obtain Y T where
    Y: "take_turn driver resume job (sched n) X = Some Y" "io_reachable os resume submit callback pending job T"
    "simulates th Y T" "advances fetch pending due job (sched n) X S Y T" .
  from X(4) advancesD(1-3) [OF Y(4), of i] have "tasks T i = None \<or> (\<exists>m. standing fetch pending due job i m Y T)" by blast
  with X(1) Y(1-3) show ?case by auto
qed

lemma exec_advance:
  assumes os: "oneshot_spec os view" and con: "submit_contract submit release pending"
    and dev: "device_contract fetch release pending due" and pat: "submit_patient submit pending due"
    and drv: "drives view fetch pending due job th driver"
    and "exec_run driver resume job sched n X0 = Some X" "io_reachable os resume submit callback pending job S"
    and "simulates th X S" "standing fetch pending due job i m X S"
  shows "\<exists>Y T. exec_run driver resume job sched (n + d) X0 = Some Y \<and>
     io_reachable os resume submit callback pending job T \<and> simulates th Y T \<and>
     standing fetch pending due job i m Y T"
proof (induction d)
  case 0
  with assms(6-) show ?case by auto
next
  case (Suc d)
  then obtain Y T where Y: "exec_run driver resume job sched (n + d) X0 = Some Y"
    "io_reachable os resume submit callback pending job T" "simulates th Y T"
    "standing fetch pending due job i m Y T" by blast
  from turn_progress [OF os con dev pat drv Y(2,3), of "sched (n + d)"] obtain Z U where
    "take_turn driver resume job (sched (n + d)) Y = Some Z" "io_reachable os resume submit callback pending job U"
    "simulates th Z U" "advances fetch pending due job (sched (n + d)) Y T Z U" .
  with Y(1) advancesD(3) [OF this(4) Y(4)] show ?case by auto
qed

lemma standing_finishes:
  assumes os: "oneshot_spec os view" and con: "submit_contract submit release pending"
    and dev: "device_contract fetch release pending due" and pat: "submit_patient submit pending due"
    and drv: "drives view fetch pending due job th driver"
    and fair: "\<And>n. \<exists>m \<ge> n. sched m = DriverTurn" "\<And>n. \<exists>m \<ge> n. sched m = TaskTurn i"
    and "exec_run driver resume job sched n X0 = Some X" "io_reachable os resume submit callback pending job S"
    and "simulates th X S" "standing fetch pending due job i m X S"
  shows "\<exists>n Y r. exec_run driver resume job sched n X0 = Some Y \<and> ex_result Y i = Some r \<and>
     result_of fetch (job i) r"
  using assms(8-)
proof (induction m arbitrary: n X S)
  case 0
  from fair(2) [of n] obtain d where d: "sched (n + d) = TaskTurn i" by (auto simp: le_iff_add)
  from exec_advance [OF os con dev pat drv 0, of d] obtain Y T where
    Y: "exec_run driver resume job sched (n + d) X0 = Some Y" "io_reachable os resume submit callback pending job T"
    "simulates th Y T" "standing fetch pending due job i 0 Y T" by blast
  from turn_progress [OF os con dev pat drv Y(2,3), of "sched (n + d)"] obtain Z U where
    "take_turn driver resume job (sched (n + d)) Y = Some Z" "io_reachable os resume submit callback pending job U"
    "simulates th Z U" "advances fetch pending due job (sched (n + d)) Y T Z U" .
  with Y(1) advancesD(5) [OF this(4) d Y(4)] show ?case by (intro exI [of _ "Suc (n + d)"]) auto
next
  case (Suc m)
  from fair(1) [of n] obtain d where d: "sched (n + d) = DriverTurn" by (auto simp: le_iff_add)
  from exec_advance [OF os con dev pat drv Suc.prems, of d] obtain Y T where
    Y: "exec_run driver resume job sched (n + d) X0 = Some Y" "io_reachable os resume submit callback pending job T"
    "simulates th Y T" "standing fetch pending due job i (Suc m) Y T" by blast
  from turn_progress [OF os con dev pat drv Y(2,3), of "sched (n + d)"] obtain Z U where
    Z: "take_turn driver resume job (sched (n + d)) Y = Some Z" "io_reachable os resume submit callback pending job U"
    "simulates th Z U" "advances fetch pending due job (sched (n + d)) Y T Z U" .
  from Y(1) Z(1) have "exec_run driver resume job sched (Suc (n + d)) X0 = Some Z" by simp
  from Suc.IH [OF this Z(2,3)] advancesD(4) [OF Z(4) d Y(4)] show ?case by simp
qed

lemma exec_finishes:
  assumes os: "oneshot_spec os view" and con: "submit_contract submit release pending"
    and dev: "device_contract fetch release pending due" and pat: "submit_patient submit pending due"
    and drv: "drives view fetch pending due job th driver"
    and s: "boxes_ok (sender_boxes s)" "cells (sender_boxes s) = Map.empty" "pending (dev s) = {}"
    and fair: "\<And>n. \<exists>m \<ge> n. sched m = DriverTurn" "\<And>n. \<exists>m \<ge> n. sched m = TaskTurn i"
  shows "\<exists>n X r. exec_run driver resume job sched n (exec_start s) = Some X \<and> ex_result X i = Some r \<and>
     result_of fetch (job i) r"
proof -
  from fair(2) [of 0] obtain n where n: "sched n = TaskTurn i" by blast
  from exec_safe [OF os con dev pat drv s, of sched n i] obtain X S where
    X: "exec_run driver resume job sched n (exec_start s) = Some X"
    "io_reachable os resume submit callback pending job S" "simulates th X S"
    "tasks S i = None \<or> (\<exists>m. standing fetch pending due job i m X S)" by blast
  from turn_progress [OF os con dev pat drv X(2,3), of "sched n"] obtain Y T where
    Y: "take_turn driver resume job (sched n) X = Some Y" "io_reachable os resume submit callback pending job T"
    "simulates th Y T" "advances fetch pending due job (sched n) X S Y T" .
  from X(1) Y(1) have "exec_run driver resume job sched (Suc n) (exec_start s) = Some Y" by simp
  moreover from X(4) advancesD(2,3) [OF Y(4)] n have "\<exists>m. standing fetch pending due job i m Y T" by blast
  ultimately show ?thesis using Y(2,3) standing_finishes [OF os con dev pat drv fair] by blast
qed

end

section \<open>Block devices\<close>

text \<open>A thread of SPDK over a device: one poll delivers at most \<open>k\<close> completions.\<close>

definition device_thread ::
  "ptr \<Rightarrow> ('w \<Rightarrow> (ptr \<times> 'st) option \<times> 'w) \<Rightarrow>
   ('st \<Rightarrow> ptr \<Rightarrow> ('c, 'w) runtime \<Rightarrow> ('c, 'w) runtime option) \<Rightarrow> nat \<Rightarrow>
     ('c, 'w) runtime option thread_api" where
  "device_thread th fetch callback k = \<lparr>spdk_thread_lib_init_ext = (\<lambda>_ w. (0, w)),
     spdk_thread_lib_init = (\<lambda>w. (0, w)), spdk_thread_lib_fini = (\<lambda>w. w),
     spdk_thread_create = (\<lambda>_ w. (th, w)), spdk_set_thread = (\<lambda>_ w. w), spdk_get_thread = (\<lambda>_. th),
     spdk_thread_get_app_thread = (\<lambda>_. th),
     spdk_thread_poll = (\<lambda>_ _ _ w. case w of
         None \<Rightarrow> (0, None)
       | Some s \<Rightarrow> (if fst (fetch (dev s)) = None then 0 else 1, deliver fetch callback k s)),
     spdk_thread_has_active_pollers = (\<lambda>_ _. 0), spdk_thread_has_pollers = (\<lambda>_ _. False),
     spdk_thread_is_idle = (\<lambda>_ _. True), spdk_thread_is_running = (\<lambda>_ _. True),
     spdk_thread_is_exited = (\<lambda>_ w. True), spdk_thread_get_name = (\<lambda>_ _. Some ''worker''),
     spdk_thread_get_id = (\<lambda>_ _. 1), spdk_thread_get_count = (\<lambda>w. 1),
     spdk_thread_exit = (\<lambda>_ w. w), spdk_thread_destroy = (\<lambda>_ w. w),
     spdk_thread_send_msg = (\<lambda>_ p w. (0, w))\<rparr>"

lemma device_thread_polls:
  "th \<noteq> null \<Longrightarrow> polls_device (device_thread th fetch callback k) th fetch callback k"
  by (simp add: polls_device_def device_thread_def)

text \<open>
  A single-threaded executor that runs \<open>spdk_poller\<close> beside any number of reads and writes of block
  devices drives every one of them to its result, in whatever order it runs the poller and the tasks,
  as long as it comes back to both: no turn panics, is undefined or never ends, and the result of a
  task is the code of its refused submission, or Ok or an I/O error as the device reported.
\<close>

theorem executor_finishes:
  assumes "oneshot_spec os view" "submit_contract (bdev_submit api) (bdev_release api) pending"
    and "device_contract fetch (bdev_release api) pending due" "submit_patient (bdev_submit api) pending due"
    and "k \<noteq> 0" "polls_device tapi th fetch (bdev_io_completion_cb os api) k"
    and "boxes_ok (sender_boxes s)" "cells (sender_boxes s) = Map.empty" "pending (dev s) = {}"
    and "\<And>n. \<exists>m \<ge> n. sched m = DriverTurn" "\<And>n. \<exists>m \<ge> n. sched m = TaskTurn i"
  shows "(\<forall>n. exec_run (poller_turn tapi) (bdev_resume os api) job sched n (exec_start s) \<noteq> None) \<and>
     (\<exists>n X r. exec_run (poller_turn tapi) (bdev_resume os api) job sched n (exec_start s) = Some X \<and> ex_result X i = Some r \<and>
       ((\<exists>rc p w w'. bdev_submit api (job i) p w = ((rc, None), w') \<and> rc \<noteq> 0 \<and> r = Inl (Os rc)) \<or>
        (\<exists>io ok. (reported fetch (io, ok) \<or> (\<exists>p w w'. bdev_submit api (job i) p w = ((0, Some (io, ok)), w'))) \<and>
           r = (if ok then Inr () else Inl IoError))))"
proof (intro conjI allI)
  note drv = bdev_io.poller_drives [where job = job, OF assms(1,2,3,5,6)]
  show "exec_run (poller_turn tapi) (bdev_resume os api) job sched n (exec_start s) \<noteq> None" for n
    using bdev_io.exec_safe [OF assms(1,2,3,4) drv assms(7-9), of sched n i] by auto
  from bdev_io.exec_finishes [OF assms(1,2,3,4) drv assms(7-11)] obtain n X r where
    "exec_run (poller_turn tapi) (bdev_resume os api) job sched n (exec_start s) = Some X" "ex_result X i = Some r"
    "bdev_io.result_of api fetch (job i) r" by blast
  then show "\<exists>n X r. exec_run (poller_turn tapi) (bdev_resume os api) job sched n (exec_start s) = Some X \<and> ex_result X i = Some r \<and>
       ((\<exists>rc p w w'. bdev_submit api (job i) p w = ((rc, None), w') \<and> rc \<noteq> 0 \<and> r = Inl (Os rc)) \<or>
        (\<exists>io ok. (reported fetch (io, ok) \<or> (\<exists>p w w'. bdev_submit api (job i) p w = ((0, Some (io, ok)), w'))) \<and>
           r = (if ok then Inr () else Inl IoError)))"
    unfolding bdev_io.result_of_def bdev_status by (intro exI conjI)
qed

text \<open>The device of \<open>Blocking\<close> that serves a queue: a request is due when those before it are done.\<close>

definition queue_due :: "ptr list \<Rightarrow> ptr \<Rightarrow> nat" where
  "queue_due w p = length (takeWhile (\<lambda>q. q \<noteq> p) w)"

lemma queue_due_Cons: "q \<noteq> p \<Longrightarrow> queue_due (removeAll p w) q < queue_due (p # w) q"
proof -
  assume "q \<noteq> p"
  then have "queue_due (removeAll p w) q \<le> queue_due w q"
    unfolding queue_due_def by (induction w) auto
  with \<open>q \<noteq> p\<close> show ?thesis by (simp add: queue_due_def less_Suc_eq_le)
qed

lemma queue_due_contracts:
  "device_contract queue_fetch (bdev_release queue_bdev) set queue_due"
  "submit_patient (bdev_submit queue_bdev) set queue_due"
proof -
  have "bdev_release queue_bdev st w = w" for st w by (simp add: bdev_release_def queue_bdev_def)
  then show "device_contract queue_fetch (bdev_release queue_bdev) set queue_due"
    unfolding device_contract_def by (auto elim!: queue_fetch.elims intro: queue_due_Cons)
  have "queue_due (w @ [p]) q = queue_due w q" if "q \<in> set w" for p q :: ptr and w
    using that by (simp add: queue_due_def takeWhile_append1)
  then show "submit_patient (bdev_submit queue_bdev) set queue_due"
    by (simp add: submit_patient_def queue_bdev_submit)
qed

lemma every_other:
  fixes n :: nat
  shows "\<exists>m \<ge> n. (if even m then DriverTurn else TaskTurn (m div 2 mod 5)) = DriverTurn"
    and "\<exists>m \<ge> n. (if even m then DriverTurn else TaskTurn (m div 2 mod 5)) = TaskTurn 4"
proof -
  show "\<exists>m \<ge> n. (if even m then DriverTurn else TaskTurn (m div 2 mod 5)) = DriverTurn"
    by (rule exI [of _ "2 * n"]) simp
  have "Suc (2 * (5 * n + 4)) div 2 mod 5 = 4" "odd (Suc (2 * (5 * n + 4)))" by presburger+
  then have "(if even (Suc (2 * (5 * n + 4))) then DriverTurn else TaskTurn (Suc (2 * (5 * n + 4)) div 2 mod 5)) =
      TaskTurn 4" by (simp only: if_False)
  then show "\<exists>m \<ge> n. (if even m then DriverTurn else TaskTurn (m div 2 mod 5)) = TaskTurn 4"
    by (intro exI [of _ "Suc (2 * (5 * n + 4))"]) simp
qed

theorem executor_finishes_witness:
  "\<exists>n X. exec_run (poller_turn (device_thread 3 queue_fetch (bdev_io_completion_cb ref_oneshot queue_bdev) 32))
       (bdev_resume ref_oneshot queue_bdev)
       (\<lambda>i. BdevRead (BdevDesc 8) (IoChannel 9) \<lparr>buf_ptr = 16 + i, buf_len = 512\<rparr> 0)
       (\<lambda>n. if even n then DriverTurn else TaskTurn (n div 2 mod 5)) n
       (exec_start \<lparr>sender_boxes = no_boxes, chans = no_chans, dev = [], poll_cx = NoopWaker\<rparr>) = Some X \<and>
     ex_result X 4 = Some (Inr ())"
proof -
  let ?sched = "\<lambda>n. if even n then DriverTurn else TaskTurn (n div 2 mod 5)"
  let ?s = "\<lparr>sender_boxes = no_boxes, chans = no_chans, dev = [], poll_cx = NoopWaker\<rparr> :: (io_result chan_store, ptr list) runtime"
  have s: "boxes_ok (sender_boxes ?s)" "cells (sender_boxes ?s) = Map.empty" "set (dev ?s) = {}"
    by (simp_all add: no_boxes_def boxes_ok_def)
  have n: "(32 :: nat) \<noteq> 0" "(3 :: ptr) \<noteq> null" by simp_all
  have ok: "ok" if "reported queue_fetch (io, ok)" for io ok
    using that by (auto simp: reported_def elim!: queue_fetch.elims)
  from executor_finishes [OF ref_oneshot_spec queue_contracts(1) queue_due_contracts n(1)
      device_thread_polls [OF n(2)] s every_other] ok
  show ?thesis by (fastforce simp: queue_bdev_submit)
qed

section \<open>NVMe\<close>

text \<open>
  C11: A single-threaded executor that runs, beside any number of reads and writes of NVMe namespaces, a
  task that polls their queue pair drives every one of them to its result, in whatever order it runs
  the tasks, as long as it comes back to both: no turn panics or is undefined, and the result is the
  error number of the command's refused submission, made positive, or a status word of the device, decoded.
\<close>

theorem qpair_executor_finishes:
  assumes "oneshot_spec os view" "submit_contract (nvme_submit api) (\<lambda>_ w. w) pending"
    and "device_contract fetch (\<lambda>_ w. w) pending due" "submit_patient (nvme_submit api) pending due"
    and "k \<noteq> 0" "\<And>s. snd (spdk_nvme_qpair_process_completions papi (qpair_ptr q) 0 (Some s)) =
      deliver fetch (nvme_io_complete os) k s"
    and "boxes_ok (sender_boxes s)" "cells (sender_boxes s) = Map.empty" "pending (dev s) = {}"
    and "\<And>n. \<exists>m \<ge> n. sched m = DriverTurn" "\<And>n. \<exists>m \<ge> n. sched m = TaskTurn i"
  shows "(\<forall>n. exec_run (qpair_turn papi q) (nvme_resume os api) job sched n (exec_start s) \<noteq> None) \<and>
     (\<exists>n X r. exec_run (qpair_turn papi q) (nvme_resume os api) job sched n (exec_start s) = Some X \<and>
       ex_result X i = Some r \<and>
       ((\<exists>rc p w w'. nvme_submit api (job i) p w = ((rc, None), w') \<and> rc \<noteq> 0 \<and> r = Inl (Os (- rc))) \<or>
        (\<exists>st. (reported fetch st \<or> (\<exists>p w w'. nvme_submit api (job i) p w = ((0, Some st), w'))) \<and>
           r = nvme_decode st)))"
proof (intro conjI allI)
  have polls: "\<forall>s. snd (spdk_nvme_qpair_process_completions papi (qpair_ptr q) 0 (Some s)) =
      deliver fetch (nvme_io_complete os) k s" using assms(6) ..
  note drv = nvme_io.qpair_drives [where job = job and th = 0, OF assms(1-3,5) polls]
  show "exec_run (qpair_turn papi q) (nvme_resume os api) job sched n (exec_start s) \<noteq> None" for n
    using nvme_io.exec_safe [OF assms(1-4) drv assms(7-9), of sched n i] by auto
  from nvme_io.exec_finishes [OF assms(1-4) drv assms(7-11)] obtain n X r where
    "exec_run (qpair_turn papi q) (nvme_resume os api) job sched n (exec_start s) = Some X" "ex_result X i = Some r"
    "nvme_io.result_of api fetch (job i) r" by blast
  then show "\<exists>n X r. exec_run (qpair_turn papi q) (nvme_resume os api) job sched n (exec_start s) = Some X \<and>
       ex_result X i = Some r \<and>
       ((\<exists>rc p w w'. nvme_submit api (job i) p w = ((rc, None), w') \<and> rc \<noteq> 0 \<and> r = Inl (Os (- rc))) \<or>
        (\<exists>st. (reported fetch st \<or> (\<exists>p w w'. nvme_submit api (job i) p w = ((0, Some st), w'))) \<and>
           r = nvme_decode st))"
    unfolding nvme_io.result_of_def unfolding from_errno_def by (intro exI conjI)
qed

text \<open>
  A queue pair over a queue of commands, the first answered with a status word, here of one that failed;
  as a parameter of the polling task the same functions work on the state of the requests.
\<close>

definition queue_ns :: "ptr list ns_api" where
  "queue_ns = \<lparr>spdk_nvme_ns_get_id = (\<lambda>_ _. 1), spdk_nvme_ns_get_sector_size = (\<lambda>_ _. 4096),
     spdk_nvme_ns_get_num_sectors = (\<lambda>_ _. 1024), spdk_nvme_ns_is_active = (\<lambda>_ _. True),
     spdk_nvme_ns_cmd_read = (\<lambda>_ _ _ _ _ _ p w. ((0, None), w @ [p])),
     spdk_nvme_ns_cmd_write = (\<lambda>_ _ _ _ _ _ p w. ((0, None), w @ [p])),
     spdk_nvme_qpair_process_completions = (\<lambda>_ _ w. (0, [])),
     spdk_nvme_ctrlr_free_io_qpair = (\<lambda>_ w. w)\<rparr>"

fun failing_fetch :: "ptr list \<Rightarrow> (ptr \<times> u16) option \<times> ptr list" where
  "failing_fetch [] = (None, [])"
| "failing_fetch (p # w) = (Some (p, 0x0103), removeAll p w)"

definition polled_ns ::
  "('w \<Rightarrow> (ptr \<times> u16) option \<times> 'w) \<Rightarrow> (u16 \<Rightarrow> ptr \<Rightarrow> ('c, 'w) runtime \<Rightarrow> ('c, 'w) runtime option) \<Rightarrow>
     ('c, 'w) runtime option ns_api" where
  "polled_ns fetch callback = \<lparr>spdk_nvme_ns_get_id = (\<lambda>_ _. 1), spdk_nvme_ns_get_sector_size = (\<lambda>_ _. 4096),
     spdk_nvme_ns_get_num_sectors = (\<lambda>_ _. 1024), spdk_nvme_ns_is_active = (\<lambda>_ _. True),
     spdk_nvme_ns_cmd_read = (\<lambda>_ _ _ _ _ _ p w. ((- 22, None), w)),
     spdk_nvme_ns_cmd_write = (\<lambda>_ _ _ _ _ _ p w. ((- 22, None), w)),
     spdk_nvme_qpair_process_completions = (\<lambda>_ _ w. (1, Option.bind w (deliver fetch callback 8))),
     spdk_nvme_ctrlr_free_io_qpair = (\<lambda>_ w. w)\<rparr>"

lemma queue_ns_contracts:
  "submit_contract (nvme_submit queue_ns) (\<lambda>_ w. w) set"
  "device_contract failing_fetch (\<lambda>_ w. w) set queue_due"
  "submit_patient (nvme_submit queue_ns) set queue_due"
proof -
  have submit: "nvme_submit queue_ns q p w = ((0, None), w @ [p])" for q p w
    by (cases q) (simp_all add: queue_ns_def)
  then show "submit_contract (nvme_submit queue_ns) (\<lambda>_ w. w) set" by (simp add: submit_contract_def)
  show "device_contract failing_fetch (\<lambda>_ w. w) set queue_due"
    unfolding device_contract_def by (auto elim!: failing_fetch.elims intro: queue_due_Cons)
  show "submit_patient (nvme_submit queue_ns) set queue_due"
    by (simp add: submit_patient_def submit queue_due_def takeWhile_append1)
qed

theorem qpair_executor_finishes_witness:
  "\<exists>n X. exec_run (qpair_turn (polled_ns failing_fetch (nvme_io_complete ref_oneshot)) (NvmeQpair 4))
       (nvme_resume ref_oneshot queue_ns)
       (\<lambda>i. NvmeRead (NvmeNamespace 3) (NvmeQpair 4) \<lparr>buf_ptr = 16 + i, buf_len = 4096\<rparr> 0 1)
       (\<lambda>n. if even n then DriverTurn else TaskTurn (n div 2 mod 5)) n
       (exec_start \<lparr>sender_boxes = no_boxes, chans = no_chans, dev = [], poll_cx = NoopWaker\<rparr>) = Some X \<and>
     ex_result X 4 = Some (Inl (NvmeError 0 0x81))"
proof -
  let ?sched = "\<lambda>n. if even n then DriverTurn else TaskTurn (n div 2 mod 5)"
  let ?s = "\<lparr>sender_boxes = no_boxes, chans = no_chans, dev = [], poll_cx = NoopWaker\<rparr> :: (io_result chan_store, ptr list) runtime"
  have s: "boxes_ok (sender_boxes ?s)" "cells (sender_boxes ?s) = Map.empty" "set (dev ?s) = {}"
    by (simp_all add: no_boxes_def boxes_ok_def)
  have polls: "snd (spdk_nvme_qpair_process_completions (polled_ns failing_fetch (nvme_io_complete ref_oneshot))
      (qpair_ptr (NvmeQpair 4)) 0 (Some s)) = deliver failing_fetch (nvme_io_complete ref_oneshot) 8 s" for s
    by (simp add: polled_ns_def)
  have status: "nvme_decode st = Inl (NvmeError 0 0x81)" if "reported failing_fetch st" for st
    using that by (auto simp: reported_def nvme_decode_def elim!: failing_fetch.elims)
  have submit: "nvme_submit queue_ns q p w = ((0, None), w @ [p])" for q p w
    by (cases q) (simp_all add: queue_ns_def)
  from qpair_executor_finishes [where k = 8, OF ref_oneshot_spec queue_ns_contracts _ polls s every_other]
  show ?thesis using status by (fastforce simp: submit)
qed

end
