(* ===== verification/Exchange.thy ===== *)
theory Exchange
  imports Dispatch
begin

text \<open>
  Calls to another thread or core awaited with \<open>block_on\<close>: what \<open>ThreadHandle::call\<close> (\<open>thread.rs\<close>) and
  \<open>SpdkEvent::call_on_async\<close> (\<open>event.rs\<close>) share. Any number of senders and callers use one target; one of
  them blocks on its receiver while the others go on and the target serves its queue. The locale
  \<open>calling\<close> states what a way of calling promises.
\<close>

section \<open>Histories of calls\<close>

text \<open>
  What happens around one target: somebody sends it a closure, somebody calls it, the owner of a call's
  receiver polls it or drops it, and the target serves the message at the head of its queue.
\<close>

datatype 'f call_op = Send 'f | Call 'f | PollRx nat waker | DropRx nat | Serve

text \<open>
  The state is that of the messages, with the receivers of the calls whose results nobody has taken.
  \<open>PollRx\<close> and \<open>DropRx\<close> name a receiver by its place; it is polled in the context of any waker, and a
  receiver that was ready is used up.
\<close>

type_synonym ('c, 'f, 'w) exchanged = "('c, 'f, 'w) courier \<times> completion_receiver list"

text \<open>Posting a closure, calling with one, and the callback that runs it; \<open>None\<close> is undefined.\<close>

type_synonym ('c, 'f, 'w) post_fun =
  "'f \<Rightarrow> ('c, 'f, 'w) courier \<Rightarrow> ((error, unit) result \<times> ('c, 'f, 'w) courier) option"

type_synonym ('c, 'f, 'w) call_fun =
  "'f \<Rightarrow> ('c, 'f, 'w) courier \<Rightarrow> ((error, completion_receiver) result \<times> ('c, 'f, 'w) courier) option"

type_synonym ('c, 'f, 'w) run_fun = "ptr \<Rightarrow> ('c, 'f, 'w) courier \<Rightarrow> ('c, 'f, 'w) courier option"

definition poll_rx ::
  "('c, (error, 'a) result) oneshot \<Rightarrow> nat \<Rightarrow> waker \<Rightarrow> ('c, 'f, 'w) exchanged \<Rightarrow> ('c, 'f, 'w) exchanged" where
  "poll_rx os i cx x = (case x of (s, rs) \<Rightarrow>
     (case receiver_poll os (rs ! i) cx (courier_chans s) of
        (Ready _, c) \<Rightarrow> (s\<lparr>courier_chans := c\<rparr>, remove1 (rs ! i) rs)
      | (Pending, c) \<Rightarrow> (s\<lparr>courier_chans := c\<rparr>, rs)))"

definition drop_rx ::
  "('c, (error, 'a) result) oneshot \<Rightarrow> nat \<Rightarrow> ('c, 'f, 'w) exchanged \<Rightarrow> ('c, 'f, 'w) exchanged" where
  "drop_rx os i x = (case x of (s, rs) \<Rightarrow>
     (s\<lparr>courier_chans := os_drop_rx os (rx (rs ! i)) (courier_chans s)\<rparr>, remove1 (rs ! i) rs))"

fun call_step ::
  "('c, (error, 'a) result) oneshot \<Rightarrow> ('c, 'f, 'w) post_fun \<Rightarrow> ('c, 'f, 'w) call_fun \<Rightarrow> ('c, 'f, 'w) run_fun \<Rightarrow>
     ('w \<Rightarrow> ptr list) \<Rightarrow> ('w \<Rightarrow> 'w) \<Rightarrow> 'f call_op \<Rightarrow> ('c, 'f, 'w) exchanged \<Rightarrow>
     ('c, 'f, 'w) exchanged option" where
  "call_step os post ask callback queue pop (Send f) (s, rs) = map_option (\<lambda>(_, s'). (s', rs)) (post f s)"
| "call_step os post ask callback queue pop (Call f) (s, rs) =
     map_option (\<lambda>(r, s'). (s', case r of Inl _ \<Rightarrow> rs | Inr r \<Rightarrow> r # rs)) (ask f s)"
| "call_step os post ask callback queue pop (PollRx i cx) (s, rs) =
     Some (if i < length rs then poll_rx os i cx (s, rs) else (s, rs))"
| "call_step os post ask callback queue pop (DropRx i) (s, rs) =
     Some (if i < length rs then drop_rx os i (s, rs) else (s, rs))"
| "call_step os post ask callback queue pop Serve (s, rs) =
     (case queue (host s) of
        [] \<Rightarrow> Some (s, rs)
      | p # _ \<Rightarrow> map_option (\<lambda>s'. (s', rs)) (callback p (s\<lparr>host := pop (host s)\<rparr>)))"

fun call_ops ::
  "('c, (error, 'a) result) oneshot \<Rightarrow> ('c, 'f, 'w) post_fun \<Rightarrow> ('c, 'f, 'w) call_fun \<Rightarrow> ('c, 'f, 'w) run_fun \<Rightarrow>
     ('w \<Rightarrow> ptr list) \<Rightarrow> ('w \<Rightarrow> 'w) \<Rightarrow> 'f call_op list \<Rightarrow> ('c, 'f, 'w) exchanged \<Rightarrow>
     ('c, 'f, 'w) exchanged option" where
  "call_ops os post ask callback queue pop [] x = Some x"
| "call_ops os post ask callback queue pop (op # ops) x =
     Option.bind (call_step os post ask callback queue pop op x) (call_ops os post ask callback queue pop ops)"

section \<open>The caller\<close>

text \<open>
  The caller's state: the round, and the exchange, \<open>None\<close> once a callback was undefined. Polling the
  caller's SPDK thread lets the others run: in round \<open>k\<close> they do \<open>sched k\<close>.
\<close>

fun await_call ::
  "('c, (error, 'a) result) oneshot \<Rightarrow> completion_receiver \<Rightarrow> waker \<Rightarrow> nat \<times> ('c, 'f, 'w) exchanged option \<Rightarrow>
     (error, 'a) result option poll \<times> nat \<times> ('c, 'f, 'w) exchanged option" where
  "await_call os r cx (k, None) = (Ready None, k, None)"
| "await_call os r cx (k, Some (s, rs)) =
     (case receiver_poll os r cx (courier_chans s) of
        (Ready v, c) \<Rightarrow> (Ready (Some v), k, Some (s\<lparr>courier_chans := c\<rparr>, rs))
      | (Pending, c) \<Rightarrow> (Pending, k, Some (s\<lparr>courier_chans := c\<rparr>, rs)))"

definition others_run ::
  "(nat \<Rightarrow> ('c, 'f, 'w) exchanged \<Rightarrow> ('c, 'f, 'w) exchanged option) \<Rightarrow> ptr \<Rightarrow>
     nat \<times> ('c, 'f, 'w) exchanged option \<Rightarrow> nat \<times> ('c, 'f, 'w) exchanged option" where
  "others_run run thread x = (case x of (k, y) \<Rightarrow> (Suc k, Option.bind y (run k)))"

section \<open>The invariant\<close>

text \<open>
  Every queued context is boxed; the sender of a boxed call is used by no other box and its channel is
  open or abandoned; and the receivers at hand are those of open or answered channels.
\<close>

definition queue_inv :: "('w \<Rightarrow> ptr list) \<Rightarrow> ('c, 'f, 'w) courier \<Rightarrow> bool" where
  "queue_inv queue s \<longleftrightarrow> boxes_ok (closures s) \<and> distinct (queue (host s)) \<and>
     set (queue (host s)) \<subseteq> dom (cells (closures s))"

definition senders_inv :: "(ptr \<rightharpoonup> 'f message) \<Rightarrow> (chan \<Rightarrow> 'v chan_view) \<Rightarrow> bool" where
  "senders_inv cs v \<longleftrightarrow>
     (\<forall>p f t. cs p = Some (RunAndSend f t) \<longrightarrow> v (tx t) = Open \<or> v (tx t) = ReceiverGone) \<and>
     (\<forall>p q f g t. cs p = Some (RunAndSend f t) \<longrightarrow> cs q = Some (RunAndSend g t) \<longrightarrow> p = q)"

definition receivers_inv :: "completion_receiver list \<Rightarrow> (chan \<Rightarrow> 'v chan_view) \<Rightarrow> bool" where
  "receivers_inv rs v \<longleftrightarrow> distinct rs \<and> (\<forall>r \<in> set rs. v (rx r) = Open \<or> (\<exists>x. v (rx r) = Sent x))"

definition exchange_inv ::
  "('w \<Rightarrow> ptr list) \<Rightarrow> ('c \<Rightarrow> chan \<Rightarrow> 'v chan_view) \<Rightarrow> ('c, 'f, 'w) exchanged \<Rightarrow> bool" where
  "exchange_inv queue view x \<longleftrightarrow> (case x of (s, rs) \<Rightarrow> queue_inv queue s \<and>
     senders_inv (cells (closures s)) (view (courier_chans s)) \<and> receivers_inv rs (view (courier_chans s)))"

text \<open>
  Where the call of \<open>f\<close> over the channel \<open>ch\<close> stands: 0 is answered, \<open>Suc n\<close> is queued behind \<open>n\<close>
  messages. Its receiver is not at hand for the others.
\<close>

definition stands ::
  "('w \<Rightarrow> ptr list) \<Rightarrow> ('c \<Rightarrow> chan \<Rightarrow> (error, 'a) result chan_view) \<Rightarrow> ('f \<Rightarrow> 'a) \<Rightarrow> 'f \<Rightarrow> chan \<Rightarrow> nat \<Rightarrow>
     ('c, 'f, 'w) exchanged \<Rightarrow> bool" where
  "stands queue view eval f ch m x \<longleftrightarrow> (case x of (s, rs) \<Rightarrow> CompletionReceiver ch \<notin> set rs \<and>
     (case m of
        0 \<Rightarrow> view (courier_chans s) ch = Sent (Inr (eval f))
      | Suc n \<Rightarrow> view (courier_chans s) ch = Open \<and> n < length (queue (host s)) \<and>
          cells (closures s) (queue (host s) ! n) = Some (RunAndSend f (CompletionSender ch))))"

lemma senders_inv_upd:
  assumes "senders_inv cs v" "\<And>p f t. cs p = Some (RunAndSend f t) \<Longrightarrow> ch \<noteq> tx t \<or> y = ReceiverGone"
  shows "senders_inv cs (v(ch := y))"
  using assms unfolding senders_inv_def by (metis fun_upd_apply)

lemma senders_inv_remove:
  assumes "senders_inv cs v" "cs p = Some (RunAndSend f t)"
  shows "senders_inv (cs(p := None)) (v(tx t := y))"
proof -
  have "q = p" if "cs q = Some (RunAndSend g u)" "tx u = tx t" for q g u
  proof -
    from that(2) have "u = t" by (cases u; cases t) simp
    with that(1) assms show ?thesis unfolding senders_inv_def by blast
  qed
  with assms(1) show ?thesis unfolding senders_inv_def by (auto split: if_splits)
qed

lemma senders_inv_drop: "senders_inv cs v \<Longrightarrow> senders_inv (cs(p := None)) v"
  unfolding senders_inv_def by (auto split: if_splits)

lemma senders_inv_insert:
  assumes "senders_inv cs v" "v ch = Unmade"
  shows "senders_inv (cs(p \<mapsto> RunAndSend f (CompletionSender ch))) (v(ch := Open))"
proof -
  have "t \<noteq> CompletionSender ch \<and> tx t \<noteq> ch" if "cs q = Some (RunAndSend g t)" for q g t
    using assms that unfolding senders_inv_def by fastforce
  with assms(1) show ?thesis unfolding senders_inv_def by (auto split: if_splits)
qed

lemma receivers_inv_upd:
  "receivers_inv rs v \<Longrightarrow> y = Open \<or> (\<exists>x. y = Sent x) \<or> CompletionReceiver ch \<notin> set rs \<Longrightarrow>
     receivers_inv rs (v(ch := y))"
  unfolding receivers_inv_def by (metis completion_receiver.collapse fun_upd_apply)

lemma receivers_inv_remove1:
  "receivers_inv rs v \<Longrightarrow> receivers_inv (remove1 r rs) v"
  unfolding receivers_inv_def by (auto dest: notin_set_remove1)

lemma stands_append:
  assumes "stands queue view eval f ch m (s, rs)"
    and "cells (closures s) p = None" "cells (closures s') = (cells (closures s))(p \<mapsto> x)"
    and "queue (host s') = queue (host s) @ ps" "view (courier_chans s') ch = view (courier_chans s) ch"
    and "CompletionReceiver ch \<notin> set rs'"
  shows "stands queue view eval f ch m (s', rs')"
  using assms by (auto simp: stands_def nth_append split: nat.splits)

text \<open>The channels after a message was run whose receiver still waits or has gone.\<close>

definition view_run ::
  "('f \<Rightarrow> 'a) \<Rightarrow> 'f message \<Rightarrow> (chan \<Rightarrow> (error, 'a) result chan_view) \<Rightarrow> chan \<Rightarrow> (error, 'a) result chan_view" where
  "view_run eval m v = (case m of
     Run f \<Rightarrow> v
   | RunAndSend f t \<Rightarrow> if v (tx t) = Open then v(tx t := Sent (Inr (eval f))) else v)"

lemma run_message_view:
  assumes os: "oneshot_spec os view"
    and "\<And>f t. m = RunAndSend f t \<Longrightarrow>
      view (courier_chans s) (tx t) = Open \<or> view (courier_chans s) (tx t) = ReceiverGone"
  shows "view (courier_chans (run_message os eval m s)) = view_run eval m (view (courier_chans s))"
proof (cases m)
  case (RunAndSend f t)
  with assms(2) oneshot_send [OF os] show ?thesis
    by (fastforce simp: run_message_def view_run_def sender_success_def)
qed (simp add: run_message_def view_run_def)

text \<open>What serving the head keeps: the invariant, and the other calls, which move up by one.\<close>

lemma served_inv:
  assumes inv: "exchange_inv queue view (s, rs)" and q: "queue (host s) = p # ps"
    and b: "cells (closures s) p = Some boxed"
    and s': "queue (host s') = ps" "cells (closures s') = (cells (closures s))(p := None)"
    and v: "view (courier_chans s') = view_run eval boxed (view (courier_chans s))"
    and boxes: "boxes_ok (closures s')"
  shows "exchange_inv queue view (s', rs)"
proof -
  from inv have Q: "queue_inv queue s" and T: "senders_inv (cells (closures s)) (view (courier_chans s))"
    and R: "receivers_inv rs (view (courier_chans s))" by (auto simp: exchange_inv_def)
  have "queue_inv queue s'" using Q q s' boxes by (auto simp: queue_inv_def)
  moreover have "senders_inv (cells (closures s')) (view (courier_chans s'))"
    using senders_inv_drop [OF T] senders_inv_remove [OF T] b s'(2) v
    by (auto simp: view_run_def split: message.splits)
  moreover have "receivers_inv rs (view (courier_chans s'))"
    using R receivers_inv_upd [OF R] v by (auto simp: view_run_def split: message.splits)
  ultimately show ?thesis by (simp add: exchange_inv_def)
qed

lemma served_stands:
  assumes inv: "exchange_inv queue view (s, rs)" and q: "queue (host s) = p # ps"
    and b: "cells (closures s) p = Some boxed"
    and s': "queue (host s') = ps" "cells (closures s') = (cells (closures s))(p := None)"
    and v: "view (courier_chans s') = view_run eval boxed (view (courier_chans s))"
    and st: "stands queue view eval f ch m (s, rs)"
  shows "stands queue view eval f ch (m - 1) (s', rs)"
proof -
  from inv have Q: "queue_inv queue s" and T: "senders_inv (cells (closures s)) (view (courier_chans s))"
    by (auto simp: exchange_inv_def)
  consider (answered) "m = 0" | (head) "m = Suc 0" | (behind) k where "m = Suc (Suc k)"
    by (metis not0_implies_Suc)
  then show ?thesis
  proof cases
    case answered
    with st v show ?thesis by (auto simp: stands_def view_run_def split: message.splits)
  next
    case head
    with st q b have "boxed = RunAndSend f (CompletionSender ch)" by (simp add: stands_def)
    with head st v show ?thesis by (simp add: stands_def view_run_def)
  next
    case (behind k)
    with st q have k: "k < length ps" "view (courier_chans s) ch = Open"
      "cells (closures s) (ps ! k) = Some (RunAndSend f (CompletionSender ch))" "CompletionReceiver ch \<notin> set rs"
      by (simp_all add: stands_def)
    from Q q k(1) have "ps ! k \<noteq> p" by (auto simp: queue_inv_def)
    with k(3) T b have "boxed \<noteq> RunAndSend g (CompletionSender ch)" for g unfolding senders_inv_def by blast
    then have "view (courier_chans s') ch = Open" using k(2) v
      by (auto simp: view_run_def split: message.splits) (metis completion_sender.collapse)
    with behind k s' \<open>ps ! k \<noteq> p\<close> show ?thesis by (simp add: stands_def)
  qed
qed

section \<open>The interface\<close>

text \<open>
  While everything is accepted (\<open>ok\<close>), posting and calling append a new box to the queue, a call over a
  new channel, and the callback takes the box of its context and runs the closure in it.
\<close>

locale calling =
  fixes os :: "('c, (error, 'a) result) oneshot"
    and view :: "'c \<Rightarrow> chan \<Rightarrow> (error, 'a) result chan_view"
    and eval :: "'f \<Rightarrow> 'a"
    and post :: "('c, 'f, 'w) post_fun"
    and ask :: "('c, 'f, 'w) call_fun"
    and callback :: "('c, 'f, 'w) run_fun"
    and queue :: "'w \<Rightarrow> ptr list"
    and pop :: "'w \<Rightarrow> 'w"
    and ok :: bool
  assumes channels: "ok \<Longrightarrow> oneshot_spec os view"
    and pop_tl: "ok \<Longrightarrow> queue (pop w) = tl (queue w)"
    and post_queued: "ok \<Longrightarrow> queue_inv queue s \<Longrightarrow> \<exists>p s'. post f s = Some (Inr (), s') \<and>
      cells (closures s) p = None \<and> cells (closures s') = (cells (closures s))(p \<mapsto> Run f) \<and>
      queue (host s') = queue (host s) @ [p] \<and> courier_chans s' = courier_chans s \<and> queue_inv queue s'"
    and call_queued: "ok \<Longrightarrow> queue_inv queue s \<Longrightarrow> \<exists>d p s'. ask f s = Some (Inr (CompletionReceiver d), s') \<and>
      view (courier_chans s) d = Unmade \<and> view (courier_chans s') = (view (courier_chans s))(d := Open) \<and>
      cells (closures s) p = None \<and>
      cells (closures s') = (cells (closures s))(p \<mapsto> RunAndSend f (CompletionSender d)) \<and>
      queue (host s') = queue (host s) @ [p] \<and> queue_inv queue s'"
    and callback_runs: "ok \<Longrightarrow> callback p s = (case box_from_raw p (closures s) of
        None \<Rightarrow> None
      | Some (boxed, h) \<Rightarrow> Some (run_message os eval boxed (s\<lparr>closures := h\<rparr>)))"
begin

lemma call_accepted:
  assumes ok: ok and inv: "exchange_inv queue view (s, rs)"
  obtains r s' where "ask f s = Some (Inr r, s')" "exchange_inv queue view (s', r # rs)"
    "exchange_inv queue view (s', rs)"
    "stands queue view eval f (rx r) (Suc (length (queue (host s)))) (s', rs)"
    "\<forall>g ch m. stands queue view eval g ch m (s, rs) \<longrightarrow> stands queue view eval g ch m (s', r # rs)"
proof -
  from inv have Q: "queue_inv queue s" and T: "senders_inv (cells (closures s)) (view (courier_chans s))"
    and R: "receivers_inv rs (view (courier_chans s))" by (auto simp: exchange_inv_def)
  from call_queued [OF ok Q, of f] obtain d p s' where
    c: "ask f s = Some (Inr (CompletionReceiver d), s')" and
    fresh: "view (courier_chans s) d = Unmade" "view (courier_chans s') = (view (courier_chans s))(d := Open)" and
    p: "cells (closures s) p = None"
      "cells (closures s') = (cells (closures s))(p \<mapsto> RunAndSend f (CompletionSender d))"
      "queue (host s') = queue (host s) @ [p]" "queue_inv queue s'" by blast
  let ?r = "CompletionReceiver d"
  have T': "senders_inv (cells (closures s')) (view (courier_chans s'))"
    unfolding p(2) fresh(2) by (rule senders_inv_insert [OF T fresh(1)])
  have new: "?r \<notin> set rs" using R fresh(1) unfolding receivers_inv_def by fastforce
  with R fresh have R': "receivers_inv (?r # rs) (view (courier_chans s'))" unfolding receivers_inv_def by auto
  with p(4) T' have "exchange_inv queue view (s', ?r # rs)" "exchange_inv queue view (s', rs)"
    by (simp_all add: exchange_inv_def receivers_inv_def)
  moreover from p fresh new have "stands queue view eval f (rx ?r) (Suc (length (queue (host s)))) (s', rs)"
    by (simp add: stands_def)
  moreover have "stands queue view eval g ch m (s', ?r # rs)" if st: "stands queue view eval g ch m (s, rs)" for g ch m
  proof -
    from st fresh(1) have "ch \<noteq> d" by (auto simp: stands_def split: nat.splits)
    with st fresh show ?thesis by (intro stands_append [OF st p(1,2,3)]) (auto simp: stands_def)
  qed
  ultimately show thesis using c that by blast
qed

text \<open>The target serves the head of its queue.\<close>

lemma serve_head:
  assumes ok: ok and inv: "exchange_inv queue view (s, rs)" and q: "queue (host s) = p # ps"
  shows "\<exists>s'. callback p (s\<lparr>host := pop (host s)\<rparr>) = Some s' \<and> exchange_inv queue view (s', rs) \<and>
     (\<forall>f ch m. stands queue view eval f ch m (s, rs) \<longrightarrow> stands queue view eval f ch (m - 1) (s', rs))"
proof -
  from inv have Q: "queue_inv queue s" and T: "senders_inv (cells (closures s)) (view (courier_chans s))"
    by (auto simp: exchange_inv_def)
  from Q q obtain boxed where b: "cells (closures s) p = Some boxed" by (auto simp: queue_inv_def)
  from box.from_Some [OF b] obtain h where h: "box_from_raw p (closures s) = Some (boxed, h)"
    "cells h = (cells (closures s))(p := None)" by blast
  let ?s' = "run_message os eval boxed (s\<lparr>host := pop (host s), closures := h\<rparr>)"
  have call: "callback p (s\<lparr>host := pop (host s)\<rparr>) = Some ?s'"
    using h(1) by (simp add: callback_runs [OF ok])
  have served: "queue (host ?s') = ps" "cells (closures ?s') = (cells (closures s))(p := None)"
    using q h(2) by (simp_all add: pop_tl [OF ok])
  have boxes: "boxes_ok (closures ?s')"
    using Q box.from_ok [OF _ h(1)] by (simp add: queue_inv_def)
  have "view (courier_chans ?s') = view_run eval boxed (view (courier_chans s))"
    using run_message_view [OF channels [OF ok], where m = boxed and eval = eval
        and s = "s\<lparr>host := pop (host s), closures := h\<rparr>"] T b
    by (auto simp: senders_inv_def)
  from served_inv [OF inv q b served this boxes] served_stands [OF inv q b served this] call
  show ?thesis by blast
qed

text \<open>Other callers poll and drop their receivers.\<close>

lemma receiver_used:
  assumes inv: "exchange_inv queue view (s, rs)" and r: "r \<in> set rs"
    and y: "view c' = (view (courier_chans s))(rx r := y)"
    and gone: "y = ReceiverGone \<or> view (courier_chans s) (rx r) \<noteq> Open"
  shows "exchange_inv queue view (s\<lparr>courier_chans := c'\<rparr>, remove1 r rs)"
    and "stands queue view eval f ch m (s, rs) \<Longrightarrow>
      stands queue view eval f ch m (s\<lparr>courier_chans := c'\<rparr>, remove1 r rs)"
proof -
  from inv have Q: "queue_inv queue s" and T: "senders_inv (cells (closures s)) (view (courier_chans s))"
    and R: "receivers_inv rs (view (courier_chans s))" by (auto simp: exchange_inv_def)
  from R r have v: "view (courier_chans s) (rx r) = Open \<or> (\<exists>x. view (courier_chans s) (rx r) = Sent x)"
    by (auto simp: receivers_inv_def)
  have "rx r \<noteq> tx t \<or> y = ReceiverGone" if "cells (closures s) p = Some (RunAndSend g t)" for p g t
    using that T v gone unfolding senders_inv_def by fastforce
  then have T': "senders_inv (cells (closures s)) (view c')" unfolding y by (rule senders_inv_upd [OF T])
  have "CompletionReceiver (rx r) \<notin> set (remove1 r rs)" using R by (simp add: receivers_inv_def)
  with receivers_inv_upd [OF receivers_inv_remove1 [OF R]] have "receivers_inv (remove1 r rs) (view c')"
    unfolding y by blast
  with Q T' show "exchange_inv queue view (s\<lparr>courier_chans := c'\<rparr>, remove1 r rs)"
    by (simp add: exchange_inv_def queue_inv_def)
  assume st: "stands queue view eval f ch m (s, rs)"
  with r have "ch \<noteq> rx r" by (cases r) (auto simp: stands_def)
  with st y show "stands queue view eval f ch m (s\<lparr>courier_chans := c'\<rparr>, remove1 r rs)"
    by (auto simp: stands_def dest: notin_set_remove1 split: nat.splits)
qed

lemma poll_rx_keeps:
  assumes os: "oneshot_spec os view" and inv: "exchange_inv queue view (s, rs)" and i: "i < length rs"
  shows "exchange_inv queue view (poll_rx os i cx (s, rs))"
    and "stands queue view eval f ch m (s, rs) \<Longrightarrow> stands queue view eval f ch m (poll_rx os i cx (s, rs))"
proof -
  let ?r = "rs ! i"
  from i have r: "?r \<in> set rs" by simp
  from inv r consider (waiting) "view (courier_chans s) (rx ?r) = Open"
    | (answered) v where "view (courier_chans s) (rx ?r) = Sent v"
    by (auto simp: exchange_inv_def receivers_inv_def)
  then have "exchange_inv queue view (poll_rx os i cx (s, rs)) \<and>
    (stands queue view eval f ch m (s, rs) \<longrightarrow> stands queue view eval f ch m (poll_rx os i cx (s, rs)))"
  proof cases
    case waiting
    with receiver_poll_eq(1) [OF os, of "courier_chans s" ?r cx] obtain c' where
      "receiver_poll os ?r cx (courier_chans s) = (Pending, c')" "view c' = view (courier_chans s)" by blast
    with inv show ?thesis
      by (auto simp: poll_rx_def exchange_inv_def queue_inv_def stands_def split: nat.splits)
  next
    case (answered v)
    with receiver_poll_eq(2) [OF os, of "courier_chans s" ?r _ cx] obtain c' where
      "receiver_poll os ?r cx (courier_chans s) = (Ready v, c')"
      "view c' = (view (courier_chans s))(rx ?r := Taken)" by blast
    with receiver_used [OF inv r, of c' Taken] answered show ?thesis by (simp add: poll_rx_def)
  qed
  then show "exchange_inv queue view (poll_rx os i cx (s, rs))"
    and "stands queue view eval f ch m (s, rs) \<Longrightarrow> stands queue view eval f ch m (poll_rx os i cx (s, rs))"
    by blast+
qed

lemma drop_rx_keeps:
  assumes os: "oneshot_spec os view" and inv: "exchange_inv queue view (s, rs)" and i: "i < length rs"
  shows "exchange_inv queue view (drop_rx os i (s, rs))"
    and "stands queue view eval f ch m (s, rs) \<Longrightarrow> stands queue view eval f ch m (drop_rx os i (s, rs))"
proof -
  from i have r: "rs ! i \<in> set rs" by simp
  with inv have "view (courier_chans s) (rx (rs ! i)) \<noteq> Unmade"
    by (fastforce simp: exchange_inv_def receivers_inv_def)
  from receiver_used [OF inv r oneshot_drop(3) [OF os this]]
  show "exchange_inv queue view (drop_rx os i (s, rs))"
    and "stands queue view eval f ch m (s, rs) \<Longrightarrow> stands queue view eval f ch m (drop_rx os i (s, rs))"
    by (simp_all add: drop_rx_def)
qed

text \<open>Only \<open>Serve\<close> moves a call, and it moves every call.\<close>

lemma post_accepted:
  assumes ok: ok and inv: "exchange_inv queue view (s, rs)"
  shows "\<exists>s'. post f s = Some (Inr (), s') \<and> exchange_inv queue view (s', rs) \<and>
     (\<forall>g ch m. stands queue view eval g ch m (s, rs) \<longrightarrow> stands queue view eval g ch m (s', rs))"
proof -
  from inv have "queue_inv queue s" by (simp add: exchange_inv_def)
  from post_queued [OF ok this, of f] obtain p s' where
    p: "cells (closures s) p = None" "cells (closures s') = (cells (closures s))(p \<mapsto> Run f)"
    "queue (host s') = queue (host s) @ [p]" and s': "courier_chans s' = courier_chans s" "queue_inv queue s'"
    "post f s = Some (Inr (), s')" by blast
  from inv p(2) s'(1,2) have "exchange_inv queue view (s', rs)"
    unfolding exchange_inv_def senders_inv_def by (auto split: if_splits)
  moreover have "stands queue view eval g ch m (s', rs)" if "stands queue view eval g ch m (s, rs)" for g ch m
    using stands_append [OF that p] that s'(1) by (auto simp: stands_def)
  ultimately show ?thesis using s'(3) by blast
qed

lemma call_step_keeps:
  assumes ok: ok and inv: "exchange_inv queue view x"
  shows "\<exists>y. call_step os post ask callback queue pop op x = Some y \<and> exchange_inv queue view y \<and>
     (\<forall>f ch m. stands queue view eval f ch m x \<longrightarrow> stands queue view eval f ch (m - of_bool (op = Serve)) y)"
proof -
  note os = channels [OF ok]
  obtain s rs where x: "x = (s, rs)" by fastforce
  show ?thesis
  proof (cases op)
    case (Send f)
    with post_accepted [OF ok inv [unfolded x], of f] x show ?thesis by auto
  next
    case (Call f)
    from call_accepted [OF ok inv [unfolded x], of f] obtain r s' where "ask f s = Some (Inr r, s')"
      "exchange_inv queue view (s', r # rs)"
      "\<forall>g ch m. stands queue view eval g ch m (s, rs) \<longrightarrow> stands queue view eval g ch m (s', r # rs)" by metis
    with Call x show ?thesis by simp
  next
    case (PollRx i cx)
    with poll_rx_keeps [OF os inv [unfolded x], where cx = cx, of i] inv x show ?thesis by simp
  next
    case (DropRx i)
    with drop_rx_keeps [OF os inv [unfolded x], of i] inv x show ?thesis by simp
  next
    case Serve
    show ?thesis
    proof (cases "queue (host s)")
      case Nil
      then have "stands queue view eval f ch (m - 1) x" if "stands queue view eval f ch m x" for f ch m
        using that x by (cases m) (auto simp: stands_def)
      with Nil Serve inv x show ?thesis by simp
    next
      case (Cons p ps)
      from serve_head [OF ok inv [unfolded x] this] Cons Serve x show ?thesis by auto
    qed
  qed
qed

lemma call_ops_keeps:
  assumes ok: ok and "exchange_inv queue view x"
  shows "\<exists>y. call_ops os post ask callback queue pop ops x = Some y \<and> exchange_inv queue view y \<and>
     (\<forall>f ch m. stands queue view eval f ch m x \<longrightarrow> stands queue view eval f ch (m - count_list ops Serve) y)"
  using assms(2)
proof (induction ops arbitrary: x)
  case (Cons op ops)
  from call_step_keeps [OF ok Cons.prems, of op] obtain y where
    y: "call_step os post ask callback queue pop op x = Some y" "exchange_inv queue view y"
    "\<And>f ch m. stands queue view eval f ch m x \<Longrightarrow> stands queue view eval f ch (m - of_bool (op = Serve)) y"
    by blast
  from Cons.IH [OF y(2)] obtain z where
    z: "call_ops os post ask callback queue pop ops y = Some z" "exchange_inv queue view z"
    "\<And>f ch m. stands queue view eval f ch m y \<Longrightarrow> stands queue view eval f ch (m - count_list ops Serve) z"
    by blast
  have "stands queue view eval f ch (m - count_list (op # ops) Serve) z" if "stands queue view eval f ch m x" for f ch m
    using z(3) [OF y(3) [OF that]] by (cases "op = Serve") simp_all
  with y(1) z(1,2) show ?case by simp
qed simp

section \<open>Blocking on a call\<close>

lemma await_answered:
  assumes "oneshot_spec os view" "stands queue view eval f ch 0 x"
  shows "\<exists>y. await_call os (CompletionReceiver ch) cx (k, Some x) = (Ready (Some (Inr (eval f))), k, Some y)"
proof -
  obtain s rs where x: "x = (s, rs)" by fastforce
  with receiver_poll_eq(2) [OF assms(1), of "courier_chans s" "CompletionReceiver ch" _ cx] assms(2) obtain c' where
    "receiver_poll os (CompletionReceiver ch) cx (courier_chans s) = (Ready (Inr (eval f)), c')"
    by (auto simp: stands_def)
  with x show ?thesis by simp
qed

lemma await_queued:
  assumes "oneshot_spec os view" "stands queue view eval f ch (Suc n) x" "exchange_inv queue view x"
  shows "\<exists>y. await_call os (CompletionReceiver ch) cx (k, Some x) = (Pending, k, Some y) \<and>
     stands queue view eval f ch (Suc n) y \<and> exchange_inv queue view y"
proof -
  obtain s rs where x: "x = (s, rs)" by fastforce
  with receiver_poll_eq(1) [OF assms(1), of "courier_chans s" "CompletionReceiver ch" cx] assms(2) obtain c' where
    "receiver_poll os (CompletionReceiver ch) cx (courier_chans s) = (Pending, c')" "view c' = view (courier_chans s)"
    by (auto simp: stands_def)
  with x assms(2,3) show ?thesis by (simp add: stands_def exchange_inv_def queue_inv_def)
qed

lemma call_loop:
  assumes ok: ok and fair: "\<And>k. Serve \<in> set (sched k)"
    and "stands queue view eval f ch m x" "exchange_inv queue view x"
  shows "\<exists>n y. n \<le> k + m \<and>
     block_on_loop (await_call os (CompletionReceiver ch) cx)
       (others_run (\<lambda>k. call_ops os post ask callback queue pop (sched k)) thread) (k, Some x) =
     Some (Some (Inr (eval f)), n, Some y)"
  using assms(3-)
proof (induction m arbitrary: k x rule: less_induct)
  case (less m)
  note os = channels [OF ok]
  let ?fut = "await_call os (CompletionReceiver ch) cx"
    and ?tp = "others_run (\<lambda>k. call_ops os post ask callback queue pop (sched k)) thread"
  show ?case
  proof (cases m)
    case 0
    with await_answered [OF os, of f ch x cx k] less.prems(1) obtain y where
      "?fut (k, Some x) = (Ready (Some (Inr (eval f))), k, Some y)" by blast
    then show ?thesis by (intro exI [of _ k] exI [of _ y]) (simp add: block_on_loop_ready)
  next
    case (Suc n)
    from await_queued [OF os less.prems(1) [unfolded Suc] less.prems(2), of cx k] obtain y where
      y: "?fut (k, Some x) = (Pending, k, Some y)" "stands queue view eval f ch m y" "exchange_inv queue view y"
      using Suc by blast
    from call_ops_keeps [OF ok y(3), of "sched k"] y(2) obtain z where
      z: "call_ops os post ask callback queue pop (sched k) y = Some z" "exchange_inv queue view z"
      "stands queue view eval f ch (m - count_list (sched k) Serve) z" by blast
    have "m - count_list (sched k) Serve < m"
      using fair [of k] Suc by (cases "count_list (sched k) Serve") (auto simp: count_list_0_iff)
    from less.IH [OF this z(3,2), of "Suc k"] obtain n' y' where
      n': "n' \<le> Suc k + (m - count_list (sched k) Serve)"
      "block_on_loop ?fut ?tp (Suc k, Some z) = Some (Some (Inr (eval f)), n', Some y')" by blast
    have "block_on_loop ?fut ?tp (k, Some x) = block_on_loop ?fut ?tp (Suc k, Some z)"
      using y(1) z(1) by (subst block_on_loop_pending) (simp_all add: block_on_round_def others_run_def)
    with n' \<open>m - count_list (sched k) Serve < m\<close> show ?thesis by (intro exI [of _ n'] exI [of _ y']) simp
  qed
qed

text \<open>From an empty queue, through any history, to the return of a call.\<close>

lemma call_returns:
  assumes ok: ok and empty: "queue w = []" and fair: "\<And>k. Serve \<in> set (sched k)" and thread: "thread \<noteq> null"
  shows "\<exists>s rs r s' n y. call_ops os post ask callback queue pop ops (no_closures c w, []) = Some (s, rs) \<and>
     ask f s = Some (Inr r, s') \<and>
     block_on (\<lambda>_. thread) (others_run (\<lambda>k. call_ops os post ask callback queue pop (sched k)))
       (await_call os r) (0, Some (s', rs)) = Some (Returned (Some (Inr (eval f)), n, Some y)) \<and>
     n \<le> Suc (length (queue (host s)))"
proof -
  have "exchange_inv queue view (no_closures c w, [])"
    using empty by (simp add: exchange_inv_def queue_inv_def senders_inv_def receivers_inv_def
        no_closures_def no_boxes_def boxes_ok_def)
  from call_ops_keeps [OF ok this, of ops] obtain s rs where
    s: "call_ops os post ask callback queue pop ops (no_closures c w, []) = Some (s, rs)"
    "exchange_inv queue view (s, rs)" by (metis surj_pair)
  from call_accepted [OF ok s(2), of f] obtain r s' where c: "ask f s = Some (Inr r, s')"
    and inv: "exchange_inv queue view (s', rs)"
    and st: "stands queue view eval f (rx r) (Suc (length (queue (host s)))) (s', rs)" by metis
  obtain ch where r: "r = CompletionReceiver ch" by (cases r)
  have "\<exists>n y. n \<le> 0 + Suc (length (queue (host s))) \<and>
      block_on_loop (await_call os (CompletionReceiver ch) NoopWaker)
        (others_run (\<lambda>k. call_ops os post ask callback queue pop (sched k)) thread) (0, Some (s', rs)) =
      Some (Some (Inr (eval f)), n, Some y)"
    using fair st inv unfolding r by (intro call_loop [OF ok]) simp_all
  then obtain n y where "n \<le> Suc (length (queue (host s)))"
    "block_on_loop (await_call os r NoopWaker)
       (others_run (\<lambda>k. call_ops os post ask callback queue pop (sched k)) thread) (0, Some (s', rs)) =
     Some (Some (Inr (eval f)), n, Some y)" unfolding r by (elim exE conjE) simp
  with s(1) c thread show ?thesis by (auto simp: block_on_def)
qed

end

end
