(* ===== verification/Calls.thy ===== *)
theory Calls
  imports Exchange Thread_Correct Event
begin

text \<open>
  The two ways of calling that \<open>Exchange\<close> abstracts from: \<open>ThreadHandle::call\<close> with the message callback
  (\<open>thread.rs\<close>) and \<open>SpdkEvent::call_on_async\<close> with the event trampoline (\<open>event.rs\<close>).
\<close>

section \<open>Threads\<close>

definition thread_post :: "'w thread_api \<Rightarrow> ptr \<Rightarrow> ('c, 'f, 'w) post_fun" where
  "thread_post api t f s = Some (Inr (), send api (ThreadHandle t) (Run f) s)"

definition thread_call :: "'w thread_api \<Rightarrow> ('c, (error, 'a) result) oneshot \<Rightarrow> ptr \<Rightarrow> ('c, 'f, 'w) call_fun" where
  "thread_call api os t f s = (case handle_call api os (ThreadHandle t) f s of (r, s') \<Rightarrow> Some (Inr r, s'))"

lemma send_accepted:
  assumes "send_contract api t queue pop" "\<And>p w. fst (spdk_thread_send_msg api t p w) = 0" "queue_inv queue s"
  obtains p where "cells (closures s) p = None"
    "cells (closures (send api (ThreadHandle t) m s)) = (cells (closures s))(p \<mapsto> m)"
    "queue (host (send api (ThreadHandle t) m s)) = queue (host s) @ [p]"
    "courier_chans (send api (ThreadHandle t) m s) = courier_chans s"
    "queue_inv queue (send api (ThreadHandle t) m s)"
proof -
  from assms(3) have ok: "boxes_ok (closures s)" by (simp add: queue_inv_def)
  obtain p h where p: "box_into_raw m (closures s) = (p, h)" by fastforce
  obtain rc w where w: "spdk_thread_send_msg api t p (host s) = (rc, w)" by fastforce
  with assms(2) have "rc = 0" by (metis fst_conv)
  with send_contractD [OF assms(1) w] have q: "queue w = queue (host s) @ [p]" by simp
  note h = box.into_contents [OF p] box.into_fresh [OF ok p] box.into_ok [OF ok p]
  have eq: "send api (ThreadHandle t) m s = s\<lparr>closures := h, host := w\<rparr>"
    using p w by (simp add: send_def)
  moreover from h(2) assms(3) have "p \<notin> set (queue (host s))" by (auto simp: queue_inv_def)
  ultimately show thesis using that [of p] h q assms(3) by (auto simp: queue_inv_def)
qed

definition thread_accepts ::
  "('c, (error, 'a) result) oneshot \<Rightarrow> ('c \<Rightarrow> chan \<Rightarrow> (error, 'a) result chan_view) \<Rightarrow> 'w thread_api \<Rightarrow> ptr \<Rightarrow>
     ('w \<Rightarrow> ptr list) \<Rightarrow> ('w \<Rightarrow> 'w) \<Rightarrow> bool" where
  "thread_accepts os view api t queue pop \<longleftrightarrow> oneshot_spec os view \<and> send_contract api t queue pop \<and>
     (\<forall>p w. fst (spdk_thread_send_msg api t p w) = 0)"

interpretation thread_calls: calling os view eval "thread_post api t" "thread_call api os t" "msg_callback os eval"
    queue pop "thread_accepts os view api t queue pop"
  for os :: "('c, (error, 'a) result) oneshot" and view and eval :: "'f \<Rightarrow> 'a" and api :: "'w thread_api" and t queue pop
proof
  assume acc: "thread_accepts os view api t queue pop"
  then have os: "oneshot_spec os view" and con: "send_contract api t queue pop"
    and all: "\<And>p w. fst (spdk_thread_send_msg api t p w) = 0" by (simp_all add: thread_accepts_def)
  show "oneshot_spec os view" by (rule os)
  show "queue (pop w) = tl (queue w)" for w using con by (simp add: send_contract_def)
  show "msg_callback os eval p s = (case box_from_raw p (closures s) of None \<Rightarrow> None
      | Some (boxed, h) \<Rightarrow> Some (run_message os eval boxed (s\<lparr>closures := h\<rparr>)))" for p s
    by (simp add: msg_callback_def)
  fix f :: 'f and s :: "('c, 'f, 'w) courier"
  assume s: "queue_inv queue s"
  show "\<exists>p s'. thread_post api t f s = Some (Inr (), s') \<and> cells (closures s) p = None \<and>
      cells (closures s') = (cells (closures s))(p \<mapsto> Run f) \<and> queue (host s') = queue (host s) @ [p] \<and>
      courier_chans s' = courier_chans s \<and> queue_inv queue s'"
    by (rule send_accepted [OF con all s, of "Run f"]) (auto simp: thread_post_def)
  obtain d c where d: "os_channel os (courier_chans s) = (d, c)" by fastforce
  let ?s = "s\<lparr>courier_chans := c\<rparr>" and ?m = "RunAndSend f (CompletionSender d)"
  from s have "queue_inv queue ?s" by (simp add: queue_inv_def)
  from send_accepted [OF con all this, of ?m] obtain p where p: "cells (closures s) p = None"
    "cells (closures (send api (ThreadHandle t) ?m ?s)) = (cells (closures s))(p \<mapsto> ?m)"
    "queue (host (send api (ThreadHandle t) ?m ?s)) = queue (host s) @ [p]"
    "courier_chans (send api (ThreadHandle t) ?m ?s) = c"
    "queue_inv queue (send api (ThreadHandle t) ?m ?s)" by auto
  moreover have "thread_call api os t f s = Some (Inr (CompletionReceiver d), send api (ThreadHandle t) ?m ?s)"
    using d by (simp add: thread_call_def handle_call_def completion_def)
  ultimately show "\<exists>d p s'. thread_call api os t f s = Some (Inr (CompletionReceiver d), s') \<and>
      view (courier_chans s) d = Unmade \<and> view (courier_chans s') = (view (courier_chans s))(d := Open) \<and>
      cells (closures s) p = None \<and>
      cells (closures s') = (cells (closures s))(p \<mapsto> RunAndSend f (CompletionSender d)) \<and>
      queue (host s') = queue (host s) @ [p] \<and> queue_inv queue s'"
    using oneshot_channel [OF os d] by (intro exI conjI) simp_all
qed

text \<open>
  C21: After any history of sends, calls, polled and dropped receivers and served messages on a thread
  that refuses no message, calling the thread and blocking on the receiver returns the value of the
  closure that was passed, whatever the others go on doing meanwhile, if the target serves at least one
  message in each round; it does so after at most as many rounds as messages were queued before the
  call, plus one.
\<close>

theorem call_block_on:
  assumes "oneshot_spec os view" "send_contract api t queue pop"
    and "\<And>p w. fst (spdk_thread_send_msg api t p w) = 0" "queue w = []"
    and "\<And>k. Serve \<in> set (sched k)" "thread \<noteq> null"
  shows "\<exists>s rs r s' n y. call_ops os (thread_post api t) (thread_call api os t) (msg_callback os eval) queue pop
       ops (no_closures c w, []) = Some (s, rs) \<and>
     handle_call api os (ThreadHandle t) f s = (r, s') \<and>
     block_on (\<lambda>_. thread) (others_run (\<lambda>k. call_ops os (thread_post api t) (thread_call api os t)
         (msg_callback os eval) queue pop (sched k)))
       (await_call os r) (0, Some (s', rs)) = Some (Returned (Some (Inr (eval f)), n, Some y)) \<and>
     n \<le> Suc (length (queue (host s)))"
proof -
  from assms(1-3) have "thread_accepts os view api t queue pop" by (simp add: thread_accepts_def)
  from thread_calls.call_returns [where sched = sched, OF this assms(4-6), of eval ops c f] obtain s rs r s' n y where
    "call_ops os (thread_post api t) (thread_call api os t) (msg_callback os eval) queue pop
       ops (no_closures c w, []) = Some (s, rs)"
    "thread_call api os t f s = Some (Inr r, s')"
    "block_on (\<lambda>_. thread) (others_run (\<lambda>k. call_ops os (thread_post api t) (thread_call api os t)
         (msg_callback os eval) queue pop (sched k)))
       (await_call os r) (0, Some (s', rs)) = Some (Returned (Some (Inr (eval f)), n, Some y))"
    "n \<le> Suc (length (queue (host s)))" by blast
  moreover from this(2) have "handle_call api os (ThreadHandle t) f s = (r, s')"
    by (auto simp: thread_call_def split: prod.splits)
  ultimately show ?thesis by blast
qed

theorem call_block_on_witness:
  "\<exists>s rs r s' n y. call_ops ref_oneshot (thread_post demo_thread 5) (thread_call demo_thread ref_oneshot 5)
       (msg_callback ref_oneshot (\<lambda>n. n + 22)) msgs demo_pop
       [Call (1 :: nat), Send 2, Serve, PollRx 0 (TaskWaker 4), Call 3, DropRx 0, Send 4]
       (no_closures no_chans demo_host, []) = Some (s, rs) \<and>
     handle_call demo_thread ref_oneshot (ThreadHandle 5) 20 s = (r, s') \<and>
     block_on (\<lambda>_. 3) (others_run (\<lambda>k. call_ops ref_oneshot (thread_post demo_thread 5) (thread_call demo_thread ref_oneshot 5)
       (msg_callback ref_oneshot (\<lambda>n. n + 22)) msgs demo_pop
         [Call k, Serve]))
       (await_call ref_oneshot r) (0, Some (s', rs)) = Some (Returned (Some (Inr (42 :: nat)), n, Some y)) \<and>
     n \<le> Suc (length (msgs (host s)))"
proof -
  have "fst (spdk_thread_send_msg demo_thread 5 p w) = 0" for p w by (simp add: demo_thread_def)
  moreover have "msgs demo_host = []" by (simp add: demo_host_def)
  ultimately show ?thesis
    using call_block_on [OF ref_oneshot_spec demo_send_contract, where w = demo_host
        and sched = "\<lambda>k. [Call k, Serve]" and thread = 3 and t = 5 and eval = "\<lambda>n. n + 22" and c = no_chans
        and ops = "[Call 1, Send 2, Serve, PollRx 0 (TaskWaker 4), Call 3, DropRx 0, Send 4]" and f = 20] by simp
qed

section \<open>Cores\<close>

definition core_post :: "'w event_api \<Rightarrow> u32 \<Rightarrow> ('c, 'f, 'w) post_fun" where
  "core_post api lcore f s = call_on api lcore (Run f) s"

lemma call_on_accepted:
  assumes "event_contract api lcore queue pop" "\<And>p w. fst (spdk_event_allocate api lcore p w) \<noteq> null"
    and "queue_inv queue s"
  shows "\<exists>p s'. call_on api lcore m s = Some (Inr (), s') \<and> cells (closures s) p = None \<and>
     cells (closures s') = (cells (closures s))(p \<mapsto> m) \<and> queue (host s') = queue (host s) @ [p] \<and>
     courier_chans s' = courier_chans s \<and> queue_inv queue s'"
proof -
  from assms(3) have ok: "boxes_ok (closures s)" by (simp add: queue_inv_def)
  obtain p h where p: "box_into_raw m (closures s) = (p, h)" by fastforce
  obtain e w where w: "spdk_event_allocate api lcore p (host s) = (e, w)" by fastforce
  with assms(2) have e: "e \<noteq> null" by (metis fst_conv)
  from call_on_eq(2) [OF ok p w e] have eq:
    "call_on api lcore m s = Some (Inr (), s\<lparr>closures := h, host := spdk_event_call api e w\<rparr>)" .
  note h = box.into_contents [OF p] box.into_fresh [OF ok p] box.into_ok [OF ok p]
  from h(2) assms(3) have "p \<notin> set (queue (host s))" by (auto simp: queue_inv_def)
  with eq h event_contractD(2) [OF assms(1) w e] assms(3) show ?thesis
    by (intro exI [of _ p] exI [of _ "s\<lparr>closures := h, host := spdk_event_call api e w\<rparr>"])
      (auto simp: queue_inv_def)
qed

definition core_accepts ::
  "('c, (error, 'a) result) oneshot \<Rightarrow> ('c \<Rightarrow> chan \<Rightarrow> (error, 'a) result chan_view) \<Rightarrow> 'w event_api \<Rightarrow> u32 \<Rightarrow>
     ('w \<Rightarrow> ptr list) \<Rightarrow> ('w \<Rightarrow> 'w) \<Rightarrow> bool" where
  "core_accepts os view api lcore queue pop \<longleftrightarrow> oneshot_spec os view \<and> event_contract api lcore queue pop \<and>
     (\<forall>p w. fst (spdk_event_allocate api lcore p w) \<noteq> null)"

interpretation core_calls: calling os view eval "core_post api lcore" "call_on_async api os lcore"
    "event_trampoline os eval" queue pop "core_accepts os view api lcore queue pop"
  for os :: "('c, (error, 'a) result) oneshot" and view and eval :: "'f \<Rightarrow> 'a" and api :: "'w event_api"
    and lcore queue pop
proof
  assume acc: "core_accepts os view api lcore queue pop"
  then have os: "oneshot_spec os view" and con: "event_contract api lcore queue pop"
    and all: "\<And>p w. fst (spdk_event_allocate api lcore p w) \<noteq> null" unfolding core_accepts_def by blast+
  show "oneshot_spec os view" by (rule os)
  show "queue (pop w) = tl (queue w)" for w using con by (simp add: event_contract_def)
  show "event_trampoline os eval p s = (case box_from_raw p (closures s) of None \<Rightarrow> None
      | Some (boxed, h) \<Rightarrow> Some (run_message os eval boxed (s\<lparr>closures := h\<rparr>)))" for p s
    by (simp add: event_trampoline_def)
  fix f :: 'f and s :: "('c, 'f, 'w) courier"
  assume s: "queue_inv queue s"
  show "\<exists>p s'. core_post api lcore f s = Some (Inr (), s') \<and> cells (closures s) p = None \<and>
      cells (closures s') = (cells (closures s))(p \<mapsto> Run f) \<and> queue (host s') = queue (host s) @ [p] \<and>
      courier_chans s' = courier_chans s \<and> queue_inv queue s'"
    using call_on_accepted [OF con all s, of "Run f"] by (simp add: core_post_def)
  obtain d c where d: "os_channel os (courier_chans s) = (d, c)" by fastforce
  let ?s = "s\<lparr>courier_chans := c\<rparr>" and ?m = "RunAndSend f (CompletionSender d)"
  from s have "queue_inv queue ?s" by (simp add: queue_inv_def)
  from call_on_accepted [OF con all this, of ?m] obtain p s' where p: "call_on api lcore ?m ?s = Some (Inr (), s')"
    "cells (closures s) p = None" "cells (closures s') = (cells (closures s))(p \<mapsto> ?m)"
    "queue (host s') = queue (host s) @ [p]" "courier_chans s' = c" "queue_inv queue s'" by auto
  moreover have "call_on_async api os lcore f s = Some (Inr (CompletionReceiver d), s')"
    using d p(1) by (simp add: call_on_async_def completion_def)
  ultimately show "\<exists>d p s'. call_on_async api os lcore f s = Some (Inr (CompletionReceiver d), s') \<and>
      view (courier_chans s) d = Unmade \<and> view (courier_chans s') = (view (courier_chans s))(d := Open) \<and>
      cells (closures s) p = None \<and>
      cells (closures s') = (cells (closures s))(p \<mapsto> RunAndSend f (CompletionSender d)) \<and>
      queue (host s') = queue (host s) @ [p] \<and> queue_inv queue s'"
    using oneshot_channel [OF os d] by (intro exI conjI) simp_all
qed

text \<open>
  C22: \<open>call_on_async\<close> makes the same promise for the cores: after any history of events on a core for
  which SPDK always makes the event, it returns a receiver, and blocking on it returns the value of the
  closure, whatever is dispatched meanwhile, if the core's reactor runs at least one event in each round.
\<close>

theorem core_call_block_on:
  assumes "oneshot_spec os view" "event_contract api lcore queue pop"
    and "\<And>p w. fst (spdk_event_allocate api lcore p w) \<noteq> null" "queue w = []"
    and "\<And>k. Serve \<in> set (sched k)" "thread \<noteq> null"
  shows "\<exists>s rs r s' n y. call_ops os (core_post api lcore) (call_on_async api os lcore) (event_trampoline os eval)
       queue pop ops (no_closures c w, []) = Some (s, rs) \<and>
     call_on_async api os lcore f s = Some (Inr r, s') \<and>
     block_on (\<lambda>_. thread) (others_run (\<lambda>k. call_ops os (core_post api lcore) (call_on_async api os lcore)
         (event_trampoline os eval) queue pop (sched k)))
       (await_call os r) (0, Some (s', rs)) = Some (Returned (Some (Inr (eval f)), n, Some y)) \<and>
     n \<le> Suc (length (queue (host s)))"
proof -
  from assms(1-3) have "core_accepts os view api lcore queue pop" by (simp add: core_accepts_def)
  from core_calls.call_returns [where sched = sched, OF this assms(4-6), of eval ops c f] show ?thesis .
qed

text \<open>SPDK without a mask: every core has a reactor, and there is one queue.\<close>

definition queue_event :: "ptr list event_api" where
  "queue_event = \<lparr>spdk_env_get_current_core = (\<lambda>_. 0), spdk_env_get_first_core = (\<lambda>_. 0),
     spdk_env_get_last_core = (\<lambda>_. 0), spdk_env_get_core_count = (\<lambda>_. 1),
     spdk_env_get_next_core = (\<lambda>_ _. - 1), spdk_event_allocate = (\<lambda>_ p w. (Suc p, w)),
     spdk_event_call = (\<lambda>e w. w @ [e - 1])\<rparr>"

theorem core_call_block_on_witness:
  "\<exists>s rs r s' n y. call_ops ref_oneshot (core_post queue_event 2) (call_on_async queue_event ref_oneshot 2)
       (event_trampoline ref_oneshot (\<lambda>n. n + 22)) (\<lambda>w. w) tl
       [Call (1 :: nat), Send 2, Serve, Call 3, DropRx 1] (no_closures no_chans [], []) = Some (s, rs) \<and>
     call_on_async queue_event ref_oneshot 2 20 s = Some (Inr r, s') \<and>
     block_on (\<lambda>_. 3) (others_run (\<lambda>k. call_ops ref_oneshot (core_post queue_event 2)
         (call_on_async queue_event ref_oneshot 2) (event_trampoline ref_oneshot (\<lambda>n. n + 22)) (\<lambda>w. w) tl
         [Serve, Send k]))
       (await_call ref_oneshot r) (0, Some (s', rs)) = Some (Returned (Some (Inr (42 :: nat)), n, Some y)) \<and>
     n \<le> Suc (length (host s))"
proof -
  have con: "event_contract queue_event 2 (\<lambda>w. w) tl" by (simp add: event_contract_def queue_event_def)
  have "fst (spdk_event_allocate queue_event 2 p w) \<noteq> null" for p w by (simp add: queue_event_def)
  then show ?thesis
    using core_call_block_on [OF ref_oneshot_spec con, where w = "[]" and sched = "\<lambda>k. [Serve, Send k]"
        and thread = 3 and eval = "\<lambda>n. n + 22" and c = no_chans
        and ops = "[Call 1, Send 2, Serve, Call 3, DropRx 1]" and f = 20] by simp
qed

end
