(* ===== verification/Network.thy ===== *)
theory Network
  imports Thread Event "HOL-Library.Multiset"
begin

text \<open>
  All SPDK threads and cores of a process in one state: messages (\<open>thread.rs\<close>) and events (\<open>event.rs\<close>) in
  their queues, and closures that, while they run, send closures to other threads and cores or to their
  own.
\<close>

section \<open>Targets and closures that send\<close>

datatype target = OnThread ptr | OnCore u32

fun post_to ::
  "'w thread_api \<Rightarrow> 'w event_api \<Rightarrow> target \<Rightarrow> 'f message \<Rightarrow> ('c, 'f, 'w) courier \<Rightarrow> ('c, 'f, 'w) courier" where
  "post_to api eapi (OnThread t) m s = send api (ThreadHandle t) m s"
| "post_to api eapi (OnCore lcore) m s = post_event eapi lcore m s"

definition post_all :: "('t \<Rightarrow> 'm \<Rightarrow> 's \<Rightarrow> 's) \<Rightarrow> ('t \<times> 'm) list \<Rightarrow> 's \<Rightarrow> 's" where
  "post_all post ms s = fold (\<lambda>(t, m). post t m) ms s"

lemma post_all_simps [simp]:
  "post_all post [] s = s"
  "post_all post ((t, m) # ms) s = post_all post ms (post t m s)"
  by (simp_all add: post_all_def)

text \<open>
  The callback of a message or an event whose closure \<open>m\<close> sends \<open>acts m\<close> before it returns: it takes the
  box, calls the closure, and the value is sent. Without sends it is both callbacks of the code.
\<close>

definition acting_callback ::
  "('c, (error, 'a) result) oneshot \<Rightarrow> ('f \<Rightarrow> 'a) \<Rightarrow>
   (target \<Rightarrow> 'f message \<Rightarrow> ('c, 'f, 'w) courier \<Rightarrow> ('c, 'f, 'w) courier) \<Rightarrow>
   ('f message \<Rightarrow> (target \<times> 'f message) list) \<Rightarrow> ptr \<Rightarrow> ('c, 'f, 'w) courier \<Rightarrow>
     ('f message \<times> ('c, 'f, 'w) courier) option" where
  "acting_callback os eval post acts ctx s =
     (case box_from_raw ctx (closures s) of
        None \<Rightarrow> None
      | Some (boxed, h) \<Rightarrow>
          Some (boxed, run_message os eval boxed (post_all post (acts boxed) (s\<lparr>closures := h\<rparr>))))"

lemma acting_callback_plain:
  "map_option snd (acting_callback os eval post (\<lambda>_. []) ctx s) = msg_callback os eval ctx s"
  "map_option snd (acting_callback os eval post (\<lambda>_. []) ctx s) = event_trampoline os eval ctx s"
  by (simp_all add: acting_callback_def msg_callback_def event_trampoline_def split: option.split)

section \<open>Histories\<close>

text \<open>
  A closure is given to a target from outside, or a target serves the head of its queue. The state
  comes with what was sent and what was run so far, each with its target, in the order of time.
\<close>

datatype ('t, 'm) net_op = Give 't 'm | Serve 't

record ('t, 'm, 's) net =
  net_state :: 's
  sent :: "('t \<times> 'm) list"
  ran :: "('t \<times> 'm) list"

fun net_step ::
  "('t \<Rightarrow> 'm \<Rightarrow> 's \<Rightarrow> 's) \<Rightarrow> (ptr \<Rightarrow> 's \<Rightarrow> ('m \<times> 's) option) \<Rightarrow> ('m \<Rightarrow> ('t \<times> 'm) list) \<Rightarrow>
   ('t \<Rightarrow> 's \<Rightarrow> ptr list) \<Rightarrow> ('t \<Rightarrow> 's \<Rightarrow> 's) \<Rightarrow> ('t, 'm) net_op \<Rightarrow> ('t, 'm, 's) net \<Rightarrow> ('t, 'm, 's) net option" where
  "net_step post act acts queue pop (Give t m) N =
     Some (N\<lparr>net_state := post t m (net_state N), sent := sent N @ [(t, m)]\<rparr>)"
| "net_step post act acts queue pop (Serve t) N =
     (case queue t (net_state N) of
        [] \<Rightarrow> Some N
      | p # _ \<Rightarrow>
          (case act p (pop t (net_state N)) of
             None \<Rightarrow> None
           | Some (m, s) \<Rightarrow> Some (N\<lparr>net_state := s, sent := sent N @ acts m, ran := ran N @ [(t, m)]\<rparr>)))"

fun net_run ::
  "('t \<Rightarrow> 'm \<Rightarrow> 's \<Rightarrow> 's) \<Rightarrow> (ptr \<Rightarrow> 's \<Rightarrow> ('m \<times> 's) option) \<Rightarrow> ('m \<Rightarrow> ('t \<times> 'm) list) \<Rightarrow>
   ('t \<Rightarrow> 's \<Rightarrow> ptr list) \<Rightarrow> ('t \<Rightarrow> 's \<Rightarrow> 's) \<Rightarrow> ('t, 'm) net_op list \<Rightarrow> ('t, 'm, 's) net \<Rightarrow>
     ('t, 'm, 's) net option" where
  "net_run post act acts queue pop [] N = Some N"
| "net_run post act acts queue pop (op # ops) N =
     Option.bind (net_step post act acts queue pop op N) (net_run post act acts queue pop ops)"

definition net_start :: "'s \<Rightarrow> ('t, 'm, 's) net" where
  "net_start s = \<lparr>net_state = s, sent = [], ran = []\<rparr>"

text \<open>A schedule of targets, each served once in its turn.\<close>

primrec net_turns ::
  "('t \<Rightarrow> 'm \<Rightarrow> 's \<Rightarrow> 's) \<Rightarrow> (ptr \<Rightarrow> 's \<Rightarrow> ('m \<times> 's) option) \<Rightarrow> ('m \<Rightarrow> ('t \<times> 'm) list) \<Rightarrow>
   ('t \<Rightarrow> 's \<Rightarrow> ptr list) \<Rightarrow> ('t \<Rightarrow> 's \<Rightarrow> 's) \<Rightarrow> (nat \<Rightarrow> 't) \<Rightarrow> nat \<Rightarrow> ('t, 'm, 's) net \<Rightarrow> ('t, 'm, 's) net option" where
  "net_turns post act acts queue pop sched 0 N = Some N"
| "net_turns post act acts queue pop sched (Suc n) N =
     Option.bind (net_turns post act acts queue pop sched n N) (net_step post act acts queue pop (Serve (sched n)))"

text \<open>The part of a history at one target.\<close>

definition at :: "'t \<Rightarrow> ('t \<times> 'm) list \<Rightarrow> 'm list" where
  "at t xs = map snd (filter (\<lambda>x. fst x = t) xs)"

lemma at_simps [simp]:
  "at t [] = []" "at t (xs @ ys) = at t xs @ at t ys"
  "at t ((u, m) # xs) = (if u = t then m # at t xs else at t xs)"
  by (simp_all add: at_def)

lemma count_at: "count (mset xs) (t, m) = count_list (at t xs) m"
proof (induction xs)
  case (Cons x xs)
  then show ?case by (cases x) auto
qed simp

lemma subseq_count: "subseq xs ys \<Longrightarrow> count_list xs m \<le> count_list ys m"
  by (induction rule: list_emb.induct) auto

definition total :: "('m \<Rightarrow> nat) \<Rightarrow> ('t \<times> 'm) list \<Rightarrow> nat" where
  "total weight xs = sum_list (map (weight \<circ> snd) xs)"

lemma total_simps [simp]:
  "total weight [] = 0" "total weight (xs @ ys) = total weight xs + total weight ys"
  "total weight (x # xs) = weight (snd x) + total weight xs"
  by (simp_all add: total_def)

lemma total_mset: "total weight xs = (\<Sum>n \<in># image_mset (weight \<circ> snd) (mset xs). n)"
  by (induction xs) simp_all

lemma sum_mset_subset: "A \<subseteq># B \<Longrightarrow> (\<Sum>n \<in># A. n) \<le> (\<Sum>n \<in># B. n :: nat)"
  by (metis mset_subset_eq_exists_conv le_add1 image_mset_union sum_mset.union)

section \<open>The interface\<close>

text \<open>
  What the targets promise: a closure that is accepted is appended to its own target's queue only, taking
  the head leaves the others alone, and a callback finds the box of its closure, frees it, and posts
  what the closure sends.
\<close>

locale mailboxes =
  fixes post :: "'t \<Rightarrow> 'm \<Rightarrow> 's \<Rightarrow> 's"
    and act :: "ptr \<Rightarrow> 's \<Rightarrow> ('m \<times> 's) option"
    and acts :: "'m \<Rightarrow> ('t \<times> 'm) list"
    and queue :: "'t \<Rightarrow> 's \<Rightarrow> ptr list"
    and pop :: "'t \<Rightarrow> 's \<Rightarrow> 's"
    and live :: "'s \<Rightarrow> ptr \<rightharpoonup> 'm"
    and ok :: "'s \<Rightarrow> bool"
    and accepts :: bool
  assumes post_ok: "ok s \<Longrightarrow> ok (post t m s)"
    and post_queue: "ok s \<Longrightarrow>
      (\<exists>p. live s p = None \<and> live (post t m s) = (live s)(p \<mapsto> m) \<and>
         (\<forall>u. queue u (post t m s) = (if u = t then queue u s @ [p] else queue u s))) \<or>
      (\<not> accepts \<and> live s \<subseteq>\<^sub>m live (post t m s) \<and> (\<forall>u. queue u (post t m s) = queue u s))"
    and pop_laws: "ok s \<Longrightarrow> ok (pop t s) \<and> live (pop t s) = live s \<and>
      (\<forall>u. queue u (pop t s) = (if u = t then tl (queue u s) else queue u s))"
    and act_laws: "ok s \<Longrightarrow> live s p = Some m \<Longrightarrow>
      \<exists>s0 s'. ok s0 \<and> live s0 = (live s)(p := None) \<and> (\<forall>u. queue u s0 = queue u s) \<and>
        act p s = Some (m, s') \<and> ok s' \<and> live s' = live (post_all post (acts m) s0) \<and>
        (\<forall>u. queue u s' = queue u (post_all post (acts m) s0))"
begin

definition queued :: "'t \<Rightarrow> 's \<Rightarrow> 'm list" where
  "queued t s = map (\<lambda>p. the (live s p)) (queue t s)"

definition good :: "'s \<Rightarrow> bool" where
  "good s \<longleftrightarrow> ok s \<and> (\<forall>t. distinct (queue t s) \<and> set (queue t s) \<subseteq> dom (live s)) \<and>
     (\<forall>t u. t \<noteq> u \<longrightarrow> set (queue t s) \<inter> set (queue u s) = {})"

text \<open>What a target has run and has still to run, against what it was sent.\<close>

definition balanced :: "('t, 'm, 's) net \<Rightarrow> bool" where
  "balanced N \<longleftrightarrow> good (net_state N) \<and>
     (\<forall>t. subseq (at t (ran N) @ queued t (net_state N)) (at t (sent N)) \<and>
        (accepts \<longrightarrow> at t (ran N) @ queued t (net_state N) = at t (sent N)))"

lemma post_good:
  assumes "good s"
  shows "good (post t m s)"
    and "u \<noteq> t \<Longrightarrow> queued u (post t m s) = queued u s"
    and "queued t (post t m s) = queued t s @ [m] \<or> \<not> accepts \<and> queued t (post t m s) = queued t s"
proof -
  from assms have s: "ok s" "\<And>t. distinct (queue t s)" "\<And>t. set (queue t s) \<subseteq> dom (live s)"
    "\<And>t u. t \<noteq> u \<Longrightarrow> set (queue t s) \<inter> set (queue u s) = {}" by (simp_all add: good_def)
  have alive: "\<exists>y. live s x = Some y" if "x \<in> set (queue u s)" for u x
    using that s(3) [of u] by auto
  note ok = post_ok [OF s(1), of t m]
  have "good (post t m s) \<and> (u \<noteq> t \<longrightarrow> queued u (post t m s) = queued u s) \<and>
    (queued t (post t m s) = queued t s @ [m] \<or> \<not> accepts \<and> queued t (post t m s) = queued t s)"
    using post_queue [OF s(1), of t m]
  proof
    assume "\<exists>p. live s p = None \<and> live (post t m s) = (live s)(p \<mapsto> m) \<and>
        (\<forall>u. queue u (post t m s) = (if u = t then queue u s @ [p] else queue u s))"
    then obtain p where p: "live s p = None" "live (post t m s) = (live s)(p \<mapsto> m)"
      "\<And>u. queue u (post t m s) = (if u = t then queue u s @ [p] else queue u s)" by blast
    from p(1) s(3) have new: "p \<notin> set (queue u s)" for u by auto
    have "good (post t m s)"
      unfolding good_def p(2,3) using ok new s(2,4) alive by auto
    with p new show ?thesis by (auto simp: queued_def)
  next
    assume n: "\<not> accepts \<and> live s \<subseteq>\<^sub>m live (post t m s) \<and> (\<forall>u. queue u (post t m s) = queue u s)"
    have same: "live (post t m s) p = live s p" if "p \<in> set (queue u s)" for u p
      using n that s(3) [of u] by (force simp: map_le_def)
    moreover have "good (post t m s)"
      unfolding good_def using n ok s(2,4) map_le_implies_dom_le [of "live s" "live (post t m s)"] s(3) by fastforce
    ultimately show ?thesis using n by (auto simp: queued_def)
  qed
  then show "good (post t m s)" "u \<noteq> t \<Longrightarrow> queued u (post t m s) = queued u s"
    "queued t (post t m s) = queued t s @ [m] \<or> \<not> accepts \<and> queued t (post t m s) = queued t s" by blast+
qed

lemma post_all_good:
  assumes "good s"
  shows "good (post_all post ms s) \<and> (\<exists>ks. queued u (post_all post ms s) = queued u s @ ks \<and>
     subseq ks (at u ms) \<and> (accepts \<longrightarrow> ks = at u ms))"
  using assms
proof (induction ms arbitrary: s)
  case Nil
  then show ?case by simp
next
  case (Cons x ms)
  obtain t m where x: "x = (t, m)" by fastforce
  note p = post_good [OF Cons.prems, where t = t and m = m]
  from Cons.IH [OF p(1)] obtain ks where ks: "good (post_all post ms (post t m s))"
    "queued u (post_all post ms (post t m s)) = queued u (post t m s) @ ks"
    "subseq ks (at u ms)" "accepts \<longrightarrow> ks = at u ms" by blast
  consider "u \<noteq> t" | "u = t" "queued t (post t m s) = queued t s @ [m]"
    | "u = t" "\<not> accepts" "queued t (post t m s) = queued t s" using p(3) by blast
  then show ?case
  proof cases
    case 1
    with ks p(2) [OF 1] x show ?thesis by auto
  next
    case 2
    with ks x show ?thesis by (auto intro!: exI [of _ "m # ks"])
  next
    case 3
    with ks x show ?thesis by (auto intro!: exI [of _ ks] list_emb_Cons)
  qed
qed

lemma served:
  assumes "good s" "queue t s = p # ps"
  obtains m s' ks where "act p (pop t s) = Some (m, s')" "good s'" "queued t s = m # map (\<lambda>p. the (live s p)) ps"
    "\<And>u. \<exists>ks. queued u s' = (if u = t then tl (queued u s) else queued u s) @ ks \<and>
      subseq ks (at u (acts m)) \<and> (accepts \<longrightarrow> ks = at u (acts m))"
proof -
  from assms have s: "ok s" "\<And>t. distinct (queue t s)" "\<And>t. set (queue t s) \<subseteq> dom (live s)"
    "\<And>t u. t \<noteq> u \<Longrightarrow> set (queue t s) \<inter> set (queue u s) = {}" by (simp_all add: good_def)
  note pop = pop_laws [OF s(1), of t]
  from s(3) [of t] assms(2) obtain m where m: "live s p = Some m" by auto
  with act_laws [of "pop t s" p m] pop obtain s0 s' where s0: "ok s0" "live s0 = (live s)(p := None)"
    "\<And>u. queue u s0 = (if u = t then tl (queue u s) else queue u s)"
    and s': "act p (pop t s) = Some (m, s')" "ok s'" "live s' = live (post_all post (acts m) s0)"
    "\<And>u. queue u s' = queue u (post_all post (acts m) s0)" by auto
  have out: "p \<notin> set (queue u s0)" for u
    using s(2) [of t] s(4) [of t u] assms(2) s0(3) [of u] by (auto split: if_splits)
  have sub: "set (queue u s0) \<subseteq> set (queue u s)" for u
    using s0(3) [of u] by (cases "queue u s") auto
  have "good s0"
    unfolding good_def
  proof (intro conjI allI impI)
    show "ok s0" by (rule s0(1))
    show "distinct (queue u s0)" for u using s(2) [of u] s0(3) [of u] by (auto simp: distinct_tl)
    show "set (queue u s0) \<subseteq> dom (live s0)" for u using sub [of u] s(3) [of u] out [of u] s0(2) by auto
    show "set (queue u s0) \<inter> set (queue v s0) = {}" if "u \<noteq> v" for u v
      using s(4) [OF that] sub [of u] sub [of v] by blast
  qed
  note posts = post_all_good [OF this, where ms = "acts m"]
  have "queued u s0 = (if u = t then tl (queued u s) else queued u s)" for u
  proof -
    have "map (\<lambda>q. the (live s0 q)) (queue u s0) = map (\<lambda>q. the (live s q)) (queue u s0)"
      using out [of u] s0(2) by (intro map_cong) auto
    then have "queued u s0 = map (\<lambda>q. the (live s q)) (queue u s0)" by (simp only: queued_def)
    then show ?thesis by (simp add: s0(3) queued_def [of _ s] map_tl)
  qed
  with posts have "\<exists>ks. queued u s' = (if u = t then tl (queued u s) else queued u s) @ ks \<and>
      subseq ks (at u (acts m)) \<and> (accepts \<longrightarrow> ks = at u (acts m))" for u
    by (simp add: queued_def s'(3,4))
  moreover have "good s'" using posts [THEN conjunct1] s'(2) by (simp add: good_def s'(3,4))
  ultimately show thesis using that [OF s'(1)] m assms(2) by (simp add: queued_def)
qed

lemma grown:
  assumes "subseq (xs @ ys) zs" "subseq ks ms"
  shows "subseq (xs @ ys @ ks) (zs @ ms)"
  using list_emb_append_mono [OF assms] by simp

lemma step_balanced:
  assumes "balanced N"
  shows "\<exists>N'. net_step post act acts queue pop op N = Some N' \<and> balanced N'"
proof -
  let ?s = "net_state N"
  from assms have g: "good ?s" and b: "\<And>u. subseq (at u (ran N) @ queued u ?s) (at u (sent N))"
    "\<And>u. accepts \<Longrightarrow> at u (ran N) @ queued u ?s = at u (sent N)" unfolding balanced_def by blast+
  show ?thesis
  proof (cases op)
    case (Give t m)
    note p = post_all_good [OF g, of "[(t, m)]", unfolded post_all_simps]
    have "subseq (at u (ran N) @ queued u (post t m ?s)) (at u (sent N @ [(t, m)])) \<and>
        (accepts \<longrightarrow> at u (ran N) @ queued u (post t m ?s) = at u (sent N @ [(t, m)]))" for u
    proof -
      from p [of u] obtain ks where "queued u (post t m ?s) = queued u ?s @ ks" "subseq ks (at u [(t, m)])"
        "accepts \<longrightarrow> ks = at u [(t, m)]" by blast
      with grown [OF b(1) this(2)] b(2) [of u] show ?thesis by (simp flip: append_assoc)
    qed
    with p Give show ?thesis by (simp add: balanced_def)
  next
    case (Serve t)
    show ?thesis
    proof (cases "queue t ?s")
      case Nil
      with assms Serve show ?thesis by simp
    next
      case (Cons p ps)
      show ?thesis
      proof (rule served [OF g Cons])
        fix m s'
        assume s': "act p (pop t ?s) = Some (m, s')" "good s'" "queued t ?s = m # map (\<lambda>p. the (live ?s p)) ps"
          "\<And>u. \<exists>ks. queued u s' = (if u = t then tl (queued u ?s) else queued u ?s) @ ks \<and>
            subseq ks (at u (acts m)) \<and> (accepts \<longrightarrow> ks = at u (acts m))"
        have "subseq (at u (ran N @ [(t, m)]) @ queued u s') (at u (sent N @ acts m)) \<and>
            (accepts \<longrightarrow> at u (ran N @ [(t, m)]) @ queued u s' = at u (sent N @ acts m))" for u
        proof -
          from s'(4) [of u] obtain ks where ks: "queued u s' = (if u = t then tl (queued u ?s) else queued u ?s) @ ks"
            "subseq ks (at u (acts m))" "accepts \<longrightarrow> ks = at u (acts m)" by blast
          have "at u (ran N @ [(t, m)]) @ queued u s' = at u (ran N) @ queued u ?s @ ks"
            using s'(3) ks(1) by auto
          with grown [OF b(1) ks(2)] b(2) [of u] ks(3) show ?thesis by (simp flip: append_assoc)
        qed
        with s'(1,2) Serve Cons show ?thesis by (simp add: balanced_def)
      qed
    qed
  qed
qed

lemma run_balanced:
  assumes "balanced N"
  shows "\<exists>N'. net_run post act acts queue pop ops N = Some N' \<and> balanced N'"
  using assms
proof (induction ops arbitrary: N)
  case (Cons op ops)
  from step_balanced [OF Cons.prems, of op] Cons.IH show ?case by auto
qed simp

section \<open>Every closure is run\<close>

text \<open>
  A weight that bounds how many closures follow from one: those a closure sends weigh less than it does.
\<close>

definition load :: "('m \<Rightarrow> nat) \<Rightarrow> ('t, 'm, 's) net \<Rightarrow> nat" where
  "load weight N = total weight (sent N) - total weight (ran N)"

lemma ran_total:
  assumes "balanced N"
  shows "total weight (ran N) \<le> total weight (sent N)"
proof -
  have "mset (ran N) \<subseteq># mset (sent N)"
  proof (rule mset_subset_eqI)
    fix x :: "'t \<times> 'm"
    obtain t m where x: "x = (t, m)" by fastforce
    from assms have "subseq (at t (ran N) @ queued t (net_state N)) (at t (sent N))"
      unfolding balanced_def by blast
    then have "count_list (at t (ran N) @ queued t (net_state N)) m \<le> count_list (at t (sent N)) m"
      by (rule subseq_count)
    then show "count (mset (ran N)) x \<le> count (mset (sent N)) x" by (simp add: x count_at)
  qed
  then show ?thesis unfolding total_mset by (intro sum_mset_subset) (rule image_mset_subseteq_mono)
qed

lemma serve_load:
  assumes "balanced N" and light: "\<And>m. total weight (acts m) < weight m"
  obtains N' where "net_step post act acts queue pop (Serve t) N = Some N'" "balanced N'"
    "queue t (net_state N) = [] \<and> N' = N \<or>
     load weight N' < load weight N \<and> set (sent N') \<subseteq> set (sent N) \<union> (\<Union>m. set (acts m))"
proof -
  from step_balanced [OF assms(1), of "Serve t"] obtain N' where
    N': "net_step post act acts queue pop (Serve t) N = Some N'" "balanced N'" by blast
  show thesis
  proof (cases "queue t (net_state N)")
    case Nil
    with N' that show thesis by simp
  next
    case (Cons p ps)
    with N'(1) obtain m s where "N' = N\<lparr>net_state := s, sent := sent N @ acts m, ran := ran N @ [(t, m)]\<rparr>"
      by (auto split: option.splits)
    moreover from this ran_total [OF N'(2), of weight] ran_total [OF assms(1), of weight] light [of m]
    have "load weight N' < load weight N" by (simp add: load_def)
    ultimately show thesis using N' by (intro that) auto
  qed
qed

lemma idle_or_lighter:
  assumes "net_turns post act acts queue pop sched n N0 = Some N" "balanced N"
    and light: "\<And>m. total weight (acts m) < weight m"
  shows "\<exists>N'. net_turns post act acts queue pop sched (n + d) N0 = Some N' \<and> balanced N' \<and>
    (N' = N \<or> load weight N' < load weight N \<and> set (sent N') \<subseteq> set (sent N) \<union> (\<Union>m. set (acts m)))"
proof (induction d)
  case 0
  from assms show ?case by simp
next
  case (Suc d)
  then obtain M where M: "net_turns post act acts queue pop sched (n + d) N0 = Some M" "balanced M"
    "M = N \<or> load weight M < load weight N \<and> set (sent M) \<subseteq> set (sent N) \<union> (\<Union>m. set (acts m))" by blast
  from serve_load [OF M(2) light] obtain N' where
    N': "net_step post act acts queue pop (Serve (sched (n + d))) M = Some N'" "balanced N'"
    "N' = M \<or> load weight N' < load weight M \<and> set (sent N') \<subseteq> set (sent M) \<union> (\<Union>m. set (acts m))" by metis
  from N'(3) have "N' = N \<or> load weight N' < load weight N \<and>
      set (sent N') \<subseteq> set (sent N) \<union> (\<Union>m. set (acts m))"
  proof
    assume "load weight N' < load weight M \<and> set (sent N') \<subseteq> set (sent M) \<union> (\<Union>m. set (acts m))"
    with M(3) show ?thesis by (elim disjE conjE) (simp, intro disjI2 conjI, simp, blast)
  qed (use M(3) in simp)
  with M(1) N'(1,2) show ?case by simp
qed

lemma drains:
  assumes accepts and light: "\<And>m. total weight (acts m) < weight m"
    and inside: "\<And>m. fst ` set (acts m) \<subseteq> T" and fair: "\<And>t n. t \<in> T \<Longrightarrow> \<exists>k \<ge> n. sched k = t"
    and "net_turns post act acts queue pop sched n N0 = Some N" "balanced N" "fst ` set (sent N) \<subseteq> T"
  shows "\<exists>n N. net_turns post act acts queue pop sched n N0 = Some N \<and> balanced N \<and>
    (\<forall>t. queue t (net_state N) = [])"
  using assms(5-)
proof (induction "load weight N" arbitrary: n N rule: less_induct)
  case less
  show ?case
  proof (cases "\<forall>t. queue t (net_state N) = []")
    case True
    with less.prems show ?thesis by blast
  next
    case False
    then obtain t where t: "queue t (net_state N) \<noteq> []" by blast
    from less.prems(2) \<open>accepts\<close> have "at t (ran N) @ queued t (net_state N) = at t (sent N)"
      unfolding balanced_def by blast
    with t have "at t (sent N) \<noteq> []" by (auto simp: queued_def)
    then have "t \<in> fst ` set (sent N)" by (auto simp: at_def filter_empty_conv)
    with less.prems(3) fair obtain d where d: "sched (n + d) = t" by (metis subsetD le_iff_add)
    from idle_or_lighter [OF less.prems(1,2) light, of d] obtain M where
      M: "net_turns post act acts queue pop sched (n + d) N0 = Some M" "balanced M"
      "M = N \<or> load weight M < load weight N \<and> set (sent M) \<subseteq> set (sent N) \<union> (\<Union>m. set (acts m))" by blast
    from serve_load [OF M(2) light] obtain N' where
      N': "net_step post act acts queue pop (Serve t) M = Some N'" "balanced N'"
      "queue t (net_state M) = [] \<and> N' = M \<or>
       load weight N' < load weight M \<and> set (sent N') \<subseteq> set (sent M) \<union> (\<Union>m. set (acts m))" by metis
    have lighter: "load weight N' < load weight M" "set (sent N') \<subseteq> set (sent M) \<union> (\<Union>m. set (acts m))"
      if "M = N" using N'(3) t that by simp_all
    have le: "load weight N' \<le> load weight M" "set (sent N') \<subseteq> set (sent M) \<union> (\<Union>m. set (acts m))"
      using N'(3) by (elim disjE conjE; simp)+
    have "load weight N' < load weight N"
      using M(3) lighter(1) le(1) by (cases "M = N") (simp, linarith)
    moreover have "net_turns post act acts queue pop sched (Suc (n + d)) N0 = Some N'"
      using M(1) N'(1) d by simp
    moreover have "set (sent N') \<subseteq> set (sent N) \<union> (\<Union>m. set (acts m))" using M(3) le(2) by blast
    from image_mono [OF this, of fst] have "fst ` set (sent N') \<subseteq> T"
      using less.prems(3) inside by (simp only: image_Un image_UN) (meson UN_least Un_least order_trans)
    ultimately show ?thesis using less.hyps [of N' "Suc (n + d)"] N'(2) by blast
  qed
qed

end

section \<open>Threads and cores\<close>

text \<open>
  SPDK's documentation, for all threads and cores: a message accepted (return code 0) and an event made
  and called are appended to the queue of their own thread or core.
\<close>

definition network_contract ::
  "'w thread_api \<Rightarrow> 'w event_api \<Rightarrow> (target \<Rightarrow> 'w \<Rightarrow> ptr list) \<Rightarrow> (target \<Rightarrow> 'w \<Rightarrow> 'w) \<Rightarrow> bool" where
  "network_contract api eapi queue pop \<longleftrightarrow>
     (\<forall>t p w rc w'. spdk_thread_send_msg api t p w = (rc, w') \<longrightarrow>
        (\<forall>u. queue u w' = (if u = OnThread t \<and> rc = 0 then queue u w @ [p] else queue u w))) \<and>
     (\<forall>c p w e w'. spdk_event_allocate eapi c p w = (e, w') \<longrightarrow> (\<forall>u. queue u w' = queue u w) \<and>
        (e \<noteq> null \<longrightarrow> (\<forall>u. queue u (spdk_event_call eapi e w') =
           (if u = OnCore c then queue u w @ [p] else queue u w)))) \<and>
     (\<forall>t w u. queue u (pop t w) = (if u = t then tl (queue u w) else queue u w))"

definition nothing_refused :: "'w thread_api \<Rightarrow> 'w event_api \<Rightarrow> bool" where
  "nothing_refused api eapi \<longleftrightarrow> (\<forall>t p w. fst (spdk_thread_send_msg api t p w) = 0) \<and>
     (\<forall>c p w. fst (spdk_event_allocate eapi c p w) \<noteq> null)"

lemma network_contractD:
  assumes "network_contract api eapi queue pop"
  shows "spdk_thread_send_msg api t p w = (rc, w') \<Longrightarrow>
      queue u w' = (if u = OnThread t \<and> rc = 0 then queue u w @ [p] else queue u w)"
    and "spdk_event_allocate eapi c p w = (e, w') \<Longrightarrow> queue u w' = queue u w"
    and "spdk_event_allocate eapi c p w = (e, w') \<Longrightarrow> e \<noteq> null \<Longrightarrow> queue u (spdk_event_call eapi e w') =
      (if u = OnCore c then queue u w @ [p] else queue u w)"
    and "queue u (pop v w) = (if u = v then tl (queue u w) else queue u w)"
  using assms unfolding network_contract_def by fast+

lemma post_to_cases:
  assumes con: "network_contract api eapi queue pop" and ok: "boxes_ok (closures s)"
  shows "boxes_ok (closures (post_to api eapi t m s)) \<and>
     ((\<exists>p. cells (closures s) p = None \<and> cells (closures (post_to api eapi t m s)) = (cells (closures s))(p \<mapsto> m) \<and>
         (\<forall>u. queue u (host (post_to api eapi t m s)) = (if u = t then queue u (host s) @ [p] else queue u (host s)))) \<or>
      (\<not> nothing_refused api eapi \<and> cells (closures s) \<subseteq>\<^sub>m cells (closures (post_to api eapi t m s)) \<and>
         (\<forall>u. queue u (host (post_to api eapi t m s)) = queue u (host s))))"
proof -
  obtain p h where p: "box_into_raw m (closures s) = (p, h)" by fastforce
  note h = box.into_contents [OF p] box.into_fresh [OF ok p] box.into_ok [OF ok p]
  show ?thesis
  proof (cases t)
    case (OnThread th)
    obtain rc w where w: "spdk_thread_send_msg api th p (host s) = (rc, w)" by fastforce
    have eq: "post_to api eapi t m s = s\<lparr>closures := h, host := w\<rparr>"
      using p w OnThread by (simp add: send_def)
    show ?thesis
    proof (cases "rc = 0")
      case True
      with h network_contractD(1) [OF con w] OnThread show ?thesis
        unfolding eq by (intro conjI disjI1 exI [of _ p]) simp_all
    next
      case False
      with w have "\<not> nothing_refused api eapi" unfolding nothing_refused_def by (metis fst_conv)
      with False h network_contractD(1) [OF con w] show ?thesis
        unfolding eq by (intro conjI disjI2) (auto simp: map_le_def)
    qed
  next
    case (OnCore c)
    obtain e w where e: "spdk_event_allocate eapi c p (host s) = (e, w)" by fastforce
    note on = call_on_eq [OF ok p e] and law = network_contractD(2,3) [OF con e]
    show ?thesis
    proof (cases "e = null")
      case True
      with on(1) obtain h' where h': "post_to api eapi t m s = s\<lparr>host := w, closures := h'\<rparr>" "boxes_ok h'"
        "cells h' = cells (closures s)" using OnCore by (auto simp: post_event_def)
      from True e have "\<not> nothing_refused api eapi" unfolding nothing_refused_def by (metis fst_conv)
      with h' law(1) show ?thesis by simp
    next
      case False
      with on(2) OnCore have "post_to api eapi t m s = s\<lparr>closures := h, host := spdk_event_call eapi e w\<rparr>"
        by (simp add: post_event_def)
      with h law(2) [OF False] OnCore show ?thesis
        by (simp only:) (intro conjI disjI1 exI [of _ p]; simp)
    qed
  qed
qed

lemma post_all_ok:
  "network_contract api eapi queue pop \<Longrightarrow> boxes_ok (closures s) \<Longrightarrow>
     boxes_ok (closures (post_all (post_to api eapi) ms s))"
proof (induction ms arbitrary: s)
  case (Cons x ms)
  from post_to_cases [OF Cons.prems, of "fst x" "snd x"] Cons.IH [OF Cons.prems(1)] show ?case
    by (cases x) simp
qed simp

interpretation network: mailboxes "post_to api eapi" "acting_callback os eval (post_to api eapi) acts" acts
    "\<lambda>t s. queue t (host s)" "\<lambda>t s. s\<lparr>host := pop t (host s)\<rparr>" "\<lambda>s. cells (closures s)"
    "\<lambda>s. boxes_ok (closures s) \<and> network_contract api eapi queue pop" "nothing_refused api eapi"
  for api :: "'w thread_api" and eapi queue pop
    and os :: "('c, (error, 'a) result) oneshot" and eval :: "'f \<Rightarrow> 'a" and acts
proof
  fix s :: "('c, 'f, 'w) courier" and t and m :: "'f message" and p
  assume ok: "boxes_ok (closures s) \<and> network_contract api eapi queue pop"
  note post = post_to_cases [OF conjunct2 [OF ok] conjunct1 [OF ok], of t m]
  show "boxes_ok (closures (post_to api eapi t m s)) \<and> network_contract api eapi queue pop"
    using post ok by blast
  show "(\<exists>p. cells (closures s) p = None \<and> cells (closures (post_to api eapi t m s)) = (cells (closures s))(p \<mapsto> m) \<and>
         (\<forall>u. queue u (host (post_to api eapi t m s)) = (if u = t then queue u (host s) @ [p] else queue u (host s)))) \<or>
      (\<not> nothing_refused api eapi \<and> cells (closures s) \<subseteq>\<^sub>m cells (closures (post_to api eapi t m s)) \<and>
         (\<forall>u. queue u (host (post_to api eapi t m s)) = queue u (host s)))"
    using post by blast
  show "(boxes_ok (closures (s\<lparr>host := pop t (host s)\<rparr>)) \<and> network_contract api eapi queue pop) \<and>
      cells (closures (s\<lparr>host := pop t (host s)\<rparr>)) = cells (closures s) \<and>
      (\<forall>u. queue u (host (s\<lparr>host := pop t (host s)\<rparr>)) = (if u = t then tl (queue u (host s)) else queue u (host s)))"
    using ok network_contractD(4) [OF conjunct2 [OF ok]] by simp
next
  fix s :: "('c, 'f, 'w) courier" and m :: "'f message" and p
  assume ok: "boxes_ok (closures s) \<and> network_contract api eapi queue pop" and p: "cells (closures s) p = Some m"
  from box.from_Some [OF p] obtain h where h: "box_from_raw p (closures s) = Some (m, h)"
    "cells h = (cells (closures s))(p := None)" by blast
  let ?s0 = "s\<lparr>closures := h\<rparr>"
  let ?s' = "run_message os eval m (post_all (post_to api eapi) (acts m) ?s0)"
  from box.from_ok [OF conjunct1 [OF ok] h(1)] have "boxes_ok (closures ?s0)" by simp
  from this post_all_ok [OF conjunct2 [OF ok] this, of "acts m"] have "boxes_ok (closures ?s0)" "boxes_ok (closures ?s')"
    by simp_all
  then show "\<exists>(s0 :: ('c, 'f, 'w) courier) s'. (boxes_ok (closures s0) \<and> network_contract api eapi queue pop) \<and>
      cells (closures s0) = (cells (closures s))(p := None) \<and> (\<forall>u. queue u (host s0) = queue u (host s)) \<and>
      acting_callback os eval (post_to api eapi) acts p s = Some (m, s') \<and>
      (boxes_ok (closures s') \<and> network_contract api eapi queue pop) \<and>
      cells (closures s') = cells (closures (post_all (post_to api eapi) (acts m) s0)) \<and>
      (\<forall>u. queue u (host s') = queue u (host (post_all (post_to api eapi) (acts m) s0)))"
    using h ok by (intro exI [of _ ?s0] exI [of _ ?s'] conjI) (simp_all add: acting_callback_def)
qed

section \<open>Properties\<close>

abbreviation network_run where
  "network_run api eapi os eval acts queue pop \<equiv> net_run (post_to api eapi)
     (acting_callback os eval (post_to api eapi) acts) acts (\<lambda>t s. queue t (host s)) (\<lambda>t s. s\<lparr>host := pop t (host s)\<rparr>)"

abbreviation network_turns where
  "network_turns api eapi os eval acts queue pop \<equiv> net_turns (post_to api eapi)
     (acting_callback os eval (post_to api eapi) acts) acts (\<lambda>t s. queue t (host s)) (\<lambda>t s. s\<lparr>host := pop t (host s)\<rparr>)"

lemma network_start_balanced:
  assumes "network_contract api eapi queue pop" "\<And>t. queue t w = []"
  shows "network.balanced queue api eapi pop (net_start (no_closures c w))"
  using assms
  unfolding network.balanced_def network.good_def network.queued_def by (simp add: net_start_def no_closures_def)

text \<open>The log of the process is the history of the closures run.\<close>

lemma post_to_executed:
  assumes "boxes_ok (closures s)"
  shows "executed (post_to api eapi t m s) = executed s"
proof (cases t)
  case (OnCore c)
  obtain p h where p: "box_into_raw m (closures s) = (p, h)" by fastforce
  obtain e w where e: "spdk_event_allocate eapi c p (host s) = (e, w)" by fastforce
  from call_on_eq [OF assms p e] OnCore show ?thesis by (cases "e = null") (auto simp: post_event_def)
qed (simp add: send_def split: prod.split)

lemma post_all_executed:
  assumes "network_contract api eapi queue pop" "boxes_ok (closures s)"
  shows "executed (post_all (post_to api eapi) ms s) = executed s"
  using assms(2)
proof (induction ms arbitrary: s)
  case (Cons x ms)
  from post_to_cases [OF assms(1) Cons.prems, of "fst x" "snd x"] Cons.IH post_to_executed [OF Cons.prems] show ?case
    by (cases x) simp
qed simp

lemma run_executed:
  assumes con: "network_contract api eapi queue pop"
    and "network_run api eapi os eval acts queue pop ops N = Some N'"
    and "network.balanced queue api eapi pop N" "executed (net_state N) = map snd (ran N)"
  shows "executed (net_state N') = map snd (ran N')"
  using assms(2-)
proof (induction ops arbitrary: N)
  case (Cons op ops)
  let ?step = "net_step (post_to api eapi) (acting_callback os eval (post_to api eapi) acts) acts
    (\<lambda>t s. queue t (host s)) (\<lambda>t s. s\<lparr>host := pop t (host s)\<rparr>)"
  from Cons.prems(2) have ok: "boxes_ok (closures (net_state N))"
    unfolding network.balanced_def network.good_def by blast
  from network.step_balanced [where op = op and os = os and eval = eval and acts = acts, OF Cons.prems(2)] obtain M where
    M: "?step op N = Some M" "network.balanced queue api eapi pop M" by blast
  have "executed (net_state M) = map snd (ran M)"
  proof (cases op)
    case (Give t m)
    with M(1) Cons.prems(3) post_to_executed [OF ok] show ?thesis by auto
  next
    case (Serve t)
    have "executed (post_all (post_to api eapi) ms ((net_state N)\<lparr>host := x, closures := h\<rparr>)) = executed (net_state N)"
      if "box_from_raw p (closures (net_state N)) = Some (v, h)" for p v h ms x
      using post_all_executed [OF con, of "(net_state N)\<lparr>host := x, closures := h\<rparr>"] box.from_ok [OF ok that] by simp
    with Serve M(1) Cons.prems(3) show ?thesis
      by (auto simp: acting_callback_def split: list.splits option.splits)
  qed
  with Cons.IH [OF _ M(2)] Cons.prems(1) M(1) show ?case by simp
qed simp

text \<open>
  Functions that fulfil the contract: the state is the queues, and the events made, numbered from 1. The
  closure \<open>n\<close>, as long as it is not 0, sends the closure \<open>n - 1\<close>, by turns to core 0 and to thread 5.
\<close>

type_synonym mail = "(target \<Rightarrow> ptr list) \<times> (u32 \<times> ptr) list"

definition mail_to :: "target \<Rightarrow> ptr \<Rightarrow> mail \<Rightarrow> mail" where
  "mail_to t p w = ((fst w)(t := fst w t @ [p]), snd w)"

definition mail_thread :: "mail thread_api" where
  "mail_thread = still_thread\<lparr>spdk_thread_send_msg := (\<lambda>t p w. (0, mail_to (OnThread t) p w))\<rparr>"

definition mail_event :: "mail event_api" where
  "mail_event = \<lparr>spdk_env_get_current_core = (\<lambda>_. 0), spdk_env_get_first_core = (\<lambda>_. 0),
     spdk_env_get_last_core = (\<lambda>_. 0), spdk_env_get_core_count = (\<lambda>_. 1),
     spdk_env_get_next_core = (\<lambda>_ _. - 1),
     spdk_event_allocate = (\<lambda>c p w. (Suc (length (snd w)), (fst w, snd w @ [(c, p)]))),
     spdk_event_call = (\<lambda>e w. case snd w ! (e - 1) of (c, p) \<Rightarrow> mail_to (OnCore c) p w)\<rparr>"

definition mail_queue :: "target \<Rightarrow> mail \<Rightarrow> ptr list" where
  "mail_queue t w = fst w t"

definition mail_pop :: "target \<Rightarrow> mail \<Rightarrow> mail" where
  "mail_pop t w = ((fst w)(t := tl (fst w t)), snd w)"

fun ping_pong :: "nat message \<Rightarrow> (target \<times> nat message) list" where
  "ping_pong (Run n) = (if n = 0 then [] else [(if even n then OnCore 0 else OnThread 5, Run (n - 1))])"
| "ping_pong (RunAndSend n t) = []"

lemma mail_contract:
  "network_contract mail_thread mail_event mail_queue mail_pop" "nothing_refused mail_thread mail_event"
  "mail_queue t (\<lambda>_. [], []) = []"
  by (auto simp: network_contract_def nothing_refused_def mail_thread_def still_thread_def mail_event_def
      mail_queue_def mail_pop_def mail_to_def split: prod.splits)

text \<open>
  C13: Whatever closures are sent to the threads and cores of a process, from outside or by closures while
  they run, and in whatever order the targets serve their queues: every delivery finds its closure, no
  closure runs twice, and each target runs, in order, the closures sent to it, followed by those still
  queued; some may be missing only if SPDK refused them. The log is what was run.
\<close>

theorem network_fifo:
  assumes "network_contract api eapi queue pop" "\<And>t. queue t w = []"
  shows "\<exists>N. network_run api eapi os eval acts queue pop ops (net_start (no_closures c w)) = Some N \<and>
     executed (net_state N) = map snd (ran N) \<and>
     (\<forall>t. let done_and_queued = at t (ran N) @
             map (\<lambda>p. the (cells (closures (net_state N)) p)) (queue t (host (net_state N)))
          in subseq done_and_queued (at t (sent N)) \<and>
             (nothing_refused api eapi \<longrightarrow> done_and_queued = at t (sent N)))"
proof -
  note start = network_start_balanced [OF assms, of c]
  from network.run_balanced [where ops = ops and os = os and eval = eval and acts = acts, OF start] obtain N where
    N: "network_run api eapi os eval acts queue pop ops (net_start (no_closures c w)) = Some N"
    "network.balanced queue api eapi pop N" by blast
  have "executed (net_state N) = map snd (ran N)"
    by (rule run_executed [OF assms(1) N(1) start]) (simp add: net_start_def no_closures_def)
  with N show ?thesis
    unfolding network.balanced_def network.queued_def Let_def by blast
qed

theorem network_fifo_witness:
  "\<exists>N. network_run mail_thread mail_event ref_oneshot (\<lambda>n. n) ping_pong mail_queue mail_pop
       [Give (OnThread 5) (Run 2), Give (OnThread 7) (Run 0), Serve (OnThread 5), Serve (OnCore 0)]
       (net_start (no_closures no_chans (\<lambda>_. [], []))) = Some N \<and>
     at (OnCore 0) (ran N) @ map (\<lambda>p. the (cells (closures (net_state N)) p)) (mail_queue (OnCore 0) (host (net_state N))) =
       at (OnCore 0) (sent N)"
  using network_fifo [OF mail_contract(1,3), where os = ref_oneshot and eval = "\<lambda>n. n" and acts = ping_pong
      and c = no_chans and ops = "[Give (OnThread 5) (Run 2), Give (OnThread 7) (Run 0), Serve (OnThread 5), Serve (OnCore 0)]"]
    mail_contract(2) unfolding Let_def by blast

text \<open>
  C14: If SPDK refuses nothing and closures only send lighter ones, every closure sent is run in the end: on
  any schedule that comes back to every target in use, there is a moment at which all queues are empty
  and each target has run exactly what was sent to it.
\<close>

theorem network_drains:
  assumes "network_contract api eapi queue pop" "\<And>t. queue t w = []" "nothing_refused api eapi"
    and "network_run api eapi os eval acts queue pop ops (net_start (no_closures c w)) = Some N"
    and "fst ` set (sent N) \<subseteq> T" "\<And>m. fst ` set (acts m) \<subseteq> T" "\<And>m. total weight (acts m) < weight m"
    and "\<And>t n. t \<in> T \<Longrightarrow> \<exists>k \<ge> n. sched k = t"
  shows "\<exists>n M. network_turns api eapi os eval acts queue pop sched n N = Some M \<and>
     (\<forall>t. queue t (host (net_state M)) = [] \<and> at t (ran M) = at t (sent M))"
proof -
  from network.run_balanced [where ops = ops and os = os and eval = eval and acts = acts, OF network_start_balanced [OF assms(1,2), of c]] assms(4)
  have "network.balanced queue api eapi pop N" by simp
  from network.drains [where n = 0 and os = os and eval = eval, OF assms(3,7,6,8) _ this assms(5)] obtain n M where
    M: "network_turns api eapi os eval acts queue pop sched n N = Some M" "network.balanced queue api eapi pop M"
    "\<forall>t. queue t (host (net_state M)) = []" by auto
  with assms(3) have "at t (ran M) = at t (sent M)" for t
    unfolding network.balanced_def network.queued_def by simp
  with M show ?thesis by blast
qed

theorem network_drains_witness:
  "\<exists>N n M. network_run mail_thread mail_event ref_oneshot (\<lambda>n. n) ping_pong mail_queue mail_pop
       [Give (OnThread 5) (Run 3)] (net_start (no_closures no_chans (\<lambda>_. [], []))) = Some N \<and>
     network_turns mail_thread mail_event ref_oneshot (\<lambda>n. n) ping_pong mail_queue mail_pop
       (\<lambda>n. if even n then OnThread 5 else OnCore 0) n N = Some M \<and>
     (\<forall>t. mail_queue t (host (net_state M)) = [] \<and> at t (ran M) = at t (sent M))"
proof -
  let ?start = "net_start (no_closures no_chans (\<lambda>_. [], [])) :: (target, nat message, ((error, nat) result chan_store, nat, mail) courier) net"
  let ?T = "{OnThread 5, OnCore 0}" and ?w = "\<lambda>m. case m of Run n \<Rightarrow> Suc n | RunAndSend n t \<Rightarrow> 1"
  obtain N where N: "network_run mail_thread mail_event ref_oneshot (\<lambda>n. n) ping_pong mail_queue mail_pop
      [Give (OnThread 5) (Run 3)] ?start = Some N" "sent N = [(OnThread 5, Run 3)]"
    by (simp add: net_start_def)
  have "\<exists>k \<ge> n. (if even k then OnThread 5 else OnCore 0) = t" if "t \<in> ?T" for t and n :: nat
  proof (cases "t = OnThread 5")
    case True
    then show ?thesis by (intro exI [of _ "2 * n"]) simp
  next
    case False
    with that show ?thesis by (intro exI [of _ "Suc (2 * n)"]) simp
  qed
  moreover have "fst ` set (ping_pong m) \<subseteq> ?T" "total ?w (ping_pong m) < ?w m" for m
    by (cases m; simp)+
  ultimately show ?thesis
    using network_drains [OF mail_contract(1,3,2) N(1), of ?T ?w] N by simp
qed

end
