(* ===== verification/Lifecycle.thy ===== *)
theory Lifecycle
  imports Thread_Correct App
begin

text \<open>
  Whole runs of the operations that bring SPDK up and down: threads made and dropped against the thread
  library (\<open>thread.rs\<close>), environments built and dropped (\<open>env.rs\<close>), and
  what an application (\<open>app.rs\<close>) leaves behind. A state is the process with
  what the program owns; the operations are those of the components, in any order the types allow.
\<close>

section \<open>Threads and the thread library\<close>

text \<open>
  SPDK's side: \<open>up\<close> tells whether the thread library is initialised, \<open>alive\<close> is the set of its threads.
  The number of threads fits its counter.
\<close>

definition thread_contract :: "'w thread_api \<Rightarrow> ('w \<Rightarrow> bool) \<Rightarrow> ('w \<Rightarrow> ptr set) \<Rightarrow> bool" where
  "thread_contract api up alive \<longleftrightarrow>
     (\<forall>w rc w' n. spdk_thread_lib_init api w = (rc, w') \<or> spdk_thread_lib_init_ext api n w = (rc, w') \<longrightarrow>
        alive w' = alive w \<and> up w' = (if rc = 0 then True else up w)) \<and>
     (\<forall>w. alive (spdk_thread_lib_fini api w) = alive w \<and> \<not> up (spdk_thread_lib_fini api w)) \<and>
     (\<forall>w name p w'. spdk_thread_create api name w = (p, w') \<longrightarrow> up w' = up w \<and>
        (if p = null then alive w' = alive w else p \<notin> alive w \<and> alive w' = insert p (alive w))) \<and>
     (\<forall>w p. alive (spdk_thread_destroy api p w) = alive w - {p} \<and>
        up (spdk_thread_destroy api p w) = up w) \<and>
     (\<forall>w p. alive (spdk_set_thread api p w) = alive w \<and> up (spdk_set_thread api p w) = up w) \<and>
     (\<forall>w p. alive (spdk_thread_exit api p w) = alive w \<and> up (spdk_thread_exit api p w) = up w) \<and>
     (\<forall>w p n t. alive (snd (spdk_thread_poll api p n t w)) = alive w \<and>
        up (snd (spdk_thread_poll api p n t w)) = up w) \<and>
     (\<forall>w. finite (alive w) \<longrightarrow> (spdk_thread_get_count api w = 0 \<longleftrightarrow> alive w = {}))"

lemma thread_contractD:
  assumes "thread_contract api up alive"
  shows init_contract: "spdk_thread_lib_init api w = (rc, w') \<Longrightarrow>
      alive w' = alive w \<and> up w' = (if rc = 0 then True else up w)"
    and init_ext_contract: "spdk_thread_lib_init_ext api n w = (rc, w') \<Longrightarrow>
      alive w' = alive w \<and> up w' = (if rc = 0 then True else up w)"
    and fini_contract: "alive (spdk_thread_lib_fini api w) = alive w" "\<not> up (spdk_thread_lib_fini api w)"
    and create_contract: "spdk_thread_create api name w = (p, w') \<Longrightarrow> up w' = up w \<and>
      (if p = null then alive w' = alive w else p \<notin> alive w \<and> alive w' = insert p (alive w))"
    and destroy_contract: "alive (spdk_thread_destroy api p w) = alive w - {p}"
      "up (spdk_thread_destroy api p w) = up w"
    and set_contract: "alive (spdk_set_thread api p w) = alive w" "up (spdk_set_thread api p w) = up w"
    and exit_contract: "alive (spdk_thread_exit api p w) = alive w" "up (spdk_thread_exit api p w) = up w"
    and poll_contract: "alive (snd (spdk_thread_poll api p k t w)) = alive w"
      "up (snd (spdk_thread_poll api p k t w)) = up w"
    and count_contract: "finite (alive w) \<Longrightarrow> spdk_thread_get_count api w = 0 \<longleftrightarrow> alive w = {}"
  using assms unfolding thread_contract_def by metis+

text \<open>
  The operations of a program on its threads. \<open>attach\<close> is for a library that is already initialised; a
  thread is polled and dropped by its owner.
\<close>

inductive thread_run :: "'w thread_api \<Rightarrow> 'w process \<Rightarrow> ptr set \<Rightarrow> 'w process \<Rightarrow> ptr set \<Rightarrow> bool"
  for api :: "'w thread_api" and s0 :: "'w process" and O0 :: "ptr set"
where
  start: "thread_run api s0 O0 s0 O0"
| made: "thread_run api s0 O0 s X \<Longrightarrow>
     current api name s = (Inr t, s') \<or> current_with_mempool_size api name n s = (Inr t, s') \<or>
     THREAD_LIB_INITIALIZED s \<and> attach api name s = (Inr t, s') \<Longrightarrow>
     thread_run api s0 O0 s' (insert (thread_ptr t) X)"
| not_made: "thread_run api s0 O0 s X \<Longrightarrow>
     current api name s = (Inl e, s') \<or> current_with_mempool_size api name n s = (Inl e, s') \<or>
     THREAD_LIB_INITIALIZED s \<and> attach api name s = (Inl e, s') \<Longrightarrow>
     thread_run api s0 O0 s' X"
| polled: "thread_run api s0 O0 s X \<Longrightarrow> p \<in> X \<Longrightarrow> poll_max api (SpdkThread p) k s = (rc, s') \<Longrightarrow>
     thread_run api s0 O0 s' X"
| dropped: "thread_run api s0 O0 s X \<Longrightarrow> p \<in> X \<Longrightarrow> thread_drop api (SpdkThread p) s = Some s' \<Longrightarrow>
     thread_run api s0 O0 s' (X - {p})"

definition thread_life :: "('w \<Rightarrow> bool) \<Rightarrow> ('w \<Rightarrow> ptr set) \<Rightarrow> 'w process \<Rightarrow> ptr set \<Rightarrow> bool" where
  "thread_life up alive s X \<longleftrightarrow> finite X \<and> alive (spdk s) = X \<and>
     (THREAD_LIB_INITIALIZED s \<longleftrightarrow> up (spdk s)) \<and> (X \<noteq> {} \<longrightarrow> up (spdk s))"

lemma attach_life:
  assumes con: "thread_contract api up alive" and "thread_life up alive s X" "THREAD_LIB_INITIALIZED s"
    and "attach api name s = (r, s')"
  shows "thread_life up alive s' (case r of Inr t \<Rightarrow> insert (thread_ptr t) X | Inl _ \<Rightarrow> X)"
  using assms(2-)
  by (auto simp: attach_def call_def exec_def thread_life_def nonnull_def set_contract [OF con]
      split: sum.splits prod.splits if_splits dest: create_contract [OF con])

lemma init_life:
  assumes con: "thread_contract api up alive" and "thread_life up alive s X"
    and "thread_lib_init api s = (r, s') \<or> thread_lib_init_ext api n s = (r, s')"
  shows "thread_life up alive s' X" "r = Inr () \<Longrightarrow> THREAD_LIB_INITIALIZED s'"
  using assms(2,3)
  by (auto simp: thread_life_def
      elim!: lib_init.init_cases lib_init_ext.init_cases
      dest!: init_contract [OF con] init_ext_contract [OF con])

lemma init_attach_life:
  assumes con: "thread_contract api up alive" and "thread_life up alive s X"
    and "thread_lib_init api s = (i, s1) \<or> thread_lib_init_ext api n s = (i, s1)"
    and "(r, s') = (case i of Inl e \<Rightarrow> (Inl e, s1) | Inr _ \<Rightarrow> attach api name s1)"
  shows "thread_life up alive s' (case r of Inr t \<Rightarrow> insert (thread_ptr t) X | Inl _ \<Rightarrow> X)"
proof -
  note * = init_life [OF con assms(2,3)]
  show ?thesis
  proof (cases i)
    case (Inl e)
    with assms(4) * show ?thesis by simp
  next
    case (Inr u)
    with assms(4) * attach_life [OF con *(1), of name r s'] show ?thesis by simp
  qed
qed

lemma current_life:
  assumes con: "thread_contract api up alive" and life: "thread_life up alive s X"
    and "current api name s = (r, s') \<or> current_with_mempool_size api name n s = (r, s')"
  shows "thread_life up alive s' (case r of Inr t \<Rightarrow> insert (thread_ptr t) X | Inl _ \<Rightarrow> X)"
  using assms(3)
proof
  assume "current api name s = (r, s')"
  moreover obtain i s1 where i: "thread_lib_init api s = (i, s1)" by fastforce
  ultimately have "(r, s') = (case i of Inl e \<Rightarrow> (Inl e, s1) | Inr _ \<Rightarrow> attach api name s1)"
    by (simp add: current_def split: sum.splits)
  with init_attach_life [OF con life disjI1 [OF i]] show ?thesis by blast
next
  assume "current_with_mempool_size api name n s = (r, s')"
  moreover obtain i s1 where i: "thread_lib_init_ext api n s = (i, s1)" by fastforce
  ultimately have "(r, s') = (case i of Inl e \<Rightarrow> (Inl e, s1) | Inr _ \<Rightarrow> attach api name s1)"
    by (cases i) (simp_all add: current_with_mempool_size_def attach_def)
  with init_attach_life [OF con life disjI2 [OF i]] show ?thesis by blast
qed

lemma exit_loop_keeps:
  assumes con: "thread_contract api up alive" and "exit_loop api p s = Some s'"
  shows "alive (spdk s') = alive (spdk s) \<and> up (spdk s') = up (spdk s) \<and>
     THREAD_LIB_INITIALIZED s' = THREAD_LIB_INITIALIZED s"
proof -
  let ?P = "\<lambda>t. alive (spdk t) = alive (spdk s) \<and> up (spdk t) = up (spdk s) \<and>
    THREAD_LIB_INITIALIZED t = THREAD_LIB_INITIALIZED s"
  have "?P (snd (call (spdk_thread_poll api p 0 0) t))" if "?P t" for t
    using that by (simp add: call_snd poll_contract [OF con])
  then show ?thesis
    using while_option_rule [where P = ?P, OF _ assms(2) [unfolded exit_loop_def]] by blast
qed

lemma drop_life:
  assumes con: "thread_contract api up alive" and "thread_life up alive s X" "p \<in> X"
    and "thread_drop api (SpdkThread p) s = Some s'"
  shows "thread_life up alive s' (X - {p})" "X = {p} \<Longrightarrow> \<not> up (spdk s')"
proof -
  from assms(4) obtain s1 where s1: "exit_loop api p (exec (spdk_thread_exit api p) s) = Some s1"
    and s': "s' = (let s = exec (spdk_thread_destroy api p) (exec (spdk_set_thread api null) s1)
      in if thread_count api s = 0 then thread_lib_fini api s else s)"
    by (auto simp: thread_drop_def Let_def split: option.splits)
  from exit_loop_keeps [OF con s1] assms(2) have keep: "alive (spdk s1) = X" "up (spdk s1)" "finite X"
    "THREAD_LIB_INITIALIZED s1" using assms(3)
    by (auto simp: thread_life_def exec_def exit_contract [OF con])
  define s2 where "s2 = exec (spdk_thread_destroy api p) (exec (spdk_set_thread api null) s1)"
  from keep have s2: "alive (spdk s2) = X - {p}" "up (spdk s2)" "THREAD_LIB_INITIALIZED s2"
    by (simp_all add: s2_def exec_def destroy_contract [OF con] set_contract [OF con])
  have "thread_count api s2 = 0 \<longleftrightarrow> X - {p} = {}"
    using count_contract [OF con, of "spdk s2"] s2(1) keep(3) by (simp add: thread_count_def)
  with s' have eq: "s' = (if X - {p} = {} then thread_lib_fini api s2 else s2)"
    by (simp add: s2_def Let_def)
  have fini: "thread_lib_fini api s2 = exec (spdk_thread_lib_fini api) (s2\<lparr>THREAD_LIB_INITIALIZED := False\<rparr>)"
    using s2(3) by (simp add: thread_lib_fini_def Let_def)
  show "thread_life up alive s' (X - {p})"
    using eq fini s2 keep(3) by (simp add: thread_life_def fini_contract [OF con])
  show "\<not> up (spdk s')" if "X = {p}"
    using that eq fini by (simp add: fini_contract [OF con])
qed

lemma run_life:
  assumes con: "thread_contract api up alive" and "thread_run api s0 O0 s X" "thread_life up alive s0 O0"
  shows "thread_life up alive s X"
  using assms(2,3)
proof induction
  case (made s X name t s' n)
  then consider "current api name s = (Inr t, s') \<or> current_with_mempool_size api name n s = (Inr t, s')"
    | "THREAD_LIB_INITIALIZED s" "attach api name s = (Inr t, s')" by blast
  then show ?case using current_life [OF con made.IH [OF made.prems]] attach_life [OF con made.IH [OF made.prems]]
    by cases fastforce+
next
  case (not_made s X name e s' n)
  then consider "current api name s = (Inl e, s') \<or> current_with_mempool_size api name n s = (Inl e, s')"
    | "THREAD_LIB_INITIALIZED s" "attach api name s = (Inl e, s')" by blast
  then show ?case
    using current_life [OF con not_made.IH [OF not_made.prems]] attach_life [OF con not_made.IH [OF not_made.prems]]
    by cases fastforce+
next
  case (polled s X p k rc s')
  then show ?case
    using call_snd [of "spdk_thread_poll api p k 0" s]
    by (simp add: poll_max_def thread_life_def poll_contract [OF con])
next
  case (dropped s X p s')
  from drop_life(1) [OF con dropped.IH [OF dropped.prems] dropped.hyps(2,3)] show ?case .
qed

text \<open>
  C16: From a fresh process, whatever threads are made, polled and dropped in whatever order: the threads
  alive in SPDK are exactly those the program owns, the thread library is up whenever there is one, the
  flag tells whether it is up, and dropping the only thread takes the library down.
\<close>

theorem library_outlives_threads:
  assumes "thread_contract api up alive" "\<not> up w0" "alive w0 = {}"
    and "thread_run api (fresh_process w0) {} s X"
  shows "alive (spdk s) = X \<and> (X \<noteq> {} \<longrightarrow> up (spdk s)) \<and> (THREAD_LIB_INITIALIZED s \<longleftrightarrow> up (spdk s)) \<and>
     (\<forall>p s'. X = {p} \<longrightarrow> thread_drop api (SpdkThread p) s = Some s' \<longrightarrow>
        alive (spdk s') = {} \<and> \<not> up (spdk s') \<and> \<not> THREAD_LIB_INITIALIZED s')"
proof -
  have "thread_life up alive (fresh_process w0) {}"
    using assms(2,3) by (simp add: thread_life_def fresh_process_def)
  with run_life [OF assms(1,4)] have life: "thread_life up alive s X" by blast
  have "alive (spdk s') = {} \<and> \<not> up (spdk s') \<and> \<not> THREAD_LIB_INITIALIZED s'"
    if "X = {p}" "thread_drop api (SpdkThread p) s = Some s'" for p s'
    using drop_life [OF assms(1) life _ that(2)] that(1) by (simp add: thread_life_def)
  with life show ?thesis by (simp add: thread_life_def)
qed

text \<open>A library whose threads have numbers and exit at once.\<close>

record thread_host =
  lib_up :: bool
  ids :: "ptr list"

definition number_thread :: "thread_host thread_api" where
  "number_thread = \<lparr>spdk_thread_lib_init_ext = (\<lambda>_ w. (0, w\<lparr>lib_up := True\<rparr>)),
     spdk_thread_lib_init = (\<lambda>w. (0, w\<lparr>lib_up := True\<rparr>)),
     spdk_thread_lib_fini = (\<lambda>w. w\<lparr>lib_up := False\<rparr>),
     spdk_thread_create = (\<lambda>_ w. let p = Suc (foldr max (ids w) 0) in (p, w\<lparr>ids := p # ids w\<rparr>)),
     spdk_set_thread = (\<lambda>_ w. w), spdk_get_thread = (\<lambda>_. 1), spdk_thread_get_app_thread = (\<lambda>_. 1),
     spdk_thread_poll = (\<lambda>_ _ _ w. (0, w)),
     spdk_thread_has_active_pollers = (\<lambda>_ _. 0), spdk_thread_has_pollers = (\<lambda>_ _. False),
     spdk_thread_is_idle = (\<lambda>_ _. True), spdk_thread_is_running = (\<lambda>_ _. True),
     spdk_thread_is_exited = (\<lambda>_ _. True), spdk_thread_get_name = (\<lambda>_ _. Some ''main''),
     spdk_thread_get_id = (\<lambda>_ _. 1), spdk_thread_get_count = (\<lambda>w. if ids w = [] then 0 else 1),
     spdk_thread_exit = (\<lambda>_ w. w), spdk_thread_destroy = (\<lambda>p w. w\<lparr>ids := removeAll p (ids w)\<rparr>),
     spdk_thread_send_msg = (\<lambda>_ _ w. (0, w))\<rparr>"

lemma foldr_max_ge: "p \<in> set xs \<Longrightarrow> p \<le> foldr max xs (0 :: nat)"
  by (induction xs) (auto simp: le_max_iff_disj)

lemma number_thread_contract: "thread_contract number_thread lib_up (\<lambda>w. set (ids w))"
  unfolding thread_contract_def
  by (auto simp: number_thread_def Let_def dest: foldr_max_ge)

lemma number_thread_current:
  "current number_thread ''main'' (fresh_process \<lparr>lib_up = False, ids = []\<rparr>) = (Inr (SpdkThread 1),
     \<lparr>ENV_INITIALIZED = False, THREAD_LIB_INITIALIZED = True, ATTACHED_CTRLR = None,
      spdk = \<lparr>lib_up = True, ids = [1]\<rparr>\<rparr>)"
  by (simp add: current_def thread_lib_init_def attach_def number_thread_def call_def exec_def nul_def
      fresh_process_def Let_def)

lemma number_thread_life:
  obtains s s' where "thread_run number_thread (fresh_process \<lparr>lib_up = False, ids = []\<rparr>) {} s {1}"
    "lib_up (spdk s)" "thread_drop number_thread (SpdkThread 1) s = Some s'"
proof -
  let ?s = "\<lparr>ENV_INITIALIZED = False, THREAD_LIB_INITIALIZED = True, ATTACHED_CTRLR = None,
    spdk = \<lparr>lib_up = True, ids = [1]\<rparr>\<rparr>"
  from thread_run.made [OF thread_run.start disjI1 [OF number_thread_current]]
  have run: "thread_run number_thread (fresh_process \<lparr>lib_up = False, ids = []\<rparr>) {} ?s {1}" by simp
  have "\<exists>s'. thread_drop number_thread (SpdkThread 1) ?s = Some s'"
    by (simp add: thread_drop_def exit_loop_def while_option_unfold number_thread_def Let_def)
  with run that [of ?s] show thesis by auto
qed

theorem library_outlives_threads_witness:
  "\<exists>s s'. thread_run number_thread (fresh_process \<lparr>lib_up = False, ids = []\<rparr>) {} s {1} \<and> lib_up (spdk s) \<and>
     thread_drop number_thread (SpdkThread 1) s = Some s' \<and> \<not> lib_up (spdk s')"
proof -
  obtain s s' where "thread_run number_thread (fresh_process \<lparr>lib_up = False, ids = []\<rparr>) {} s {1}"
    "lib_up (spdk s)" "thread_drop number_thread (SpdkThread 1) s = Some s'" by (rule number_thread_life)
  with library_outlives_threads [OF number_thread_contract _ _ this(1)] show ?thesis by auto
qed

section \<open>Dropping the last thread while another is made\<close>

text \<open>
  \<open>current\<close> and \<open>drop\<close> run by several OS threads at once: one step for each access to the flag, each end
  of a call that initialises or finalises the library, and each thread made, destroyed or counted.
\<close>

datatype life_pc = Outside | InInit | InitFailed | MayCreate | Owner | Destroyed | SawNone | InFini

record life_state =
  lib_flag :: bool
  lib_up :: bool
  lib_threads :: nat
  life_pc :: "nat \<Rightarrow> life_pc"

inductive life_step :: "life_state \<Rightarrow> life_state \<Rightarrow> bool" where
  init_skipped: "life_pc S i = Outside \<Longrightarrow> lib_flag S \<Longrightarrow>
     life_step S (S\<lparr>life_pc := (life_pc S)(i := MayCreate)\<rparr>)"
| init_begun: "life_pc S i = Outside \<Longrightarrow> \<not> lib_flag S \<Longrightarrow>
     life_step S (S\<lparr>lib_flag := True, life_pc := (life_pc S)(i := InInit)\<rparr>)"
| init_done: "life_pc S i = InInit \<Longrightarrow>
     life_step S (S\<lparr>lib_up := True, life_pc := (life_pc S)(i := MayCreate)\<rparr>)"
| init_failed: "life_pc S i = InInit \<Longrightarrow> life_step S (S\<lparr>life_pc := (life_pc S)(i := InitFailed)\<rparr>)"
| init_reset: "life_pc S i = InitFailed \<Longrightarrow>
     life_step S (S\<lparr>lib_flag := False, life_pc := (life_pc S)(i := Outside)\<rparr>)"
| created: "life_pc S i = MayCreate \<Longrightarrow> lib_up S \<Longrightarrow>
     life_step S (S\<lparr>lib_threads := Suc (lib_threads S), life_pc := (life_pc S)(i := Owner)\<rparr>)"
| not_created: "life_pc S i = MayCreate \<Longrightarrow> life_step S (S\<lparr>life_pc := (life_pc S)(i := Outside)\<rparr>)"
| destroyed: "life_pc S i = Owner \<Longrightarrow>
     life_step S (S\<lparr>lib_threads := lib_threads S - 1, life_pc := (life_pc S)(i := Destroyed)\<rparr>)"
| counted: "life_pc S i = Destroyed \<Longrightarrow>
     life_step S (S\<lparr>life_pc := (life_pc S)(i := if lib_threads S = 0 then SawNone else Outside)\<rparr>)"
| fini_begun: "life_pc S i = SawNone \<Longrightarrow>
     life_step S (S\<lparr>lib_flag := False, life_pc := (life_pc S)(i := if lib_flag S then InFini else Outside)\<rparr>)"
| fini_done: "life_pc S i = InFini \<Longrightarrow>
     life_step S (S\<lparr>lib_up := False, life_pc := (life_pc S)(i := Outside)\<rparr>)"

definition life_start :: life_state where
  "life_start = \<lparr>lib_flag = False, lib_up = False, lib_threads = 0, life_pc = (\<lambda>_. Outside)\<rparr>"

text \<open>
  The count is read before the flag is swapped: an OS thread that makes its SPDK thread in between loses
  the library. So the theorem above needs its runs to be sequential.
\<close>

lemma drop_races_with_current:
  "\<exists>S. life_step\<^sup>*\<^sup>* life_start S \<and> life_pc S 1 = Owner \<and> lib_threads S = 1 \<and> \<not> lib_up S"
proof -
  let ?S = "\<lambda>fl up n p q. \<lparr>lib_flag = fl, lib_up = up, lib_threads = n,
    life_pc = (\<lambda>_. Outside)(0 := p, Suc 0 := q)\<rparr>"
  have start: "life_start = ?S False False 0 Outside Outside" by (simp add: life_start_def fun_upd_idem)
  have "life_step\<^sup>*\<^sup>* (?S False False 0 Outside Outside) (?S False False (Suc 0) Outside Owner)"
  proof (rule rtranclp_trans)
    have "life_step (?S False False 0 Outside Outside) (?S True False 0 InInit Outside)"
      "life_step (?S True False 0 InInit Outside) (?S True True 0 MayCreate Outside)"
      "life_step (?S True True 0 MayCreate Outside) (?S True True (Suc 0) Owner Outside)"
      "life_step (?S True True (Suc 0) Owner Outside) (?S True True 0 Destroyed Outside)"
      "life_step (?S True True 0 Destroyed Outside) (?S True True 0 SawNone Outside)"
      using init_begun [of "?S False False 0 Outside Outside" 0] init_done [of "?S True False 0 InInit Outside" 0]
        created [of "?S True True 0 MayCreate Outside" 0] destroyed [of "?S True True (Suc 0) Owner Outside" 0]
        counted [of "?S True True 0 Destroyed Outside" 0]
      by (simp_all add: fun_upd_twist)
    then show "life_step\<^sup>*\<^sup>* (?S False False 0 Outside Outside) (?S True True 0 SawNone Outside)"
      by (meson converse_rtranclp_into_rtranclp rtranclp.rtrancl_refl)
    have "life_step (?S True True 0 SawNone Outside) (?S True True 0 SawNone MayCreate)"
      "life_step (?S True True 0 SawNone MayCreate) (?S True True (Suc 0) SawNone Owner)"
      "life_step (?S True True (Suc 0) SawNone Owner) (?S False True (Suc 0) InFini Owner)"
      "life_step (?S False True (Suc 0) InFini Owner) (?S False False (Suc 0) Outside Owner)"
      using init_skipped [of "?S True True 0 SawNone Outside" 1] created [of "?S True True 0 SawNone MayCreate" 1]
        fini_begun [of "?S True True (Suc 0) SawNone Owner" 0] fini_done [of "?S False True (Suc 0) InFini Owner" 0]
      by (simp_all add: fun_upd_twist)
    then show "life_step\<^sup>*\<^sup>* (?S True True 0 SawNone Outside) (?S False False (Suc 0) Outside Owner)"
      by (meson converse_rtranclp_into_rtranclp rtranclp.rtrancl_refl)
  qed
  with start show ?thesis by (intro exI [of _ "?S False False (Suc 0) Outside Owner"]) simp
qed

section \<open>Environments\<close>

text \<open>SPDK's side: \<open>up\<close> tells whether the environment is initialised.\<close>

definition env_contract :: "('o, 'w) env_api \<Rightarrow> ('w \<Rightarrow> bool) \<Rightarrow> bool" where
  "env_contract api up \<longleftrightarrow>
     (\<forall>w opts rc w'. spdk_env_init api opts w = (rc, w') \<longrightarrow> up w' = (if rc = 0 then True else up w)) \<and>
     (\<forall>w. \<not> up (spdk_env_fini api w)) \<and>
     (\<forall>w l. up (spdk_log_set_print_level api l w) = up w)"

text \<open>Builds and drops of environments; \<open>n\<close> counts the \<open>SpdkEnv\<close> values the program holds.\<close>

inductive env_run :: "('o, 'w) env_api \<Rightarrow> 'w process \<Rightarrow> 'w process \<Rightarrow> nat \<Rightarrow> bool"
  for api :: "('o, 'w) env_api" and s0 :: "'w process"
where
  start: "env_run api s0 s0 0"
| built: "env_run api s0 s n \<Longrightarrow> env_build api b s = (Inr (), s') \<Longrightarrow> env_run api s0 s' (Suc n)"
| not_built: "env_run api s0 s n \<Longrightarrow> env_build api b s = (Inl e, s') \<Longrightarrow> env_run api s0 s' n"
| dropped: "env_run api s0 s (Suc n) \<Longrightarrow> env_run api s0 (env_drop api s) n"

lemma env_contractD:
  assumes "env_contract api up"
  shows "spdk_env_init api opts w = (rc, w') \<Longrightarrow> up w' = (if rc = 0 then True else up w)"
    and "\<not> up (spdk_env_fini api w)" and "up (env_log api b w) = up w"
  using assms unfolding env_contract_def env_log_def by (auto split: option.splits)

text \<open>
  What a run keeps: at most one environment, which exists exactly while SPDK's is up. A failed build
  may leave the flag set without an environment, then no other is ever made.
\<close>

definition env_life :: "('w \<Rightarrow> bool) \<Rightarrow> 'w process \<Rightarrow> nat \<Rightarrow> bool" where
  "env_life up s n \<longleftrightarrow> n \<le> 1 \<and> (up (spdk s) \<longleftrightarrow> n = 1) \<and> (n = 1 \<longrightarrow> ENV_INITIALIZED s)"

lemma build_life:
  assumes con: "env_contract api up" and "env_life up s n" "env_build api b s = (r, s')"
  shows "env_life up s' (case r of Inr _ \<Rightarrow> Suc n | Inl _ \<Rightarrow> n)"
proof (cases "ENV_INITIALIZED s")
  case True
  with env_build_cases(1) [OF this, of api b] assms(2,3) show ?thesis by simp
next
  case False
  show ?thesis
  proof (cases "has_nul (env_name b) \<or> has_nul (core_mask b)")
    case True
    with env_build_cases(2) [OF False, of b api] assms(2,3) show ?thesis by (auto simp: env_life_def)
  next
    case nn: False
    obtain rc w where i: "spdk_env_init api (env_opts_of api b (spdk s)) (env_log api b (spdk s)) = (rc, w)"
      by fastforce
    from env_contractD(1) [OF con i] env_contractD(3) [OF con] have "up w = (if rc = 0 then True else up (spdk s))"
      by simp
    with nn env_build_cases(3) [OF False _ _ i] assms(2,3) False show ?thesis
      by (auto simp: env_life_def split: if_splits)
  qed
qed

lemma env_run_life:
  assumes con: "env_contract api up" and "env_run api s0 s n" "env_life up s0 0"
  shows "env_life up s n"
  using assms(2,3)
proof induction
  case (built s n b s')
  with build_life [OF con, of s n b "Inr ()" s'] show ?case by simp
next
  case (not_built s n b e s')
  with build_life [OF con, of s n b "Inl e" s'] show ?case by simp
next
  case (dropped s n)
  with env_contractD(2) [OF con, of "spdk s"] show ?case by (auto simp: env_life_def env_drop_def exec_def)
qed

text \<open>
  C32: From a fresh process, whatever environments are built, with whatever settings, and dropped, there
  is never more than one, and SPDK's environment is up exactly while the program holds it.
\<close>

theorem one_environment:
  assumes "env_contract api up" "\<not> up w0" "env_run api (fresh_process w0) s n"
  shows "n \<le> 1 \<and> (up (spdk s) \<longleftrightarrow> n = 1) \<and> (n = 1 \<longrightarrow> env_is_initialized s)"
  using env_run_life [OF assms(1,3)] assms(2)
  by (simp add: env_life_def env_is_initialized_def fresh_process_def)

lemma demo_env_contract: "env_contract (demo_env\<lparr>spdk_env_init := \<lambda>_ _. (0, 1)\<rparr>) (\<lambda>w. w = 1)"
  by (simp add: env_contract_def demo_env_def)

theorem one_environment_witness:
  "\<exists>s. env_run (demo_env\<lparr>spdk_env_init := \<lambda>_ _. (0, 1)\<rparr>) (fresh_process 0) s 1 \<and> spdk s = 1 \<and> env_is_initialized s"
proof -
  let ?api = "demo_env\<lparr>spdk_env_init := \<lambda>_ _. (0, 1)\<rparr>"
  have "env_build ?api env_builder_new (fresh_process 0) =
      (Inr (), (fresh_process 0)\<lparr>ENV_INITIALIZED := True, spdk := 1\<rparr>)"
    by (subst env_build_cases(3) [where rc = 0 and w = 1])
      (simp_all add: fresh_process_def env_builder_new_def has_nul_def)
  from env_run.built [OF env_run.start this] have run:
    "env_run ?api (fresh_process 0) ((fresh_process 0)\<lparr>ENV_INITIALIZED := True, spdk := 1\<rparr>) 1" by simp
  from one_environment [OF demo_env_contract _ run] run show ?thesis by auto
qed

section \<open>After an application\<close>

text \<open>
  \<open>run\<close> marks the thread library as initialised when SPDK calls back, and \<open>spdk_app_fini\<close> takes the
  library down without the flag: a later attempt to initialise it is told Ok and does not call SPDK.
\<close>

lemma app_leaves_flag:
  assumes "\<not> app_has_nul b" "app_run api run_user b f (s, h) = Some (r, s', h')"
    and "fst (spdk_app_start_begin api (app_opts_of api b (spdk s)) (spdk s)) = None"
    and "\<And>t t'. run_user f t = Some t' \<Longrightarrow> THREAD_LIB_INITIALIZED t \<Longrightarrow> THREAD_LIB_INITIALIZED t'"
  shows "THREAD_LIB_INITIALIZED s'" "thread_lib_init tapi s' = (Inr (), s')"
proof -
  obtain p h1 where p: "box_into_raw f h = (p, h1)" by fastforce
  have "g = f" if "box_from_raw p h1 = Some (g, h2)" for g h2
    using that box.into_contents [OF p] by (simp add: store_simps)
  with assms(2-4) show flag: "THREAD_LIB_INITIALIZED s'"
    unfolding app_run_eq [OF assms(1) p]
    by (fastforce simp: start_callback_def assume_thread_lib_initialized_def call_def exec_def Let_def
        split: option.splits prod.splits)
  then show "thread_lib_init tapi s' = (Inr (), s')" by (rule lib_init.init_set)
qed

end
