(* ===== verification/Handles.thy ===== *)
theory Handles
  imports Bdev Channel NvmeController "HOL-Library.Multiset"
begin

text \<open>
  The handles a program holds against the resources of SPDK behind them: descriptors and channels of
  block devices (\<open>bdev.rs\<close>, \<open>channel.rs\<close>), controllers and queue pairs of NVMe (\<open>nvme/controller.rs\<close>,
  \<open>nvme/qpair.rs\<close>). A run is any sequence of the operations that make, use and drop handles which Rust's
  ownership allows, but for a queue pair kept after its controller; SPDK counts references, so a
  program may hold a pointer several times. A controller that \<open>connect_async\<close> started off an SPDK thread
  may have attached is lost, and the runs count it.
\<close>

section \<open>Block devices\<close>

text \<open>
  What SPDK documents: an opened descriptor is new; a channel asked for is referenced once more; closing
  and putting undo this. \<open>descs\<close> are the open descriptors, \<open>refs\<close> the references to channels; nothing is
  promised of a descriptor that is not open and of a channel that is not referenced. \<open>work\<close> is what SPDK
  does by itself when its threads are polled.
\<close>

primrec request_desc :: "bdev_request \<Rightarrow> bdev_desc" where
  "request_desc (BdevRead d c b off) = d"
| "request_desc (BdevWrite d c b off) = d"

primrec request_channel :: "bdev_request \<Rightarrow> io_channel" where
  "request_channel (BdevRead d c b off) = c"
| "request_channel (BdevWrite d c b off) = c"

definition bdev_contract ::
  "'w bdev_api \<Rightarrow> 'w channel_api \<Rightarrow> ('w \<Rightarrow> 'w \<Rightarrow> bool) \<Rightarrow> ('w \<Rightarrow> ptr set) \<Rightarrow> ('w \<Rightarrow> ptr multiset) \<Rightarrow> bool" where
  "bdev_contract api capi work descs refs \<longleftrightarrow>
     (\<forall>name wr w rc p w'. spdk_bdev_open_ext api name wr w = ((rc, p), w') \<longrightarrow> refs w' = refs w \<and>
        (if rc = 0 \<and> p \<noteq> null then p \<notin> descs w \<and> descs w' = insert p (descs w) else descs w' = descs w)) \<and>
     (\<forall>p w. p \<in> descs w \<longrightarrow>
        descs (spdk_bdev_close api p w) = descs w - {p} \<and> refs (spdk_bdev_close api p w) = refs w) \<and>
     (\<forall>p w c w'. p \<in> descs w \<longrightarrow> spdk_bdev_get_io_channel api p w = (c, w') \<longrightarrow> descs w' = descs w \<and>
        refs w' = (if c = null then refs w else add_mset c (refs w))) \<and>
     (\<forall>c w. c \<in># refs w \<longrightarrow> descs (spdk_put_io_channel capi c w) = descs w \<and>
        refs (spdk_put_io_channel capi c w) = refs w - {#c#}) \<and>
     (\<forall>q p w x w'. desc_ptr (request_desc q) \<in> descs w \<longrightarrow> channel_ptr (request_channel q) \<in># refs w \<longrightarrow>
        bdev_submit api q p w = (x, w') \<longrightarrow> descs w' = descs w \<and> refs w' = refs w) \<and>
     (\<forall>w w'. work w w' \<longrightarrow> descs w' = descs w \<and> refs w' = refs w)"

text \<open>
  The runs. A descriptor is borrowed to get a channel, and both are borrowed by a read or a write;
  neither handle borrows the other, so they may be dropped in any order.
\<close>

inductive bdev_handles ::
  "'w bdev_api \<Rightarrow> 'w channel_api \<Rightarrow> ('w \<Rightarrow> 'w \<Rightarrow> bool) \<Rightarrow> 'w \<Rightarrow> 'w \<Rightarrow> bdev_desc set \<Rightarrow> io_channel multiset \<Rightarrow> bool"
  for api :: "'w bdev_api" and capi :: "'w channel_api" and work :: "'w \<Rightarrow> 'w \<Rightarrow> bool" and w0 :: 'w
where
  start: "bdev_handles api capi work w0 w0 {} {#}"
| opened: "bdev_handles api capi work w0 w D C \<Longrightarrow> bdev_open api b wr w = (Inr d, w') \<Longrightarrow>
     bdev_handles api capi work w0 w' (insert d D) C"
| refused: "bdev_handles api capi work w0 w D C \<Longrightarrow> bdev_open api b wr w = (Inl e, w') \<Longrightarrow>
     bdev_handles api capi work w0 w' D C"
| got: "bdev_handles api capi work w0 w D C \<Longrightarrow> d \<in> D \<Longrightarrow> desc_get_io_channel api d w = (Inr c, w') \<Longrightarrow>
     bdev_handles api capi work w0 w' D (add_mset c C)"
| not_got: "bdev_handles api capi work w0 w D C \<Longrightarrow> d \<in> D \<Longrightarrow> desc_get_io_channel api d w = (Inl e, w') \<Longrightarrow>
     bdev_handles api capi work w0 w' D C"
| submitted: "bdev_handles api capi work w0 w D C \<Longrightarrow> request_desc q \<in> D \<Longrightarrow> request_channel q \<in># C \<Longrightarrow>
     bdev_submit api q p w = (x, w') \<Longrightarrow> bdev_handles api capi work w0 w' D C"
| worked: "bdev_handles api capi work w0 w D C \<Longrightarrow> work w w' \<Longrightarrow> bdev_handles api capi work w0 w' D C"
| channel_dropped: "bdev_handles api capi work w0 w D C \<Longrightarrow> c \<in># C \<Longrightarrow>
     bdev_handles api capi work w0 (channel_drop capi c w) D (C - {#c#})"
| desc_dropped: "bdev_handles api capi work w0 w D C \<Longrightarrow> d \<in> D \<Longrightarrow>
     bdev_handles api capi work w0 (desc_drop api d w) (D - {d}) C"

definition bdev_balanced ::
  "('w \<Rightarrow> ptr set) \<Rightarrow> ('w \<Rightarrow> ptr multiset) \<Rightarrow> 'w \<Rightarrow> 'w \<Rightarrow> bdev_desc set \<Rightarrow> io_channel multiset \<Rightarrow> bool" where
  "bdev_balanced descs refs w0 w D C \<longleftrightarrow> descs w = descs w0 \<union> desc_ptr ` D \<and>
     descs w0 \<inter> desc_ptr ` D = {} \<and> refs w = refs w0 + image_mset channel_ptr C"

lemma bdev_contractD:
  assumes "bdev_contract api capi work descs refs"
  shows open_contract: "spdk_bdev_open_ext api name wr w = ((rc, p), w') \<Longrightarrow> refs w' = refs w \<and>
      (if rc = 0 \<and> p \<noteq> null then p \<notin> descs w \<and> descs w' = insert p (descs w) else descs w' = descs w)"
    and close_contract: "p \<in> descs w \<Longrightarrow>
      descs (spdk_bdev_close api p w) = descs w - {p} \<and> refs (spdk_bdev_close api p w) = refs w"
    and get_contract: "p \<in> descs w \<Longrightarrow> spdk_bdev_get_io_channel api p w = (c, w') \<Longrightarrow>
      descs w' = descs w \<and> refs w' = (if c = null then refs w else add_mset c (refs w))"
    and put_contract: "c \<in># refs w \<Longrightarrow> descs (spdk_put_io_channel capi c w) = descs w \<and>
      refs (spdk_put_io_channel capi c w) = refs w - {#c#}"
    and request_contract: "desc_ptr (request_desc q) \<in> descs w \<Longrightarrow> channel_ptr (request_channel q) \<in># refs w \<Longrightarrow>
      bdev_submit api q p w = (x, w') \<Longrightarrow> descs w' = descs w \<and> refs w' = refs w"
    and work_contract: "work w w' \<Longrightarrow> descs w' = descs w \<and> refs w' = refs w"
  using assms unfolding bdev_contract_def by metis+

lemma inj_ptr: "inj desc_ptr" "inj channel_ptr" "inj ctrlr_ptr" "inj qpair_ptr"
  by (auto simp: inj_def intro: bdev_desc.expand io_channel.expand nvme_controller.expand nvme_qpair.expand)

lemma balanced_owned:
  assumes "bdev_balanced descs refs w0 w D C"
  shows "d \<in> D \<Longrightarrow> desc_ptr d \<in> descs w" "c \<in># C \<Longrightarrow> channel_ptr c \<in># refs w"
  using assms by (auto simp: bdev_balanced_def)

lemma opened_balanced:
  assumes con: "bdev_contract api capi work descs refs" and "bdev_balanced descs refs w0 w D C"
    and "bdev_open api b wr w = (r, w')"
  shows "bdev_balanced descs refs w0 w' (case r of Inr d \<Rightarrow> insert d D | Inl _ \<Rightarrow> D) C"
  using assms(2,3)
  by (auto simp: bdev_open_def ok_or_def nonnull_def bdev_balanced_def split: sum.splits prod.splits if_splits
      dest!: open_contract [OF con])

lemma got_balanced:
  assumes con: "bdev_contract api capi work descs refs" and bal: "bdev_balanced descs refs w0 w D C" and "d \<in> D"
    and "desc_get_io_channel api d w = (r, w')"
  shows "bdev_balanced descs refs w0 w' D (case r of Inr c \<Rightarrow> add_mset c C | Inl _ \<Rightarrow> C)"
proof -
  obtain c w1 where c: "spdk_bdev_get_io_channel api (desc_ptr d) w = (c, w1)" by fastforce
  from get_contract [OF con balanced_owned(1) [OF bal \<open>d \<in> D\<close>] c] bal assms(4) c show ?thesis
    by (auto simp: desc_get_io_channel_def ok_or_def nonnull_def bdev_balanced_def channel_from_ptr_def)
qed

lemma channel_drop_balanced:
  assumes con: "bdev_contract api capi work descs refs" and bal: "bdev_balanced descs refs w0 w D C" and "c \<in># C"
  shows "bdev_balanced descs refs w0 (channel_drop capi c w) D (C - {#c#})"
  using put_contract [OF con balanced_owned(2) [OF bal \<open>c \<in># C\<close>]] bal \<open>c \<in># C\<close>
  by (auto simp: channel_drop_def bdev_balanced_def image_mset_Diff)

lemma desc_drop_balanced:
  assumes con: "bdev_contract api capi work descs refs" and bal: "bdev_balanced descs refs w0 w D C" and "d \<in> D"
  shows "bdev_balanced descs refs w0 (desc_drop api d w) (D - {d}) C"
  using close_contract [OF con balanced_owned(1) [OF bal \<open>d \<in> D\<close>]] bal \<open>d \<in> D\<close> inj_ptr(1)
  by (auto simp: desc_drop_def bdev_balanced_def image_set_diff)

text \<open>
  Functions of SPDK that fulfil the contract: at most two descriptors, 8 and 9, and one channel, 16; the
  state is the descriptors and the references.
\<close>

type_synonym bdev_world = "ptr set \<times> ptr multiset"

definition counting_bdev :: "bdev_world bdev_api" where
  "counting_bdev = \<lparr>spdk_bdev_get_by_name = (\<lambda>_ _. 7), spdk_bdev_get_name = (\<lambda>_ _. ''Null0''),
     spdk_bdev_get_block_size = (\<lambda>_ _. 512), spdk_bdev_get_num_blocks = (\<lambda>_ _. 2048),
     spdk_bdev_open_ext = (\<lambda>_ _ w. if 8 \<notin> fst w then ((0, 8), (insert 8 (fst w), snd w))
       else if 9 \<notin> fst w then ((0, 9), (insert 9 (fst w), snd w)) else ((- 16, 0), w)),
     spdk_bdev_close = (\<lambda>p w. (fst w - {p}, snd w)),
     spdk_bdev_get_io_channel = (\<lambda>p w. (16, (fst w, add_mset 16 (snd w)))),
     spdk_bdev_desc_get_bdev = (\<lambda>_ _. 7), spdk_bdev_read = (\<lambda>_ _ _ _ _ _ w. ((0, None), w)),
     spdk_bdev_write = (\<lambda>_ _ _ _ _ _ w. ((0, None), w)), spdk_bdev_free_io = (\<lambda>_ w. w)\<rparr>"

definition counting_channel :: "bdev_world channel_api" where
  "counting_channel = \<lparr>spdk_io_channel_get_thread = (\<lambda>_ _. 3),
     spdk_put_io_channel = (\<lambda>c w. (fst w, snd w - {#c#}))\<rparr>"

lemma counting_contract: "bdev_contract counting_bdev counting_channel (=) fst snd"
proof -
  have "bdev_submit counting_bdev q p w = ((0, None), w)" for q p w
    by (cases q) (simp_all add: counting_bdev_def)
  then show ?thesis by (auto simp: bdev_contract_def counting_bdev_def counting_channel_def)
qed

text \<open>
  C5: In every run of opening, using and dropping block devices, in any order, the descriptors open in SPDK
  and the references to channels are those there were at the start and those behind the handles the
  program holds: nothing is closed twice, used after it was closed, or left open once its handle is gone.
\<close>

theorem bdev_handles_balanced:
  assumes con: "bdev_contract api capi work descs refs" and "bdev_handles api capi work w0 w D C"
  shows "descs w = descs w0 \<union> desc_ptr ` D \<and> descs w0 \<inter> desc_ptr ` D = {} \<and>
     refs w = refs w0 + image_mset channel_ptr C"
proof -
  from assms(2) have "bdev_balanced descs refs w0 w D C"
  proof induction
    case start
    show ?case by (simp add: bdev_balanced_def)
  next
    case (opened w D C b wr d w')
    from opened_balanced [OF con opened.IH opened.hyps(2)] show ?case by simp
  next
    case (refused w D C b wr e w')
    from opened_balanced [OF con refused.IH refused.hyps(2)] show ?case by simp
  next
    case (got w D C d c w')
    from got_balanced [OF con got.IH got.hyps(2,3)] show ?case by simp
  next
    case (not_got w D C d e w')
    from got_balanced [OF con not_got.IH not_got.hyps(2,3)] show ?case by simp
  next
    case (submitted w D C q p x w')
    from request_contract [OF con balanced_owned(1) [OF submitted.IH submitted.hyps(2)]
        balanced_owned(2) [OF submitted.IH submitted.hyps(3)] submitted.hyps(4)] submitted.IH
    show ?case by (simp add: bdev_balanced_def)
  next
    case (worked w D C w')
    from work_contract [OF con worked.hyps(2)] worked.IH show ?case by (simp add: bdev_balanced_def)
  next
    case channel_dropped
    then show ?case using channel_drop_balanced [OF con] by blast
  next
    case desc_dropped
    then show ?case using desc_drop_balanced [OF con] by blast
  qed
  then show ?thesis by (simp add: bdev_balanced_def)
qed

text \<open>The descriptor is dropped while two channels of it are held.\<close>

theorem bdev_handles_balanced_witness:
  "\<exists>w. bdev_handles counting_bdev counting_channel (=) ({}, {#}) w {} {#IoChannel 16#} \<and>
     fst w = {} \<and> snd w = {#16#}"
proof -
  let ?run = "bdev_handles counting_bdev counting_channel (=) ({}, {#})"
  let ?w = "({8}, {#16, 16#}) :: bdev_world"
  have "bdev_open counting_bdev (Bdev 7) True ({}, {#}) = (Inr (BdevDesc 8), ({8}, {#}))"
    by (simp add: bdev_open_def bdev_name_def counting_bdev_def ok_or_def nonnull_def) code_simp
  from bdev_handles.opened [OF bdev_handles.start this] have "?run ({8}, {#}) {BdevDesc 8} {#}" .
  moreover have get: "desc_get_io_channel counting_bdev (BdevDesc 8) (D, R) = (Inr (IoChannel 16), (D, add_mset 16 R))" for D R
    by (simp add: desc_get_io_channel_def counting_bdev_def ok_or_def nonnull_def channel_from_ptr_def)
  ultimately have "?run ?w {BdevDesc 8} {#IoChannel 16, IoChannel 16#}"
    by (blast intro: bdev_handles.got)
  from bdev_handles.channel_dropped [OF bdev_handles.desc_dropped [OF this, of "BdevDesc 8"], of "IoChannel 16"]
  have run: "?run (channel_drop counting_channel (IoChannel 16) (desc_drop counting_bdev (BdevDesc 8) ?w))
      {} {#IoChannel 16#}" by simp
  from bdev_handles_balanced [OF counting_contract run] run show ?thesis by fastforce
qed

section \<open>NVMe\<close>

text \<open>
  What SPDK documents: connecting references a controller once more, a new queue pair belongs to its
  controller, detaching gives a reference back, and the last one ends the controller with its queue
  pairs. \<open>ctrlrs\<close> are the references, \<open>qpairs\<close> maps each live queue pair to its controller. A connect that
  is polled attaches at most one controller (\<open>attaching\<close> says which probe contexts have not), and none if
  the poll fails. All this without options, because the pointer to the options dangles
  (\<open>ctrlr_opts_applied\<close>).
\<close>

definition attach_contract ::
  "('o, 'w) ctrlr_api \<Rightarrow> 'w thread_api \<Rightarrow> ('w \<Rightarrow> ptr multiset) \<Rightarrow> ('w \<Rightarrow> ptr \<rightharpoonup> ptr) \<Rightarrow> ('w \<Rightarrow> ptr \<Rightarrow> bool) \<Rightarrow> bool" where
  "attach_contract api tapi ctrlrs qpairs attaching \<longleftrightarrow>
     (\<forall>trid w p w'. spdk_nvme_connect api trid NullPtr w = (p, w') \<longrightarrow> qpairs w' = qpairs w \<and>
        ctrlrs w' = (if p = null then ctrlrs w else add_mset p (ctrlrs w))) \<and>
     (\<forall>trid w ctx l w'. spdk_nvme_connect_async api trid NullPtr w = ((ctx, l), w') \<longrightarrow> qpairs w' = qpairs w \<and>
        spdk_get_thread tapi w' = spdk_get_thread tapi w \<and> ctrlrs w' = ctrlrs w + mset l \<and>
        (l = [] \<or> ctx \<noteq> null \<and> \<not> attaching w' ctx \<and> (\<exists>p. p \<noteq> null \<and> l = [p]))) \<and>
     (\<forall>ctx w rc l w'. spdk_nvme_probe_poll_async api ctx w = ((rc, l), w') \<longrightarrow> qpairs w' = qpairs w \<and>
        ctrlrs w' = ctrlrs w + mset l \<and> (attaching w' ctx \<longrightarrow> attaching w ctx) \<and>
        (l = [] \<or> attaching w ctx \<and> \<not> attaching w' ctx \<and> (\<exists>p. p \<noteq> null \<and> l = [p])) \<and>
        (rc \<noteq> 0 \<longrightarrow> rc \<noteq> - EAGAIN \<longrightarrow> attaching w' ctx)) \<and>
     (\<forall>t k d w n w'. spdk_thread_poll tapi t k d w = (n, w') \<longrightarrow> qpairs w' = qpairs w \<and>
        ctrlrs w' = ctrlrs w \<and> attaching w' = attaching w)"

primrec command_qpair :: "nvme_command \<Rightarrow> nvme_qpair" where
  "command_qpair (NvmeRead ns q b lba n) = q"
| "command_qpair (NvmeWrite ns q b lba n) = q"

primrec command_ns :: "nvme_command \<Rightarrow> nvme_namespace" where
  "command_ns (NvmeRead ns q b lba n) = ns"
| "command_ns (NvmeWrite ns q b lba n) = ns"

definition qpair_contract ::
  "('o, 'w) ctrlr_api \<Rightarrow> 'w ns_api \<Rightarrow> ('w \<Rightarrow> ptr multiset) \<Rightarrow> ('w \<Rightarrow> ptr \<rightharpoonup> ptr) \<Rightarrow> bool" where
  "qpair_contract api nsapi ctrlrs qpairs \<longleftrightarrow>
     (\<forall>c w q w'. c \<in># ctrlrs w \<longrightarrow> spdk_nvme_ctrlr_alloc_io_qpair api c NullPtr w = (q, w') \<longrightarrow>
        ctrlrs w' = ctrlrs w \<and>
        (if q = null then qpairs w' = qpairs w else qpairs w q = None \<and> qpairs w' = (qpairs w)(q \<mapsto> c))) \<and>
     (\<forall>q w. qpairs w q \<noteq> None \<longrightarrow> ctrlrs (spdk_nvme_ctrlr_free_io_qpair nsapi q w) = ctrlrs w \<and>
        qpairs (spdk_nvme_ctrlr_free_io_qpair nsapi q w) = (qpairs w)(q := None)) \<and>
     (\<forall>c w. c \<in># ctrlrs w \<longrightarrow> ctrlrs (spdk_nvme_detach api c w) = ctrlrs w - {#c#} \<and>
        qpairs (spdk_nvme_detach api c w) =
          (if c \<in># ctrlrs w - {#c#} then qpairs w else qpairs w |` {q. qpairs w q \<noteq> Some c})) \<and>
     (\<forall>c w rc w'. c \<in># ctrlrs w \<longrightarrow> spdk_nvme_ctrlr_process_admin_completions api c w = (rc, w') \<longrightarrow>
        ctrlrs w' = ctrlrs w \<and> qpairs w' = qpairs w) \<and>
     (\<forall>q k w rc w'. qpairs w q \<noteq> None \<longrightarrow> spdk_nvme_qpair_process_completions nsapi q k w = (rc, w') \<longrightarrow>
        ctrlrs w' = ctrlrs w \<and> qpairs w' = qpairs w) \<and>
     (\<forall>j p w x w'. qpairs w (qpair_ptr (command_qpair j)) \<noteq> None \<longrightarrow> nvme_submit nsapi j p w = (x, w') \<longrightarrow>
        ctrlrs w' = ctrlrs w \<and> qpairs w' = qpairs w)"

text \<open>
  What a program holds: its controllers, its queue pairs with the controllers they came from, and the
  namespaces it has borrowed from its controllers; and the controllers it has lost, because they had
  attached when \<open>connect_async\<close> gave up on them.
\<close>

record nvme_held =
  held_ctrlrs :: "ptr multiset"
  held_qpairs :: "ptr \<rightharpoonup> ptr"
  borrowed_ns :: "(ptr \<times> ptr) set"
  lost_ctrlrs :: "ptr multiset"

text \<open>
  On a thread that is not SPDK's, \<open>connect_async\<close> starts the connect and then returns \<open>Os(22)\<close>. A controller
  that SPDK has attached by then is in the slot of the callback, which the next connect clears.
\<close>

definition left_behind :: "'w process \<Rightarrow> ptr multiset" where
  "left_behind s = (case ATTACHED_CTRLR s of None \<Rightarrow> {#} | Some p \<Rightarrow> {#p#})"

text \<open>
  When a controller may be dropped. The borrow checker asks that no namespace is borrowed from it; a
  queue pair carries no lifetime, so that there is none is a rule the program has to keep by itself.
  If the controller is held twice, another of its handles remains.
\<close>

definition qpairs_first :: "nvme_held \<Rightarrow> ptr \<Rightarrow> bool" where
  "qpairs_first H c \<longleftrightarrow>
     1 < count (held_ctrlrs H) c \<or> c \<notin> snd ` borrowed_ns H \<and> c \<notin> ran (held_qpairs H)"

inductive nvme_handles ::
  "('o, 'w) ctrlr_api \<Rightarrow> 'w ns_api \<Rightarrow> 'w thread_api \<Rightarrow>
     'w process \<Rightarrow> 'w process \<Rightarrow> nvme_held \<Rightarrow> bool"
  for api :: "('o, 'w) ctrlr_api" and nsapi :: "'w ns_api" and tapi :: "'w thread_api"
    and s0 :: "'w process"
where
  start: "nvme_handles api nsapi tapi s0 s0
     \<lparr>held_ctrlrs = {#}, held_qpairs = Map.empty, borrowed_ns = {}, lost_ctrlrs = {#}\<rparr>"
| connected: "nvme_handles api nsapi tapi s0 s H \<Longrightarrow>
     connect api trid None s = (Inr c, s') \<or>
     get_current tapi s \<noteq> None \<and> connect_async api tapi trid None s = Some (Inr c, s') \<Longrightarrow>
     nvme_handles api nsapi tapi s0 s' (H\<lparr>held_ctrlrs := add_mset (ctrlr_ptr c) (held_ctrlrs H)\<rparr>)"
| not_connected: "nvme_handles api nsapi tapi s0 s H \<Longrightarrow>
     connect api trid None s = (Inl e, s') \<or>
     get_current tapi s \<noteq> None \<and> connect_async api tapi trid None s = Some (Inl e, s') \<Longrightarrow>
     nvme_handles api nsapi tapi s0 s' H"
| off_thread: "nvme_handles api nsapi tapi s0 s H \<Longrightarrow> get_current tapi s = None \<Longrightarrow>
     connect_async api tapi trid None s = Some (Inl e, s') \<Longrightarrow>
     nvme_handles api nsapi tapi s0 s' (H\<lparr>lost_ctrlrs := lost_ctrlrs H + left_behind s'\<rparr>)"
| allocated: "nvme_handles api nsapi tapi s0 s H \<Longrightarrow> c \<in># held_ctrlrs H \<Longrightarrow>
     alloc_io_qpair api (NvmeController c) None (spdk s) = (Inr q, w) \<Longrightarrow>
     nvme_handles api nsapi tapi s0 (s\<lparr>spdk := w\<rparr>)
       (H\<lparr>held_qpairs := (held_qpairs H)(qpair_ptr q \<mapsto> c)\<rparr>)"
| not_allocated: "nvme_handles api nsapi tapi s0 s H \<Longrightarrow> c \<in># held_ctrlrs H \<Longrightarrow>
     alloc_io_qpair api (NvmeController c) None (spdk s) = (Inl e, w) \<Longrightarrow>
     nvme_handles api nsapi tapi s0 (s\<lparr>spdk := w\<rparr>) H"
| borrows: "nvme_handles api nsapi tapi s0 s H \<Longrightarrow> c \<in># held_ctrlrs H \<Longrightarrow>
     namespace api nsapi (NvmeController c) i (spdk s) = Some ns \<Longrightarrow>
     nvme_handles api nsapi tapi s0 s (H\<lparr>borrowed_ns := insert (ns_ptr ns, c) (borrowed_ns H)\<rparr>)"
| returns: "nvme_handles api nsapi tapi s0 s H \<Longrightarrow>
     nvme_handles api nsapi tapi s0 s (H\<lparr>borrowed_ns := borrowed_ns H - B\<rparr>)"
| admin_polled: "nvme_handles api nsapi tapi s0 s H \<Longrightarrow> c \<in># held_ctrlrs H \<Longrightarrow>
     process_admin_completions api (NvmeController c) (spdk s) = (rc, w) \<Longrightarrow>
     nvme_handles api nsapi tapi s0 (s\<lparr>spdk := w\<rparr>) H"
| qpair_polled: "nvme_handles api nsapi tapi s0 s H \<Longrightarrow> held_qpairs H q \<noteq> None \<Longrightarrow>
     qpair_process_completions nsapi (NvmeQpair q) k (spdk s) = (rc, w) \<Longrightarrow>
     nvme_handles api nsapi tapi s0 (s\<lparr>spdk := w\<rparr>) H"
| submitted: "nvme_handles api nsapi tapi s0 s H \<Longrightarrow>
     held_qpairs H (qpair_ptr (command_qpair j)) \<noteq> None \<Longrightarrow>
     (ns_ptr (command_ns j), c) \<in> borrowed_ns H \<Longrightarrow> nvme_submit nsapi j p (spdk s) = (x, w) \<Longrightarrow>
     nvme_handles api nsapi tapi s0 (s\<lparr>spdk := w\<rparr>) H"
| thread_polled: "nvme_handles api nsapi tapi s0 s H \<Longrightarrow> current_poll tapi t s = (n, s') \<Longrightarrow>
     nvme_handles api nsapi tapi s0 s' H"
| qpair_dropped: "nvme_handles api nsapi tapi s0 s H \<Longrightarrow> held_qpairs H q \<noteq> None \<Longrightarrow>
     nvme_handles api nsapi tapi s0 (exec (qpair_drop nsapi (NvmeQpair q)) s)
       (H\<lparr>held_qpairs := (held_qpairs H)(q := None)\<rparr>)"
| ctrlr_dropped: "nvme_handles api nsapi tapi s0 s H \<Longrightarrow> c \<in># held_ctrlrs H \<Longrightarrow> qpairs_first H c \<Longrightarrow>
     nvme_handles api nsapi tapi s0 (exec (ctrlr_drop api (NvmeController c)) s)
       (H\<lparr>held_ctrlrs := held_ctrlrs H - {#c#}\<rparr>)"

lemma attach_contractD:
  assumes "attach_contract api tapi ctrlrs qpairs attaching"
  shows connect_contract: "spdk_nvme_connect api trid NullPtr w = (p, w') \<Longrightarrow> qpairs w' = qpairs w \<and>
      ctrlrs w' = (if p = null then ctrlrs w else add_mset p (ctrlrs w))"
    and connect_async_contract: "spdk_nvme_connect_async api trid NullPtr w = ((ctx, l), w') \<Longrightarrow>
      qpairs w' = qpairs w \<and> spdk_get_thread tapi w' = spdk_get_thread tapi w \<and>
      ctrlrs w' = ctrlrs w + mset l \<and>
      (l = [] \<or> ctx \<noteq> null \<and> \<not> attaching w' ctx \<and> (\<exists>p. p \<noteq> null \<and> l = [p]))"
    and probe_contract: "spdk_nvme_probe_poll_async api ctx w = ((rc, l), w') \<Longrightarrow> qpairs w' = qpairs w \<and>
      ctrlrs w' = ctrlrs w + mset l \<and> (attaching w' ctx \<longrightarrow> attaching w ctx) \<and>
      (l = [] \<or> attaching w ctx \<and> \<not> attaching w' ctx \<and> (\<exists>p. p \<noteq> null \<and> l = [p])) \<and>
      (rc \<noteq> 0 \<longrightarrow> rc \<noteq> - EAGAIN \<longrightarrow> attaching w' ctx)"
    and thread_poll_contract: "spdk_thread_poll tapi t k d w = (n, w') \<Longrightarrow> qpairs w' = qpairs w \<and>
      ctrlrs w' = ctrlrs w \<and> attaching w' = attaching w"
  using assms unfolding attach_contract_def by metis+

lemma qpair_contractD:
  assumes "qpair_contract api nsapi ctrlrs qpairs"
  shows alloc_contract: "c \<in># ctrlrs w \<Longrightarrow> spdk_nvme_ctrlr_alloc_io_qpair api c NullPtr w = (q, w') \<Longrightarrow>
      ctrlrs w' = ctrlrs w \<and>
      (if q = null then qpairs w' = qpairs w else qpairs w q = None \<and> qpairs w' = (qpairs w)(q \<mapsto> c))"
    and free_contract: "qpairs w q \<noteq> None \<Longrightarrow> ctrlrs (spdk_nvme_ctrlr_free_io_qpair nsapi q w) = ctrlrs w \<and>
      qpairs (spdk_nvme_ctrlr_free_io_qpair nsapi q w) = (qpairs w)(q := None)"
    and detach_contract: "c \<in># ctrlrs w \<Longrightarrow> ctrlrs (spdk_nvme_detach api c w) = ctrlrs w - {#c#} \<and>
      qpairs (spdk_nvme_detach api c w) =
        (if c \<in># ctrlrs w - {#c#} then qpairs w else qpairs w |` {q. qpairs w q \<noteq> Some c})"
    and admin_contract: "c \<in># ctrlrs w \<Longrightarrow> spdk_nvme_ctrlr_process_admin_completions api c w = (rc, w') \<Longrightarrow>
      ctrlrs w' = ctrlrs w \<and> qpairs w' = qpairs w"
    and completions_contract: "qpairs w q \<noteq> None \<Longrightarrow> spdk_nvme_qpair_process_completions nsapi q k w = (rc, w') \<Longrightarrow>
      ctrlrs w' = ctrlrs w \<and> qpairs w' = qpairs w"
    and command_contract: "qpairs w (qpair_ptr (command_qpair j)) \<noteq> None \<Longrightarrow> nvme_submit nsapi j p w = (x, w') \<Longrightarrow>
      ctrlrs w' = ctrlrs w \<and> qpairs w' = qpairs w"
  using assms unfolding qpair_contract_def by metis+

subsection \<open>Connecting\<close>

text \<open>While a connect is polled: nothing has attached yet, or one controller, which is in its slot.\<close>

definition attached_once ::
  "('w \<Rightarrow> ptr multiset) \<Rightarrow> ('w \<Rightarrow> ptr \<rightharpoonup> ptr) \<Rightarrow> ('w \<Rightarrow> ptr \<Rightarrow> bool) \<Rightarrow> ptr \<Rightarrow> 'w \<Rightarrow> 'w process \<Rightarrow> bool" where
  "attached_once ctrlrs qpairs attaching ctx w0 s \<longleftrightarrow> qpairs (spdk s) = qpairs w0 \<and>
     (ATTACHED_CTRLR s = None \<and> ctrlrs (spdk s) = ctrlrs w0 \<or>
      (\<exists>p. p \<noteq> null \<and> ATTACHED_CTRLR s = Some p \<and> \<not> attaching (spdk s) ctx \<and>
         ctrlrs (spdk s) = add_mset p (ctrlrs w0)))"

lemma probe_attached_once:
  assumes con: "attach_contract api tapi ctrlrs qpairs attaching"
    and "attached_once ctrlrs qpairs attaching ctx w0 s"
    and "call_attaching (spdk_nvme_probe_poll_async api ctx) s = (rc, s')"
  shows "attached_once ctrlrs qpairs attaching ctx w0 s'"
    and "rc \<noteq> 0 \<Longrightarrow> rc \<noteq> - EAGAIN \<Longrightarrow> ctrlrs (spdk s') = ctrlrs w0"
proof -
  obtain l w where probe: "spdk_nvme_probe_poll_async api ctx (spdk s) = ((rc, l), w)"
      "s' = fold attach_cb l (s\<lparr>spdk := w\<rparr>)"
    using assms(3) by (auto simp: call_attaching_def call_def split: prod.splits)
  from probe_contract [OF con probe(1)] assms(2) probe(2)
  show "attached_once ctrlrs qpairs attaching ctx w0 s'"
    and "rc \<noteq> 0 \<Longrightarrow> rc \<noteq> - EAGAIN \<Longrightarrow> ctrlrs (spdk s') = ctrlrs w0"
    by (auto simp: attached_once_def attach_cb_def)
qed

lemma poll_attached_once:
  assumes con: "attach_contract api tapi ctrlrs qpairs attaching"
    and "attached_once ctrlrs qpairs attaching ctx w0 s"
  shows "attached_once ctrlrs qpairs attaching ctx w0 (snd (current_poll tapi th s))"
proof -
  obtain n w where poll: "spdk_thread_poll tapi (current_ptr th) 0 0 (spdk s) = (n, w)" by fastforce
  from thread_poll_contract [OF con poll] assms(2) poll show ?thesis
    by (auto simp: attached_once_def current_poll_def call_def)
qed

lemma probe_loop_attached_once:
  assumes con: "attach_contract api tapi ctrlrs qpairs attaching"
    and "probe_loop api tapi th ctx s = Some (r, s')" "attached_once ctrlrs qpairs attaching ctx w0 s"
  shows "attached_once ctrlrs qpairs attaching ctx w0 s' \<and> (r \<noteq> Inr () \<longrightarrow> ctrlrs (spdk s') = ctrlrs w0)"
proof -
  let ?P = "\<lambda>api tapi th ctx s x. attach_contract api tapi ctrlrs qpairs attaching \<longrightarrow>
    attached_once ctrlrs qpairs attaching ctx w0 s \<longrightarrow> (case x of (r, s') \<Rightarrow>
      attached_once ctrlrs qpairs attaching ctx w0 s' \<and> (r \<noteq> Inr () \<longrightarrow> ctrlrs (spdk s') = ctrlrs w0))"
  have "?P api tapi th ctx s (r, s')"
  proof (rule probe_loop.raw_induct [where P = ?P, OF _ assms(2)])
    fix loop :: "('a, 'b) ctrlr_api \<Rightarrow> 'b thread_api \<Rightarrow> current_thread \<Rightarrow> ptr \<Rightarrow> 'b process \<Rightarrow>
      ((error, unit) result \<times> 'b process) option"
      and api tapi th ctx s x
    assume IH: "\<And>api tapi th ctx s x. loop api tapi th ctx s = Some x \<Longrightarrow> ?P api tapi th ctx s x"
      and eq: "(case call_attaching (spdk_nvme_probe_poll_async api ctx) s of (rc, s) \<Rightarrow>
        if rc = 0 then Some (Inr (), s)
        else if rc = - EAGAIN then loop api tapi th ctx (snd (current_poll tapi th s))
        else Some (Inl (from_errno (- rc)), s)) = Some x"
    obtain rc s1 where rc: "call_attaching (spdk_nvme_probe_poll_async api ctx) s = (rc, s1)" by fastforce
    show "?P api tapi th ctx s x"
    proof (intro impI)
      assume con: "attach_contract api tapi ctrlrs qpairs attaching"
        and once: "attached_once ctrlrs qpairs attaching ctx w0 s"
      note * = probe_attached_once [OF con once rc]
      from eq rc * IH [of api tapi th ctx "snd (current_poll tapi th s1)" x] con
        poll_attached_once [OF con *(1), of th]
      show "case x of (r, s') \<Rightarrow> attached_once ctrlrs qpairs attaching ctx w0 s' \<and>
          (r \<noteq> Inr () \<longrightarrow> ctrlrs (spdk s') = ctrlrs w0)"
        by (auto split: if_splits)
    qed
  qed
  with con assms(3) show ?thesis by simp
qed

lemma connect_async_refs:
  assumes con: "attach_contract api tapi ctrlrs qpairs attaching" and th: "get_current tapi s \<noteq> None"
    and "connect_async api tapi trid None s = Some (r, s')"
  shows "qpairs (spdk s') = qpairs (spdk s) \<and> ctrlrs (spdk s') =
     (case r of Inr c \<Rightarrow> add_mset (ctrlr_ptr c) (ctrlrs (spdk s)) | Inl _ \<Rightarrow> ctrlrs (spdk s))"
proof -
  let ?s = "s\<lparr>ATTACHED_CTRLR := None\<rparr>"
  obtain ctx l w where async:
    "spdk_nvme_connect_async api trid NullPtr (spdk s) = ((ctx, l), w)"
    by (metis surj_pair)
  let ?s1 = "fold attach_cb l (?s\<lparr>spdk := w\<rparr>)"
  have start: "call_attaching (spdk_nvme_connect_async api trid NullPtr) ?s = (ctx, ?s1)"
    using async by (simp add: call_attaching_def call_def)
  note law = connect_async_contract [OF con async]
  then have once: "attached_once ctrlrs qpairs attaching ctx (spdk s) ?s1"
    by (auto simp: attached_once_def attach_cb_def)
  have "spdk ?s1 = w" using law by (auto simp: attach_cb_def)
  with law th obtain t where t: "get_current tapi ?s1 = Some t" by (auto simp: get_current_def)
  show ?thesis
  proof (cases "ctx = null")
    case True
    with assms(3) start law show ?thesis by (auto simp: connect_async_def ctrlr_opts_ptr_def)
  next
    case False
    then obtain x s2 where loop: "probe_loop api tapi t ctx ?s1 = Some (x, s2)"
      "(r, s') = (case x of Inl e \<Rightarrow> (Inl e, s2)
         | Inr _ \<Rightarrow> (ok_or (map_option NvmeController (Option.bind (ATTACHED_CTRLR s2) nonnull)) ControllerNotFound,
             s2\<lparr>ATTACHED_CTRLR := None\<rparr>))"
      using assms(3) start t by (auto simp: connect_async_def ctrlr_opts_ptr_def Let_def split: option.splits sum.splits)
    from probe_loop_attached_once [OF con loop(1) once] loop(2) show ?thesis
      by (auto simp: attached_once_def ok_or_def nonnull_def split: sum.splits)
  qed
qed

text \<open>Off SPDK's threads a connect always fails, and leaves behind what has attached.\<close>

lemma connect_async_off_thread:
  assumes con: "attach_contract api tapi ctrlrs qpairs attaching" and th: "get_current tapi s = None"
    and "connect_async api tapi trid None s = Some (r, s')"
  shows "qpairs (spdk s') = qpairs (spdk s) \<and> ctrlrs (spdk s') = ctrlrs (spdk s) + left_behind s' \<and>
     (\<exists>e. r = Inl e)"
proof -
  obtain ctx l w where async: "spdk_nvme_connect_async api trid NullPtr (spdk s) = ((ctx, l), w)"
    by (metis surj_pair)
  note law = connect_async_contract [OF con async]
  let ?s1 = "fold attach_cb l (s\<lparr>ATTACHED_CTRLR := None, spdk := w\<rparr>)"
  have "get_current tapi ?s1 = None" using law th by (auto simp: get_current_def attach_cb_def)
  then have "s' = ?s1 \<and> (\<exists>e. r = Inl e)"
    using assms(3) async by (auto simp: connect_async_def ctrlr_opts_ptr_def call_attaching_def call_def Let_def
      split: if_splits)
  with law show ?thesis by (auto simp: left_behind_def attach_cb_def)
qed

lemma connect_refs:
  assumes con: "attach_contract api tapi ctrlrs qpairs attaching"
    and "connect api trid None s = (r, s') \<or>
      get_current tapi s \<noteq> None \<and> connect_async api tapi trid None s = Some (r, s')"
  shows "qpairs (spdk s') = qpairs (spdk s) \<and> ctrlrs (spdk s') =
     (case r of Inr c \<Rightarrow> add_mset (ctrlr_ptr c) (ctrlrs (spdk s)) | Inl _ \<Rightarrow> ctrlrs (spdk s))"
  using assms(2)
proof
  assume "connect api trid None s = (r, s')"
  then show ?thesis
    by (auto simp: connect_def ctrlr_opts_ptr_def call_def ok_or_def nonnull_def Let_def split: prod.splits
        dest!: connect_contract [OF con])
qed (use connect_async_refs [OF con] in blast)

subsection \<open>Balance\<close>

definition nvme_balanced ::
  "('w \<Rightarrow> ptr multiset) \<Rightarrow> ('w \<Rightarrow> ptr \<rightharpoonup> ptr) \<Rightarrow> 'w \<Rightarrow> nvme_held \<Rightarrow> bool" where
  "nvme_balanced ctrlrs qpairs w H \<longleftrightarrow> ctrlrs w = held_ctrlrs H + lost_ctrlrs H \<and> qpairs w = held_qpairs H \<and>
     ran (held_qpairs H) \<subseteq> set_mset (held_ctrlrs H) \<and> snd ` borrowed_ns H \<subseteq> set_mset (held_ctrlrs H)"

lemma alloc_balanced:
  assumes con: "qpair_contract api nsapi ctrlrs qpairs" and "nvme_balanced ctrlrs qpairs w H"
    and "c \<in># held_ctrlrs H" "alloc_io_qpair api (NvmeController c) None w = (r, w')"
  shows "nvme_balanced ctrlrs qpairs w' (case r of
      Inr q \<Rightarrow> H\<lparr>held_qpairs := (held_qpairs H)(qpair_ptr q \<mapsto> c)\<rparr> | Inl _ \<Rightarrow> H)"
proof -
  from assms(4) obtain q where q: "spdk_nvme_ctrlr_alloc_io_qpair api c NullPtr w = (q, w')"
      "r = ok_or (map_option qpair_from_ptr (nonnull q)) QpairAlloc"
    by (auto simp: alloc_io_qpair_def Let_def split: prod.splits)
  from assms(2,3) have "c \<in># ctrlrs w" by (simp add: nvme_balanced_def)
  from alloc_contract [OF con this q(1)] q(2) assms(2,3) show ?thesis
    by (auto simp: nvme_balanced_def ok_or_def nonnull_def qpair_from_ptr_def)
qed

lemma qpair_drop_balanced:
  assumes con: "qpair_contract api nsapi ctrlrs qpairs" and bal: "nvme_balanced ctrlrs qpairs w H"
    and "held_qpairs H q \<noteq> None"
  shows "nvme_balanced ctrlrs qpairs (qpair_drop nsapi (NvmeQpair q) w)
    (H\<lparr>held_qpairs := (held_qpairs H)(q := None)\<rparr>)"
proof -
  from bal assms(3) have "qpairs w q \<noteq> None" by (simp add: nvme_balanced_def)
  from free_contract [OF con this] bal show ?thesis
    by (auto simp: nvme_balanced_def qpair_drop_def ran_def)
qed

lemma remaining_iff: "c \<in># M - {#c#} \<longleftrightarrow> 1 < count M c"
  by (metis count_diff count_single zero_less_diff count_greater_zero_iff)

lemma ctrlr_drop_balanced:
  assumes con: "qpair_contract api nsapi ctrlrs qpairs" and bal: "nvme_balanced ctrlrs qpairs w H"
    and "c \<in># held_ctrlrs H" "qpairs_first H c"
  shows "nvme_balanced ctrlrs qpairs (ctrlr_drop api (NvmeController c) w)
    (H\<lparr>held_ctrlrs := held_ctrlrs H - {#c#}\<rparr>)"
proof -
  from bal assms(3) have "c \<in># ctrlrs w" by (simp add: nvme_balanced_def)
  note law = detach_contract [OF con this]
  have rest: "held_qpairs H |` {q. held_qpairs H q \<noteq> Some c} = held_qpairs H" if "c \<notin> ran (held_qpairs H)"
    using that by (auto simp: restrict_map_def ran_def fun_eq_iff)
  have others: "A \<subseteq> set_mset (held_ctrlrs H - {#c#})"
    if "A \<subseteq> set_mset (held_ctrlrs H)" "1 < count (held_ctrlrs H) c \<or> c \<notin> A" for A
  proof
    fix x assume "x \<in> A"
    with that show "x \<in># held_ctrlrs H - {#c#}"
      by (cases "x = c") (auto simp: remaining_iff in_diff_count)
  qed
  have w: "ctrlrs w = held_ctrlrs H + lost_ctrlrs H" "qpairs w = held_qpairs H"
    "ran (held_qpairs H) \<subseteq> set_mset (held_ctrlrs H)" "snd ` borrowed_ns H \<subseteq> set_mset (held_ctrlrs H)"
    using bal by (simp_all add: nvme_balanced_def)
  have "ctrlrs w - {#c#} = held_ctrlrs H - {#c#} + lost_ctrlrs H"
    using assms(3) w(1) by (simp add: multiset_diff_union_assoc add.commute)
  moreover have "qpairs (spdk_nvme_detach api c w) = held_qpairs H"
  proof (cases "1 < count (held_ctrlrs H) c")
    case True
    then have "c \<in># ctrlrs w - {#c#}" by (simp add: remaining_iff w(1))
    with law w(2) show ?thesis by simp
  next
    case False
    with assms(4) have "c \<notin> ran (held_qpairs H)" by (simp add: qpairs_first_def)
    with law w(2) rest show ?thesis by simp
  qed
  moreover have "1 < count (held_ctrlrs H) c \<or> c \<notin> ran (held_qpairs H)"
    "1 < count (held_ctrlrs H) c \<or> c \<notin> snd ` borrowed_ns H"
    using assms(4) by (auto simp: qpairs_first_def)
  ultimately show ?thesis using law others [OF w(3)] others [OF w(4)]
    by (simp add: nvme_balanced_def ctrlr_drop_def)
qed

lemma nvme_run_balanced:
  assumes "attach_contract api tapi ctrlrs qpairs attaching" "qpair_contract api nsapi ctrlrs qpairs"
    and "ctrlrs (spdk s0) = {#}" "qpairs (spdk s0) = Map.empty"
    and "nvme_handles api nsapi tapi s0 s H"
  shows "nvme_balanced ctrlrs qpairs (spdk s) H"
  using assms(5)
proof induction
  case start
  from assms(3,4) show ?case by (simp add: nvme_balanced_def)
next
  case (connected s H trid c s')
  from connect_refs [OF assms(1) connected.hyps(2)] connected.IH show ?case
    by (auto simp: nvme_balanced_def)
next
  case (not_connected s H trid e s')
  from connect_refs [OF assms(1) not_connected.hyps(2)] not_connected.IH show ?case
    by (simp add: nvme_balanced_def)
next
  case (off_thread s H trid e s')
  from connect_async_off_thread [OF assms(1) off_thread.hyps(2,3)] off_thread.IH show ?case
    by (simp add: nvme_balanced_def add.assoc)
next
  case (allocated s H c q w)
  from alloc_balanced [OF assms(2) allocated.IH allocated.hyps(2,3)] show ?case by simp
next
  case (not_allocated s H c e w)
  from alloc_balanced [OF assms(2) not_allocated.IH not_allocated.hyps(2,3)] show ?case by simp
next
  case borrows
  then show ?case by (auto simp: nvme_balanced_def)
next
  case returns
  then show ?case by (auto simp: nvme_balanced_def)
next
  case (admin_polled s H c rc w)
  then have "c \<in># ctrlrs (spdk s)" by (simp add: nvme_balanced_def)
  from admin_contract [OF assms(2) this] admin_polled show ?case
    by (auto simp: nvme_balanced_def process_admin_completions_def)
next
  case (qpair_polled s H q k rc w)
  then have "qpairs (spdk s) q \<noteq> None" by (simp add: nvme_balanced_def)
  from completions_contract [OF assms(2) this] qpair_polled show ?case
    by (auto simp: nvme_balanced_def qpair_process_completions_def)
next
  case (submitted s H j c p x w)
  then have "qpairs (spdk s) (qpair_ptr (command_qpair j)) \<noteq> None" by (simp add: nvme_balanced_def)
  from command_contract [OF assms(2) this] submitted show ?case by (simp add: nvme_balanced_def)
next
  case (thread_polled s H t n s')
  then show ?case
    by (auto simp: nvme_balanced_def current_poll_def call_def split: prod.splits
        dest!: thread_poll_contract [OF assms(1)])
next
  case qpair_dropped
  then show ?case using qpair_drop_balanced [OF assms(2)] by simp
next
  case ctrlr_dropped
  then show ?case using ctrlr_drop_balanced [OF assms(2)] by simp
qed

lemma nvme_run_lost:
  assumes "nvme_handles api nsapi tapi s0 s H" "\<forall>w. get_current tapi w \<noteq> None"
  shows "lost_ctrlrs H = {#}"
  using assms by induction simp_all

text \<open>
  Functions that fulfil the contracts: one controller, 6, attached when the probe is polled, and queue
  pairs 9 and 10. The state is the references, the queue pairs, and whether a probe has yet to attach.
\<close>

type_synonym nvme_world = "ptr multiset \<times> (ptr \<rightharpoonup> ptr) \<times> bool"

definition counting_ctrlr :: "(unit, nvme_world) ctrlr_api" where
  "counting_ctrlr = \<lparr>
     spdk_nvme_ctrlr_get_default_ctrlr_opts = (\<lambda>_. \<lparr>num_io_queues = 8, io_queue_size = 256,
       admin_queue_size = 32, keep_alive_timeout_ms = 10000, other_ctrlr_opts = ()\<rparr>),
     spdk_nvme_connect = (\<lambda>_ _ (C, Q, a). (6, (add_mset 6 C, Q, a))),
     spdk_nvme_connect_async = (\<lambda>_ _ (C, Q, a). ((3, []), (C, Q, True))),
     spdk_nvme_probe_poll_async = (\<lambda>_ (C, Q, a). if a then ((0, [6]), (add_mset 6 C, Q, False)) else ((0, []), (C, Q, a))),
     spdk_nvme_ctrlr_get_num_ns = (\<lambda>_ _. 2), spdk_nvme_ctrlr_get_ns = (\<lambda>_ n _. 100 + unat n),
     spdk_nvme_ctrlr_get_default_io_qpair_opts = (\<lambda>_ _. \<lparr>qpair_io_queue_size = 128,
       io_queue_requests = 512, other_qpair_opts = ()\<rparr>),
     spdk_nvme_ctrlr_alloc_io_qpair = (\<lambda>c _ (C, Q, a).
       if Q 9 = None then (9, (C, Q(9 \<mapsto> c), a)) else if Q 10 = None then (10, (C, Q(10 \<mapsto> c), a)) else (0, (C, Q, a))),
     spdk_nvme_ctrlr_process_admin_completions = (\<lambda>_ w. (0, w)),
     spdk_nvme_detach = (\<lambda>c (C, Q, a).
       (C - {#c#}, if c \<in># C - {#c#} then Q else Q |` {q. Q q \<noteq> Some c}, a))\<rparr>"

definition counting_ns :: "nvme_world ns_api" where
  "counting_ns = \<lparr>spdk_nvme_ns_get_id = (\<lambda>_ _. 1), spdk_nvme_ns_get_sector_size = (\<lambda>_ _. 4096),
     spdk_nvme_ns_get_num_sectors = (\<lambda>_ _. 1024), spdk_nvme_ns_is_active = (\<lambda>_ _. True),
     spdk_nvme_ns_cmd_read = (\<lambda>_ _ _ _ _ _ _ w. ((0, None), w)),
     spdk_nvme_ns_cmd_write = (\<lambda>_ _ _ _ _ _ _ w. ((0, None), w)),
     spdk_nvme_qpair_process_completions = (\<lambda>_ _ w. (0, w)),
     spdk_nvme_ctrlr_free_io_qpair = (\<lambda>q (C, Q, a). (C, Q(q := None), a))\<rparr>"

lemma counting_attach: "attach_contract counting_ctrlr still_thread fst (fst \<circ> snd) (\<lambda>w _. snd (snd w))"
  by (auto simp: attach_contract_def counting_ctrlr_def still_thread_def split: prod.splits if_splits)

lemma counting_qpair: "qpair_contract counting_ctrlr counting_ns fst (fst \<circ> snd)"
proof -
  have "nvme_submit counting_ns j p w = ((0, None), w)" for j p w
    by (cases j) (simp_all add: counting_ns_def)
  then show ?thesis
    by (auto simp: qpair_contract_def counting_ctrlr_def counting_ns_def split: prod.splits if_splits)
qed

text \<open>Connect by polling, and allocate a queue pair.\<close>

lemma counting_run:
  "nvme_handles counting_ctrlr counting_ns still_thread (fresh_process ({#}, Map.empty, False))
     (fresh_process ({#6#}, [9 \<mapsto> 6], False)) \<lparr>held_ctrlrs = {#6#}, held_qpairs = [9 \<mapsto> 6], borrowed_ns = {}, lost_ctrlrs = {#}\<rparr>"
proof -
  let ?run = "nvme_handles counting_ctrlr counting_ns still_thread (fresh_process ({#}, Map.empty, False))"
  have "probe_loop counting_ctrlr still_thread (CurrentThread 5) 3 (fresh_process ({#}, Map.empty, True)) =
      Some (Inr (), fresh_process ({#6#}, Map.empty, False)\<lparr>ATTACHED_CTRLR := Some 6\<rparr>)"
    by (subst probe_loop.simps) (simp add: call_attaching_def call_def counting_ctrlr_def fresh_process_def attach_cb_def)
  moreover have "call_attaching (spdk_nvme_connect_async counting_ctrlr (zeroed_trid spdk_layout) NullPtr)
      (fresh_process ({#}, Map.empty, False)\<lparr>ATTACHED_CTRLR := None\<rparr>) = (3, fresh_process ({#}, Map.empty, True))"
    by (simp add: call_attaching_def call_def counting_ctrlr_def fresh_process_def)
  moreover have th: "get_current still_thread s = Some (CurrentThread 5)" for s :: "nvme_world process"
    by (simp add: get_current_def still_thread_def nonnull_def)
  ultimately have "connect_async counting_ctrlr still_thread (zeroed_trid spdk_layout) None (fresh_process ({#}, Map.empty, False)) =
      Some (Inr (NvmeController 6), fresh_process ({#6#}, Map.empty, False))"
    by (simp add: connect_async_def ctrlr_opts_ptr_def nonnull_def ok_or_def) (simp add: fresh_process_def)
  with th have "?run (fresh_process ({#6#}, Map.empty, False))
      \<lparr>held_ctrlrs = {#6#}, held_qpairs = Map.empty, borrowed_ns = {}, lost_ctrlrs = {#}\<rparr>"
    using nvme_handles.connected [OF nvme_handles.start] by fastforce
  from nvme_handles.allocated [OF this, of 6 "NvmeQpair 9" "({#6#}, [9 \<mapsto> 6], False)"] show ?thesis
    by (simp add: alloc_io_qpair_def counting_ctrlr_def fresh_process_def nonnull_def ok_or_def qpair_from_ptr_def)
qed

text \<open>
  C8: In every run of connecting without options (at once or by polling, on SPDK's threads or off them),
  allocating queue pairs without options, borrowing namespaces, polling, submitting and dropping in which
  queue pairs and borrows end before their controller, SPDK's live queue pairs are exactly those the
  program holds, and its references to controllers are those the program holds and those that
  \<open>connect_async\<close> lost off SPDK's threads, none if no connect was made there: each is given back once,
  none is used after it was freed, and a borrowed namespace has its controller. (With options the code
  passes SPDK a dangling pointer.)
\<close>

theorem nvme_handles_balanced:
  assumes "attach_contract api tapi ctrlrs qpairs attaching" "qpair_contract api nsapi ctrlrs qpairs"
    and "ctrlrs (spdk s0) = {#}" "qpairs (spdk s0) = Map.empty"
    and "nvme_handles api nsapi tapi s0 s H"
  shows "ctrlrs (spdk s) = held_ctrlrs H + lost_ctrlrs H \<and> qpairs (spdk s) = held_qpairs H \<and>
     ran (held_qpairs H) \<subseteq> set_mset (held_ctrlrs H) \<and> snd ` borrowed_ns H \<subseteq> set_mset (held_ctrlrs H) \<and>
     ((\<forall>w. get_current tapi w \<noteq> None) \<longrightarrow> lost_ctrlrs H = {#})"
  using nvme_run_balanced [OF assms] nvme_run_lost [OF assms(5)] by (simp add: nvme_balanced_def)

text \<open>Connected twice, one of the two handles is dropped: the queue pair lives on.\<close>

theorem nvme_handles_balanced_witness:
  "\<exists>s. nvme_handles counting_ctrlr counting_ns still_thread (fresh_process ({#}, Map.empty, False)) s
       \<lparr>held_ctrlrs = {#6#}, held_qpairs = [9 \<mapsto> 6], borrowed_ns = {}, lost_ctrlrs = {#}\<rparr> \<and>
     fst (spdk s) = {#6#} \<and> fst (snd (spdk s)) = [9 \<mapsto> 6]"
proof -
  let ?run = "nvme_handles counting_ctrlr counting_ns still_thread (fresh_process ({#}, Map.empty, False))"
  let ?s = "fresh_process ({#6, 6#}, [9 \<mapsto> 6], False)"
  have "connect counting_ctrlr (zeroed_trid spdk_layout) None (fresh_process ({#6#}, [9 \<mapsto> 6], False)) =
      (Inr (NvmeController 6), ?s)"
    by (simp add: connect_def ctrlr_opts_ptr_def call_def counting_ctrlr_def fresh_process_def nonnull_def ok_or_def)
  from nvme_handles.connected [OF counting_run disjI1 [OF this]]
  have "?run ?s \<lparr>held_ctrlrs = {#6, 6#}, held_qpairs = [9 \<mapsto> 6], borrowed_ns = {}, lost_ctrlrs = {#}\<rparr>" by simp
  from nvme_handles.ctrlr_dropped [OF this, of 6]
  have run: "?run (exec (ctrlr_drop counting_ctrlr (NvmeController 6)) ?s)
      \<lparr>held_ctrlrs = {#6#}, held_qpairs = [9 \<mapsto> 6], borrowed_ns = {}, lost_ctrlrs = {#}\<rparr>"
    by (simp add: qpairs_first_def)
  have "fst (spdk (fresh_process ({#}, Map.empty, False))) = {#}"
    "(fst \<circ> snd) (spdk (fresh_process ({#}, Map.empty, False))) = Map.empty" by (simp_all add: fresh_process_def)
  from nvme_handles_balanced [OF counting_attach counting_qpair this run] run show ?thesis by auto
qed

text \<open>
  The order matters: dropping a controller that is held once, and that no lost reference keeps, ends its
  queue pairs in SPDK, although the program may hold them still (an \<open>NvmeQpair\<close> does not borrow its
  controller).
\<close>

lemma early_drop_frees_qpairs:
  assumes "attach_contract api tapi ctrlrs qpairs attaching" "qpair_contract api nsapi ctrlrs qpairs"
    and "ctrlrs (spdk s0) = {#}" "qpairs (spdk s0) = Map.empty"
    and run: "nvme_handles api nsapi tapi s0 s H" and q: "held_qpairs H q = Some c"
    and c: "count (held_ctrlrs H + lost_ctrlrs H) c = 1"
  shows "qpairs (spdk (exec (ctrlr_drop api (NvmeController c)) s)) q = None"
proof -
  have bal: "ctrlrs (spdk s) = held_ctrlrs H + lost_ctrlrs H" "qpairs (spdk s) = held_qpairs H"
    using nvme_run_balanced [OF assms(1-5)] by (simp_all add: nvme_balanced_def)
  with c have "c \<in># ctrlrs (spdk s)" by (metis count_inI zero_neq_one)
  with detach_contract [OF assms(2), of c "spdk s"] bal q c show ?thesis
    by (simp add: ctrlr_drop_def remaining_iff restrict_map_def)
qed

end
