(* ===== verification/NvmfRegistry.thy ===== *)
theory NvmfRegistry
  imports Nvmf_Correct
begin

text \<open>
  Whole runs of NVMe-oF targets and their subsystems (\<open>nvmf/target.rs\<close>, \<open>nvmf/subsystem.rs\<close>) against the
  abstract view of a target: a map from names to subsystems. A run is any sequence of the operations that
  make, find, configure and drop them which Rust's ownership allows; the handle of a subsystem is used
  only while its target is held, which Rust does not ask for: a program keeps the handles of a target
  it has dropped, and SPDK ends their subsystems when it likes.
\<close>

section \<open>What SPDK documents\<close>

text \<open>
  \<open>targets\<close> are the targets alive, \<open>dying\<close> those that are being destroyed, and \<open>names\<close> maps the names of the
  subsystems of each target to them. A new target or subsystem is none of those that SPDK still has; a new
  subsystem has a name that is free in its target. Destroying a target is asynchronous: at once it is a
  target no more, but SPDK ends it and its subsystems bit by bit, during any of its calls (\<open>progress\<close>) and
  when its threads are polled (\<open>work\<close>). Nothing else makes or ends either. Nothing is promised of a target
  that is not alive and of a subsystem of no target.
\<close>

definition subsystems :: "ptr set \<Rightarrow> ('w \<Rightarrow> ptr \<Rightarrow> string \<rightharpoonup> ptr) \<Rightarrow> 'w \<Rightarrow> ptr set" where
  "subsystems T names w = (\<Union>t \<in> T. ran (names w t))"

definition progress ::
  "('w \<Rightarrow> ptr set) \<Rightarrow> ('w \<Rightarrow> ptr \<Rightarrow> string \<rightharpoonup> ptr) \<Rightarrow> ptr set \<Rightarrow> 'w \<Rightarrow> 'w \<Rightarrow> bool" where
  "progress dying names D w w' \<longleftrightarrow> dying w' \<subseteq> D \<and> (\<forall>t \<in> dying w'. names w' t \<subseteq>\<^sub>m names w t)"

definition unchanged ::
  "('w \<Rightarrow> ptr set) \<Rightarrow> ('w \<Rightarrow> ptr set) \<Rightarrow> ('w \<Rightarrow> ptr \<Rightarrow> string \<rightharpoonup> ptr) \<Rightarrow> 'w \<Rightarrow> 'w \<Rightarrow> bool" where
  "unchanged targets dying names w w' \<longleftrightarrow> targets w' = targets w \<and> (\<forall>t \<in> targets w. names w' t = names w t) \<and>
     progress dying names (dying w) w w'"

definition target_contract ::
  "('o, 'w) nvmf_api \<Rightarrow> ('w \<Rightarrow> ptr set) \<Rightarrow> ('w \<Rightarrow> ptr set) \<Rightarrow> ('w \<Rightarrow> ptr \<Rightarrow> string \<rightharpoonup> ptr) \<Rightarrow> bool" where
  "target_contract api targets dying names \<longleftrightarrow>
     (\<forall>opts w p w'. spdk_nvmf_tgt_create api opts w = (p, w') \<longrightarrow>
        (if p = null then unchanged targets dying names w w'
         else p \<notin> targets w \<union> dying w \<and> targets w' = insert p (targets w) \<and> names w' p = Map.empty \<and>
           (\<forall>t \<in> targets w. names w' t = names w t) \<and> progress dying names (dying w) w w')) \<and>
     (\<forall>t w. t \<in> targets w \<longrightarrow> (let w' = spdk_nvmf_tgt_destroy api t w in
        targets w' = targets w - {t} \<and> (\<forall>u \<in> targets w - {t}. names w' u = names w u) \<and>
        progress dying names (insert t (dying w)) w w'))"

definition create_contract ::
  "('o, 'w) nvmf_api \<Rightarrow> ('w \<Rightarrow> ptr set) \<Rightarrow> ('w \<Rightarrow> ptr set) \<Rightarrow> ('w \<Rightarrow> ptr \<Rightarrow> string \<rightharpoonup> ptr) \<Rightarrow> bool" where
  "create_contract api targets dying names \<longleftrightarrow>
     (\<forall>t n w p w'. t \<in> targets w \<longrightarrow>
        spdk_nvmf_subsystem_create api t n (SUBTYPE_NVME api) 0 w = (p, w') \<longrightarrow>
        (if p = null then unchanged targets dying names w w'
         else names w t n = None \<and> p \<notin> subsystems (targets w \<union> dying w) names w \<and>
           targets w' = targets w \<and> (\<forall>u \<in> targets w - {t}. names w' u = names w u) \<and>
           names w' t = (names w t)(n \<mapsto> p) \<and> progress dying names (dying w) w w')) \<and>
     (\<forall>t n w. t \<in> targets w \<longrightarrow> spdk_nvmf_tgt_find_subsystem api t n w =
        (case names w t n of None \<Rightarrow> null | Some p \<Rightarrow> p)) \<and>
     (\<forall>t n p w. t \<in> targets w \<longrightarrow> names w t n = Some p \<longrightarrow>
        p \<noteq> null \<and> spdk_nvmf_subsystem_get_nqn api p w = Some n)"

datatype nvmf_request =
    ChangeState state_change
  | AddListener nvmf_subsystem transport_id
  | AddTransport nvmf_target nvmf_transport

primrec nvmf_submit :: "('o, 'w) nvmf_api \<Rightarrow> nvmf_request \<Rightarrow> ('w, i32) submission" where
  "nvmf_submit api (ChangeState q) = state_change_submit api q"
| "nvmf_submit api (AddListener x trid) =
     void_call (spdk_nvmf_subsystem_add_listener api (subsystem_ptr x) trid)"
| "nvmf_submit api (AddTransport t tr) =
     void_call (spdk_nvmf_tgt_add_transport api (target_ptr t) (transport_into_ptr tr))"

primrec changed_subsystem :: "state_change \<Rightarrow> nvmf_subsystem" where
  "changed_subsystem (Start x) = x"
| "changed_subsystem (Stop x) = x"

primrec request_alive :: "ptr set \<Rightarrow> ptr set \<Rightarrow> nvmf_request \<Rightarrow> bool" where
  "request_alive T X (ChangeState q) \<longleftrightarrow> subsystem_ptr (changed_subsystem q) \<in> X"
| "request_alive T X (AddListener x trid) \<longleftrightarrow> subsystem_ptr x \<in> X"
| "request_alive T X (AddTransport t tr) \<longleftrightarrow> target_ptr t \<in> T"

definition configure_contract ::
  "('o, 'w) nvmf_api \<Rightarrow> ('w \<Rightarrow> 'w \<Rightarrow> bool) \<Rightarrow> ('w \<Rightarrow> ptr set) \<Rightarrow> ('w \<Rightarrow> ptr set) \<Rightarrow>
     ('w \<Rightarrow> ptr \<Rightarrow> string \<rightharpoonup> ptr) \<Rightarrow> bool" where
  "configure_contract api work targets dying names \<longleftrightarrow>
     (\<forall>p w. p \<in> subsystems (targets w) names w \<longrightarrow>
        (\<forall>sn. unchanged targets dying names w (snd (spdk_nvmf_subsystem_set_sn api p sn w))) \<and>
        (\<forall>mn. unchanged targets dying names w (snd (spdk_nvmf_subsystem_set_mn api p mn w))) \<and>
        (\<forall>b. unchanged targets dying names w (spdk_nvmf_subsystem_set_allow_any_host api p b w)) \<and>
        (\<forall>bdev. unchanged targets dying names w (snd (spdk_nvmf_subsystem_add_ns_ext api p bdev w)))) \<and>
     (\<forall>t trid w. t \<in> targets w \<longrightarrow> unchanged targets dying names w (snd (spdk_nvmf_tgt_listen_ext api t trid w))) \<and>
     (\<forall>q p w. request_alive (targets w) (subsystems (targets w) names w) q \<longrightarrow>
        unchanged targets dying names w (snd (nvmf_submit api q p w))) \<and>
     (\<forall>n opts w. unchanged targets dying names w (snd (spdk_nvmf_transport_create api n opts w))) \<and>
     (\<forall>w w'. work w w' \<longrightarrow> unchanged targets dying names w w')"

section \<open>Runs\<close>

text \<open>
  What a program has of its targets: for each name the subsystem it was given under it, and the names
  left over by creations that failed after SPDK had made the subsystem. Of the targets it has dropped it
  keeps the handles of their subsystems.
\<close>

record nvmf_held =
  held_targets :: "ptr set"
  given :: "ptr \<Rightarrow> string \<rightharpoonup> nvmf_subsystem"
  leftovers :: "(ptr \<times> string) set"
  kept :: "nvmf_subsystem set"

inductive nvmf_run :: "('o, 'w) nvmf_api \<Rightarrow> ('w \<Rightarrow> 'w \<Rightarrow> bool) \<Rightarrow> 'w \<Rightarrow> 'w \<Rightarrow> nvmf_held \<Rightarrow> bool"
  for api :: "('o, 'w) nvmf_api" and work :: "'w \<Rightarrow> 'w \<Rightarrow> bool" and w0 :: 'w
where
  start: "nvmf_run api work w0 w0 \<lparr>held_targets = {}, given = (\<lambda>_. Map.empty), leftovers = {}, kept = {}\<rparr>"
| target_made: "nvmf_run api work w0 w H \<Longrightarrow> create_with_opts api opts w = (Inr t, w') \<Longrightarrow>
     nvmf_run api work w0 w' (H\<lparr>held_targets := insert (target_ptr t) (held_targets H)\<rparr>)"
| target_refused: "nvmf_run api work w0 w H \<Longrightarrow> create_with_opts api opts w = (Inl e, w') \<Longrightarrow>
     nvmf_run api work w0 w' H"
| subsystem_made: "nvmf_run api work w0 w H \<Longrightarrow> t \<in> held_targets H \<Longrightarrow> utf8_valid n \<Longrightarrow>
     create_subsystem api (NvmfTarget t) n sopts w = (Inr x, w') \<Longrightarrow>
     nvmf_run api work w0 w' (H\<lparr>given := (given H)(t := (given H t)(n \<mapsto> x))\<rparr>)"
| subsystem_refused: "nvmf_run api work w0 w H \<Longrightarrow> t \<in> held_targets H \<Longrightarrow> utf8_valid n \<Longrightarrow>
     create_subsystem api (NvmfTarget t) n sopts w = (Inl e, w') \<Longrightarrow>
     nvmf_run api work w0 w' (H\<lparr>leftovers := leftovers H \<union>
       (if find_subsystem api (NvmfTarget t) n w = None \<and> find_subsystem api (NvmfTarget t) n w' \<noteq> None
        then {(t, n)} else {})\<rparr>)"
| found: "nvmf_run api work w0 w H \<Longrightarrow> t \<in> held_targets H \<Longrightarrow>
     find_subsystem api (NvmfTarget t) n w = Some x \<Longrightarrow>
     nvmf_run api work w0 w (H\<lparr>given := (given H)(t := (given H t)(n \<mapsto> x)), leftovers := leftovers H - {(t, n)}\<rparr>)"
| configured: "nvmf_run api work w0 w H \<Longrightarrow> given H t n = Some x \<Longrightarrow>
     w' \<in> {snd (set_serial_number api x str w), snd (set_model_number api x str w),
       set_allow_any_host api x allow w, snd (add_namespace api x str w)} \<Longrightarrow>
     nvmf_run api work w0 w' H"
| listens: "nvmf_run api work w0 w H \<Longrightarrow> t \<in> held_targets H \<Longrightarrow> listen api (NvmfTarget t) trid w = (lr, w') \<Longrightarrow>
     nvmf_run api work w0 w' H"
| requested: "nvmf_run api work w0 w H \<Longrightarrow>
     request_alive (held_targets H) (subsystem_ptr ` (\<Union>t. ran (given H t))) q \<Longrightarrow>
     nvmf_run api work w0 (snd (nvmf_submit api q ctx w)) H"
| transport_made: "nvmf_run api work w0 w H \<Longrightarrow> transport_create api str topts w = (tr, w') \<Longrightarrow>
     nvmf_run api work w0 w' H"
| worked: "nvmf_run api work w0 w H \<Longrightarrow> work w w' \<Longrightarrow> nvmf_run api work w0 w' H"
| target_dropped: "nvmf_run api work w0 w H \<Longrightarrow> t \<in> held_targets H \<Longrightarrow>
     nvmf_run api work w0 (target_drop api (NvmfTarget t) w)
       (H\<lparr>held_targets := held_targets H - {t}, given := (given H)(t := Map.empty),
          leftovers := leftovers H - {t} \<times> UNIV, kept := kept H \<union> ran (given H t)\<rparr>)"


section \<open>The operations\<close>

lemma create_with_opts_calls:
  assumes "create_with_opts api opts w = (r, w')"
  shows "\<exists>native p. spdk_nvmf_tgt_create api native w = (p, w') \<and>
    (case r of Inl e \<Rightarrow> p = null | Inr t \<Rightarrow> p \<noteq> null \<and> t = NvmfTarget p)"
  using assms by (auto simp: create_with_opts_def Let_def ok_or_def nonnull_def split: prod.splits if_splits)

lemma find_subsystem_eq:
  assumes "create_contract api targets dying names" "t \<in> targets w"
  shows "find_subsystem api (NvmfTarget t) n w =
    (if nul \<in> set n then None else map_option NvmfSubsystem (names w t n))"
proof -
  from assms have "spdk_nvmf_tgt_find_subsystem api t n w = (case names w t n of None \<Rightarrow> null | Some p \<Rightarrow> p)"
    "names w t n = Some p \<Longrightarrow> p \<noteq> null" for p
    unfolding create_contract_def by blast+
  then show ?thesis
    by (cases "names w t n") (simp_all add: find_subsystem_def cstring_new_def subsystem_from_ptr_def)
qed

lemma progressD:
  assumes "progress dying names D w w'" "t \<in> dying w'"
  shows "t \<in> D" "names w' t n = Some p \<Longrightarrow> names w t n = Some p"
  using assms by (auto simp: progress_def map_le_def dom_def)

lemma progress_dying: "progress dying names D w w' \<Longrightarrow> dying w' \<subseteq> D"
  by (simp add: progress_def)

lemma progress_trans:
  assumes "progress dying names D w w'" "progress dying names (dying w') w' w''"
  shows "progress dying names D w w''"
  using assms unfolding progress_def by (meson map_le_trans subset_iff)

lemma unchangedD:
  assumes "unchanged targets dying names w w'"
  shows "targets w' = targets w" "t \<in> targets w \<Longrightarrow> names w' t = names w t"
    "progress dying names (dying w) w w'"
  using assms by (simp_all add: unchanged_def)

lemma unchanged_refl [simp]: "unchanged targets dying names w w"
  by (simp add: unchanged_def progress_def)

lemma unchanged_trans:
  "unchanged targets dying names w w' \<Longrightarrow> unchanged targets dying names w' w'' \<Longrightarrow>
     unchanged targets dying names w w''"
  unfolding unchanged_def by (auto intro: progress_trans)

lemma subsystems_unchanged:
  "unchanged targets dying names w w' \<Longrightarrow> subsystems (targets w') names w' = subsystems (targets w) names w"
  by (simp add: unchanged_def subsystems_def)

lemma subsystemsI: "t \<in> T \<Longrightarrow> names w t n = Some p \<Longrightarrow> p \<in> subsystems T names w"
  by (auto simp: subsystems_def ran_def)

lemma setters_unchanged:
  assumes "configure_contract api work targets dying names" "subsystem_ptr x \<in> subsystems (targets w) names w"
  shows "unchanged targets dying names w (snd (set_serial_number api x str w))"
    "unchanged targets dying names w (snd (set_model_number api x str w))"
    "unchanged targets dying names w (set_allow_any_host api x allow w)"
    "unchanged targets dying names w (snd (add_namespace api x str w))"
proof -
  from assms have "unchanged targets dying names w (snd (spdk_nvmf_subsystem_set_sn api (subsystem_ptr x) str w))"
    "unchanged targets dying names w (snd (spdk_nvmf_subsystem_set_mn api (subsystem_ptr x) str w))"
    "unchanged targets dying names w (spdk_nvmf_subsystem_set_allow_any_host api (subsystem_ptr x) allow w)"
    "unchanged targets dying names w (snd (spdk_nvmf_subsystem_add_ns_ext api (subsystem_ptr x) str w))"
    for str allow
    unfolding configure_contract_def by blast+
  note this [simp]
  show "unchanged targets dying names w (set_allow_any_host api x allow w)"
    by (simp add: set_allow_any_host_def)
  show "unchanged targets dying names w (snd (set_serial_number api x str w))"
    by (cases "nul \<in> set str") (simp_all add: set_serial_number_def cstring_nul split_beta)
  show "unchanged targets dying names w (snd (set_model_number api x str w))"
    by (cases "nul \<in> set str") (simp_all add: set_model_number_def cstring_nul split_beta)
  show "unchanged targets dying names w (snd (add_namespace api x str w))"
    by (cases "nul \<in> set str") (simp_all add: add_namespace_def cstring_nul split_beta)
qed

text \<open>What \<open>create_subsystem\<close> does once SPDK has made the subsystem.\<close>

definition apply_opts ::
  "('o, 'w) nvmf_api \<Rightarrow> nvmf_subsystem \<Rightarrow> nvmf_subsystem_opts \<Rightarrow> 'w \<Rightarrow> (error, nvmf_subsystem) result \<times> 'w" where
  "apply_opts api x opts w =
     (let w = (if allow_any_host opts then set_allow_any_host api x True w else w);
          (r, w) = (case serial_number opts of None \<Rightarrow> (Inr (), w) | Some sn \<Rightarrow> set_serial_number api x sn w)
      in case r of
           Inl e \<Rightarrow> (Inl e, w)
         | Inr _ \<Rightarrow>
             let (r, w) = (case model_number opts of None \<Rightarrow> (Inr (), w) | Some mn \<Rightarrow> set_model_number api x mn w)
             in case r of Inl e \<Rightarrow> (Inl e, w) | Inr _ \<Rightarrow> (Inr x, w))"

lemma optional_unchanged:
  assumes "(case z of None \<Rightarrow> (r, w) | Some s \<Rightarrow> f s) = (r', w')"
    and "\<And>s. unchanged targets dying names w (snd (f s))"
  shows "unchanged targets dying names w w'"
proof (cases z)
  case None
  with assms(1) show ?thesis by simp
next
  case (Some s)
  with assms(1) assms(2) [of s] show ?thesis by simp
qed

lemma apply_opts_unchanged:
  assumes con: "configure_contract api work targets dying names" and x: "subsystem_ptr x \<in> subsystems (targets w) names w"
  shows "unchanged targets dying names w (snd (apply_opts api x opts w)) \<and>
    (\<forall>y. fst (apply_opts api x opts w) = Inr y \<longrightarrow> y = x)"
proof -
  define w1 where "w1 = (if allow_any_host opts then set_allow_any_host api x True w else w)"
  obtain r1 w2 where w2: "(case serial_number opts of None \<Rightarrow> (Inr (), w1)
      | Some sn \<Rightarrow> set_serial_number api x sn w1) = (r1, w2)" by fastforce
  obtain r2 w3 where w3: "(case model_number opts of None \<Rightarrow> (Inr (), w2)
      | Some mn \<Rightarrow> set_model_number api x mn w2) = (r2, w3)" by fastforce
  have 1: "unchanged targets dying names w w1" using setters_unchanged(3) [OF con x] by (simp add: w1_def)
  with x have "subsystem_ptr x \<in> subsystems (targets w1) names w1" by (simp add: subsystems_unchanged)
  from unchanged_trans [OF 1 optional_unchanged [OF w2 setters_unchanged(1) [OF con this]]]
  have 2: "unchanged targets dying names w w2" .
  with x have "subsystem_ptr x \<in> subsystems (targets w2) names w2" by (simp add: subsystems_unchanged)
  from unchanged_trans [OF 2 optional_unchanged [OF w3 setters_unchanged(2) [OF con this]]]
  have "unchanged targets dying names w w3" .
  with 2 show ?thesis
    unfolding apply_opts_def w1_def [symmetric] by (simp add: Let_def w2 w3 split: sum.split)
qed

text \<open>The subsystem \<open>p\<close> was added to the target \<open>t\<close> under the name \<open>n\<close>.\<close>

definition added ::
  "('w \<Rightarrow> ptr set) \<Rightarrow> ('w \<Rightarrow> ptr set) \<Rightarrow> ('w \<Rightarrow> ptr \<Rightarrow> string \<rightharpoonup> ptr) \<Rightarrow> ptr \<Rightarrow> string \<Rightarrow> ptr \<Rightarrow> 'w \<Rightarrow> 'w \<Rightarrow> bool" where
  "added targets dying names t n p w w' \<longleftrightarrow>
     names w t n = None \<and> p \<notin> subsystems (targets w \<union> dying w) names w \<and> targets w' = targets w \<and>
     (\<forall>u \<in> targets w - {t}. names w' u = names w u) \<and> names w' t = (names w t)(n \<mapsto> p) \<and>
     progress dying names (dying w) w w'"

lemma added_unchanged:
  assumes "added targets dying names t n p w w'" "unchanged targets dying names w' w''" "t \<in> targets w"
  shows "added targets dying names t n p w w''"
  using assms unfolding added_def unchanged_def by (auto intro: progress_trans)

text \<open>
  A creation ends in one of three ways: nothing was made; the subsystem is there and is returned; it is
  there although an error is returned.
\<close>

lemma create_subsystem_cases:
  assumes con: "create_contract api targets dying names" "configure_contract api work targets dying names"
    and t: "t \<in> targets w" and r: "create_subsystem api (NvmfTarget t) n opts w = (r, w')"
  obtains (none) e where "r = Inl e" "unchanged targets dying names w w'"
  | (made) p where "nul \<notin> set n" "p \<noteq> null" "added targets dying names t n p w w'"
      "\<And>x. r = Inr x \<Longrightarrow> x = NvmfSubsystem p"
proof (cases "nul \<in> set n")
  case True
  with r show thesis by (intro none) (auto simp: create_subsystem_def cstring_nul)
next
  case False
  obtain p w1 where p: "spdk_nvmf_subsystem_create api t n (SUBTYPE_NVME api) 0 w = (p, w1)" by fastforce
  from con(1) have "\<forall>t n w p w'. t \<in> targets w \<longrightarrow>
      spdk_nvmf_subsystem_create api t n (SUBTYPE_NVME api) 0 w = (p, w') \<longrightarrow>
      (if p = null then unchanged targets dying names w w' else added targets dying names t n p w w')"
    unfolding create_contract_def added_def by (elim conjE)
  with t p have c: "if p = null then unchanged targets dying names w w1 else added targets dying names t n p w w1"
    by blast
  show thesis
  proof (cases "p = null")
    case True
    with r c p False show thesis by (intro none) (auto simp: create_subsystem_def)
  next
    case p0: False
    with r p False have x: "apply_opts api (NvmfSubsystem p) opts w1 = (r, w')"
      by (simp add: create_subsystem_def apply_opts_def subsystem_from_ptr_def Let_def)
    from c p0 have a: "added targets dying names t n p w w1" by simp
    with t have "p \<in> subsystems (targets w1) names w1"
      by (intro subsystemsI [of t _ _ _ n]) (simp_all add: added_def)
    with apply_opts_unchanged [OF con(2), of "NvmfSubsystem p" w1 opts] x
    have "unchanged targets dying names w1 w'" "r = Inr y \<Longrightarrow> y = NvmfSubsystem p" for y by simp_all
    with added_unchanged [OF a _ t] p0 False show thesis by (intro made [of p]) simp_all
  qed
qed

section \<open>The invariant\<close>

definition distinct_names ::
  "('w \<Rightarrow> ptr \<Rightarrow> string \<rightharpoonup> ptr) \<Rightarrow> ptr set \<Rightarrow> 'w \<Rightarrow> bool" where
  "distinct_names names T w \<longleftrightarrow> (\<forall>t \<in> T. \<forall>t' \<in> T. \<forall>n n' p.
     names w t n = Some p \<longrightarrow> names w t' n' = Some p \<longrightarrow> t = t' \<and> n = n')"

lemma distinct_namesD:
  "distinct_names names T w \<Longrightarrow> t \<in> T \<Longrightarrow> t' \<in> T \<Longrightarrow> names w t n = Some p \<Longrightarrow> names w t' n' = Some p \<Longrightarrow>
     t = t' \<and> n = n'"
  unfolding distinct_names_def by blast

lemma distinct_names_less:
  assumes "distinct_names names T w"
    and "\<And>t n p. t \<in> T' \<Longrightarrow> names w' t n = Some p \<Longrightarrow> t \<in> T \<and> names w t n = Some p"
  shows "distinct_names names T' w'"
  using assms(1) unfolding distinct_names_def by (meson assms(2))

lemma distinct_names_step:
  assumes "distinct_names names (targets w \<union> dying w) w" "progress dying names D w w'" "D \<subseteq> targets w \<union> dying w"
    and "\<And>t n p. t \<in> targets w' \<Longrightarrow> names w' t n = Some p \<Longrightarrow> t \<in> targets w \<and> names w t n = Some p"
  shows "distinct_names names (targets w' \<union> dying w') w'"
proof (rule distinct_names_less [OF assms(1)])
  fix t n p assume "t \<in> targets w' \<union> dying w'" and n: "names w' t n = Some p"
  then consider "t \<in> targets w'" | "t \<in> dying w'" by blast
  then show "t \<in> targets w \<union> dying w \<and> names w t n = Some p"
  proof cases
    case 1 from assms(4) [OF 1 n] show ?thesis by blast
  next
    case 2 from progressD [OF assms(2) 2] n assms(3) show ?thesis by blast
  qed
qed

definition registry_ok ::
  "('w \<Rightarrow> ptr set) \<Rightarrow> ('w \<Rightarrow> ptr set) \<Rightarrow> ('w \<Rightarrow> ptr \<Rightarrow> string \<rightharpoonup> ptr) \<Rightarrow> 'w \<Rightarrow> nvmf_held \<Rightarrow> bool" where
  "registry_ok targets dying names w H \<longleftrightarrow> targets w = held_targets H \<and> targets w \<inter> dying w = {} \<and>
     (\<forall>t n x. given H t n = Some x \<longrightarrow>
        t \<in> held_targets H \<and> (t, n) \<notin> leftovers H \<and> names w t n = Some (subsystem_ptr x)) \<and>
     (\<forall>t n. (t, n) \<in> leftovers H \<longrightarrow> t \<in> held_targets H \<and> names w t n \<noteq> None) \<and>
     (\<forall>t n p. t \<in> held_targets H \<longrightarrow> names w t n = Some p \<longrightarrow>
        nul \<notin> set n \<and> utf8_valid n \<and> (given H t n \<noteq> None \<or> (t, n) \<in> leftovers H)) \<and>
     distinct_names names (targets w \<union> dying w) w"

lemma registry_okD:
  assumes "registry_ok targets dying names w H"
  shows "targets w = held_targets H"
    "given H t n = Some x \<Longrightarrow> t \<in> held_targets H \<and> (t, n) \<notin> leftovers H \<and> names w t n = Some (subsystem_ptr x)"
    "(t, n) \<in> leftovers H \<Longrightarrow> t \<in> held_targets H \<and> names w t n \<noteq> None"
    "t \<in> held_targets H \<Longrightarrow> names w t n = Some p \<Longrightarrow>
       nul \<notin> set n \<and> utf8_valid n \<and> (given H t n \<noteq> None \<or> (t, n) \<in> leftovers H)"
    "distinct_names names (targets w \<union> dying w) w" "targets w \<inter> dying w = {}"
  using assms unfolding registry_ok_def by blast+

lemma registry_okI:
  assumes "targets w = held_targets H"
    "\<And>t n x. given H t n = Some x \<Longrightarrow>
       t \<in> held_targets H \<and> (t, n) \<notin> leftovers H \<and> names w t n = Some (subsystem_ptr x)"
    "\<And>t n. (t, n) \<in> leftovers H \<Longrightarrow> t \<in> held_targets H \<and> names w t n \<noteq> None"
    "\<And>t n p. t \<in> held_targets H \<Longrightarrow> names w t n = Some p \<Longrightarrow>
       nul \<notin> set n \<and> utf8_valid n \<and> (given H t n \<noteq> None \<or> (t, n) \<in> leftovers H)"
    "distinct_names names (targets w \<union> dying w) w" "targets w \<inter> dying w = {}"
  shows "registry_ok targets dying names w H"
  using assms unfolding registry_ok_def by blast

lemma registry_ok_unchanged:
  assumes ok: "registry_ok targets dying names w H" and u: "unchanged targets dying names w w'"
  shows "registry_ok targets dying names w' H"
proof -
  note D = registry_okD [OF ok] and U = unchangedD [OF u]
  have same: "names w' t = names w t" if "t \<in> held_targets H" for t using that D(1) U(2) by simp
  show ?thesis
  proof (rule registry_okI)
    show "distinct_names names (targets w' \<union> dying w') w'"
      by (rule distinct_names_step [where targets = targets and dying = dying, OF D(5) U(3)]) (use U(1,2) in simp_all)
    show "targets w' \<inter> dying w' = {}" unfolding U(1) using D(6) progress_dying [OF U(3)] by blast
    show "t \<in> held_targets H \<and> (t, n) \<notin> leftovers H \<and> names w' t n = Some (subsystem_ptr x)"
      if "given H t n = Some x" for t n x using D(2) [OF that] same by simp
    show "t \<in> held_targets H \<and> names w' t n \<noteq> None" if "(t, n) \<in> leftovers H" for t n
      using D(3) [OF that] same by simp
  qed (use D(1,4) U(1) same in simp_all)
qed

lemma given_alive:
  "registry_ok targets dying names w H \<Longrightarrow> given H t n = Some x \<Longrightarrow>
     subsystem_ptr x \<in> subsystems (targets w) names w"
  using registry_okD(1,2) by (metis subsystemsI)

lemma registry_ok_new_target:
  assumes "registry_ok targets dying names w H" "t \<notin> targets w \<union> dying w" "targets w' = insert t (targets w)"
    and t: "names w' t = Map.empty" "\<forall>u \<in> targets w. names w' u = names w u"
    and prog: "progress dying names (dying w) w w'"
  shows "registry_ok targets dying names w' (H\<lparr>held_targets := insert t (held_targets H)\<rparr>)"
proof -
  note D = registry_okD [OF assms(1)]
  from D(1,2,3) assms(2) have none: "given H t n = None" "(t, n) \<notin> leftovers H" for n
    by (metis UnI1 not_None_eq)+
  have same: "names w' u = names w u" if "u \<in> held_targets H" for u using that D(1) t(2) by simp
  show ?thesis
  proof (rule registry_okI)
    show "distinct_names names (targets w' \<union> dying w') w'"
    proof (rule distinct_names_step [where targets = targets and dying = dying, OF D(5) prog])
      show "u \<in> targets w \<and> names w u n = Some q" if "u \<in> targets w'" "names w' u n = Some q" for u n q
        using that assms(3) t by (cases "u = t") simp_all
    qed simp
    show "targets w' \<inter> dying w' = {}" unfolding assms(3) using D(6) assms(2) progress_dying [OF prog] by blast
    show "u \<in> held_targets (H\<lparr>held_targets := insert t (held_targets H)\<rparr>) \<and>
        (u, n) \<notin> leftovers (H\<lparr>held_targets := insert t (held_targets H)\<rparr>) \<and> names w' u n = Some (subsystem_ptr x)"
      if "given (H\<lparr>held_targets := insert t (held_targets H)\<rparr>) u n = Some x" for u n x
      using D(2) [of u n x] that same by simp
    show "u \<in> held_targets (H\<lparr>held_targets := insert t (held_targets H)\<rparr>) \<and> names w' u n \<noteq> None"
      if "(u, n) \<in> leftovers (H\<lparr>held_targets := insert t (held_targets H)\<rparr>)" for u n
      using D(3) [of u n] that same by simp
    show "nul \<notin> set n \<and> utf8_valid n \<and> (given (H\<lparr>held_targets := insert t (held_targets H)\<rparr>) u n \<noteq> None \<or>
        (u, n) \<in> leftovers (H\<lparr>held_targets := insert t (held_targets H)\<rparr>))"
      if "u \<in> held_targets (H\<lparr>held_targets := insert t (held_targets H)\<rparr>)" "names w' u n = Some p" for u n p
      using D(4) [of u n p] that same t(1) by (cases "u = t") auto
  qed (simp add: assms(3) D(1))
qed

text \<open>Destroying a target: SPDK may still have it, with some of its subsystems.\<close>

definition destroyed ::
  "('w \<Rightarrow> ptr set) \<Rightarrow> ('w \<Rightarrow> ptr set) \<Rightarrow> ('w \<Rightarrow> ptr \<Rightarrow> string \<rightharpoonup> ptr) \<Rightarrow> ptr \<Rightarrow> 'w \<Rightarrow> 'w \<Rightarrow> bool" where
  "destroyed targets dying names t w w' \<longleftrightarrow> targets w' = targets w - {t} \<and>
     (\<forall>u \<in> targets w - {t}. names w' u = names w u) \<and> progress dying names (insert t (dying w)) w w'"

lemma destroyedD:
  assumes "destroyed targets dying names t w w'"
  shows "targets w' = targets w - {t}" "u \<in> targets w - {t} \<Longrightarrow> names w' u = names w u"
    "progress dying names (insert t (dying w)) w w'"
  using assms by (simp_all add: destroyed_def)

lemma registry_ok_drop_target:
  assumes ok: "registry_ok targets dying names w H" and d: "destroyed targets dying names t w w'"
    and t: "t \<in> targets w"
  shows "registry_ok targets dying names w' (H\<lparr>held_targets := held_targets H - {t},
     given := (given H)(t := Map.empty), leftovers := leftovers H - {t} \<times> UNIV, kept := K\<rparr>)"
    (is "registry_ok _ _ _ _ ?H")
proof -
  note D = registry_okD [OF ok] and E = destroyedD [OF d]
  have same: "names w' u = names w u" if "u \<in> held_targets H" "u \<noteq> t" for u using that D(1) E(2) by simp
  show ?thesis
  proof (rule registry_okI)
    show "distinct_names names (targets w' \<union> dying w') w'"
      by (rule distinct_names_step [where targets = targets and dying = dying, OF D(5) E(3)]) (use E(1,2) t in auto)
    show "targets w' \<inter> dying w' = {}" unfolding E(1) using D(6) progress_dying [OF E(3)] by blast
    show "u \<in> held_targets ?H \<and> (u, n) \<notin> leftovers ?H \<and> names w' u n = Some (subsystem_ptr x)"
      if "given ?H u n = Some x" for u n x
      using D(2) [of u n x] that same [of u] by (auto split: if_splits)
    show "u \<in> held_targets ?H \<and> names w' u n \<noteq> None" if "(u, n) \<in> leftovers ?H" for u n
      using D(3) [of u n] that same [of u] by auto
    show "nul \<notin> set n \<and> utf8_valid n \<and> (given ?H u n \<noteq> None \<or> (u, n) \<in> leftovers ?H)"
      if "u \<in> held_targets ?H" "names w' u n = Some p" for u n p
      using D(4) [of u n p] that same [of u] by auto
  qed (simp add: E(1) D(1))
qed

lemma registry_ok_found:
  assumes ok: "registry_ok targets dying names w H" and "t \<in> held_targets H" "names w t n = Some (subsystem_ptr x)"
  shows "registry_ok targets dying names w
    (H\<lparr>given := (given H)(t := (given H t)(n \<mapsto> x)), leftovers := leftovers H - {(t, n)}\<rparr>)"
  using assms unfolding registry_ok_def by auto

text \<open>A subsystem made under a free name, which is left over or goes to the program.\<close>

lemma registry_ok_leftover:
  assumes ok: "registry_ok targets dying names w H" and t: "t \<in> held_targets H"
    and n: "nul \<notin> set n" "utf8_valid n" and a: "added targets dying names t n p w w'"
  shows "registry_ok targets dying names w' (H\<lparr>leftovers := insert (t, n) (leftovers H)\<rparr>)" (is "registry_ok _ _ _ _ ?L")
proof -
  note D = registry_okD [OF ok]
  from a have free: "names w t n = None" and p: "p \<notin> subsystems (targets w \<union> dying w) names w"
    and T: "targets w' = targets w" and prog: "progress dying names (dying w) w w'" by (simp_all add: added_def)
  note P = progressD [OF prog]
  have old: "names w' u m = (if u = t \<and> m = n then Some p else names w u m)" if "u \<in> held_targets H" for u m
    using a that D(1) by (cases "u = t") (auto simp: added_def)
  from p have fresh: "u \<in> targets w \<union> dying w \<Longrightarrow> names w u m \<noteq> Some p" for u m
    using subsystemsI by metis
  have prior: "names w u m = Some q \<and> q \<noteq> p \<or> u = t \<and> m = n \<and> q = p"
    if "u \<in> targets w' \<union> dying w'" "names w' u m = Some q" for u m q
    using that old [of u m] P [of u] fresh [of u m] T D(1) by (auto split: if_splits)
  show ?thesis
  proof (rule registry_okI)
    show "distinct_names names (targets w' \<union> dying w') w'"
      unfolding distinct_names_def
    proof (intro ballI allI impI)
      fix u v m k q assume u: "u \<in> targets w' \<union> dying w'" "names w' u m = Some q"
        and v: "v \<in> targets w' \<union> dying w'" "names w' v k = Some q"
      have "u \<in> targets w \<union> dying w" "v \<in> targets w \<union> dying w" using u(1) v(1) T P(1) by auto
      with prior [OF u] prior [OF v] distinct_namesD [OF D(5), of u v m q k] show "u = v \<and> m = k" by auto
    qed
    show "targets w' \<inter> dying w' = {}" unfolding T using D(6) progress_dying [OF prog] by blast
    show "u \<in> held_targets ?L \<and> (u, m) \<notin> leftovers ?L \<and> names w' u m = Some (subsystem_ptr x)"
      if "given ?L u m = Some x" for u m x
      using D(2) [of u m x] that free old [of u m] by auto
    show "u \<in> held_targets ?L \<and> names w' u m \<noteq> None" if "(u, m) \<in> leftovers ?L" for u m
      using D(3) [of u m] that t old [of u m] by auto
    show "nul \<notin> set m \<and> utf8_valid m \<and> (given ?L u m \<noteq> None \<or> (u, m) \<in> leftovers ?L)"
      if "u \<in> held_targets ?L" "names w' u m = Some q" for u m q
      using D(4) [of u m q] that n old [of u m] by (auto split: if_splits)
  qed (simp add: T D(1))
qed

lemma registry_ok_given:
  assumes ok: "registry_ok targets dying names w H" and t: "t \<in> held_targets H"
    and n: "nul \<notin> set n" "utf8_valid n" and a: "added targets dying names t n p w w'"
  shows "registry_ok targets dying names w' (H\<lparr>given := (given H)(t := (given H t)(n \<mapsto> NvmfSubsystem p))\<rparr>)"
proof -
  from a have "names w t n = None" by (simp add: added_def)
  with registry_okD(3) [OF ok, of t n] have "(t, n) \<notin> leftovers H" by blast
  then have "insert (t, n) (leftovers H) - {(t, n)} = leftovers H" by simp
  moreover have "names w' t n = Some p" using a by (simp add: added_def)
  ultimately show ?thesis
    using registry_ok_found [OF registry_ok_leftover [OF assms], of t n "NvmfSubsystem p"] t by (cases H) simp
qed

section \<open>Each operation keeps it\<close>

lemma target_made_ok:
  assumes con: "target_contract api targets dying names" and ok: "registry_ok targets dying names w H"
    and r: "create_with_opts api opts w = (Inr t, w')"
  shows "registry_ok targets dying names w' (H\<lparr>held_targets := insert (target_ptr t) (held_targets H)\<rparr>)"
proof -
  from create_with_opts_calls [OF r] obtain native where
    c: "spdk_nvmf_tgt_create api native w = (target_ptr t, w')" "target_ptr t \<noteq> null" by auto
  from con have "\<forall>opts w p w'. spdk_nvmf_tgt_create api opts w = (p, w') \<longrightarrow>
      (if p = null then unchanged targets dying names w w'
       else p \<notin> targets w \<union> dying w \<and> targets w' = insert p (targets w) \<and> names w' p = Map.empty \<and>
         (\<forall>t \<in> targets w. names w' t = names w t) \<and> progress dying names (dying w) w w')"
    unfolding target_contract_def by (elim conjE)
  from this [rule_format, OF c(1)] c(2) have "target_ptr t \<notin> targets w \<union> dying w"
    "targets w' = insert (target_ptr t) (targets w)" "names w' (target_ptr t) = Map.empty"
    "\<forall>u \<in> targets w. names w' u = names w u" "progress dying names (dying w) w w'"
    by (simp_all only: if_False) blast+
  then show ?thesis by (rule registry_ok_new_target [OF ok])
qed

lemma target_refused_unchanged:
  assumes "target_contract api targets dying names" "create_with_opts api opts w = (Inl e, w')"
  shows "unchanged targets dying names w w'"
proof -
  from create_with_opts_calls [OF assms(2)] obtain native where
    "spdk_nvmf_tgt_create api native w = (null, w')" by auto
  with assms(1) show ?thesis unfolding target_contract_def by (metis (no_types))
qed

lemma target_drop_destroys:
  assumes "target_contract api targets dying names" "t \<in> targets w"
  shows "destroyed targets dying names t w (target_drop api (NvmfTarget t) w)"
proof -
  from assms(1) have "\<forall>t w. t \<in> targets w \<longrightarrow> (let w' = spdk_nvmf_tgt_destroy api t w in
      targets w' = targets w - {t} \<and> (\<forall>u \<in> targets w - {t}. names w' u = names w u) \<and>
      progress dying names (insert t (dying w)) w w')"
    unfolding target_contract_def by (elim conjE)
  with assms(2) show ?thesis by (simp add: destroyed_def target_drop_def Let_def)
qed

lemma subsystem_made_ok:
  assumes con: "create_contract api targets dying names" "configure_contract api work targets dying names"
    and ok: "registry_ok targets dying names w H" and t: "t \<in> held_targets H" and n: "utf8_valid n"
    and r: "create_subsystem api (NvmfTarget t) n opts w = (Inr x, w')"
  shows "registry_ok targets dying names w' (H\<lparr>given := (given H)(t := (given H t)(n \<mapsto> x))\<rparr>)"
proof -
  from t registry_okD(1) [OF ok] have "t \<in> targets w" by simp
  from con this r show ?thesis
  proof (cases rule: create_subsystem_cases)
    case (made p)
    with registry_ok_given [OF ok t made(1) n made(3)] show ?thesis by simp
  qed simp
qed

lemma subsystem_refused_ok:
  assumes con: "create_contract api targets dying names" "configure_contract api work targets dying names"
    and ok: "registry_ok targets dying names w H" and t: "t \<in> held_targets H" and n: "utf8_valid n"
    and r: "create_subsystem api (NvmfTarget t) n opts w = (Inl e, w')"
  shows "registry_ok targets dying names w' (H\<lparr>leftovers := leftovers H \<union>
    (if find_subsystem api (NvmfTarget t) n w = None \<and> find_subsystem api (NvmfTarget t) n w' \<noteq> None
     then {(t, n)} else {})\<rparr>)"
proof -
  from t registry_okD(1) [OF ok] have tw: "t \<in> targets w" by simp
  note find = find_subsystem_eq [OF con(1)]
  from con tw r show ?thesis
  proof (cases rule: create_subsystem_cases)
    case (none e')
    with tw find have "find_subsystem api (NvmfTarget t) n w' = find_subsystem api (NvmfTarget t) n w"
      by (simp add: unchanged_def)
    with registry_ok_unchanged [OF ok none(2)] show ?thesis by (cases H) auto
  next
    case (made p)
    with tw find have "find_subsystem api (NvmfTarget t) n w = None"
      "find_subsystem api (NvmfTarget t) n w' \<noteq> None" by (simp_all add: added_def)
    with registry_ok_leftover [OF ok t made(1) n made(3)] show ?thesis by simp
  qed
qed

lemma listen_unchanged:
  assumes "configure_contract api work targets dying names" "t \<in> targets w" "listen api (NvmfTarget t) trid w = (r, w')"
  shows "unchanged targets dying names w w'"
proof -
  from assms(1,2) have "unchanged targets dying names w (snd (spdk_nvmf_tgt_listen_ext api t trid w))"
    unfolding configure_contract_def by blast
  with assms(3) show ?thesis by (auto simp: listen_def split: prod.splits)
qed

lemma transport_create_unchanged:
  assumes con: "configure_contract api work targets dying names" and r: "transport_create api str opts w = (r, w')"
  shows "unchanged targets dying names w w'"
proof -
  obtain ok opts' where i: "spdk_nvmf_transport_opts_init api str TRANSPORT_OPTS_SIZE w = (ok, opts')" by fastforce
  obtain p w1 where p: "spdk_nvmf_transport_create api str opts' w = (p, w1)" by fastforce
  from con have "unchanged targets dying names w (snd (spdk_nvmf_transport_create api str opts' w))"
    unfolding configure_contract_def by blast
  moreover from r i p have "w' = w \<or> w' = w1"
    by (cases "nul \<in> set str") (auto simp: transport_create_def cstring_nul split: if_splits)
  ultimately show ?thesis using p by auto
qed

lemma request_unchanged:
  assumes "configure_contract api work targets dying names" "registry_ok targets dying names w H"
    and "request_alive (held_targets H) (subsystem_ptr ` (\<Union>t. ran (given H t))) q"
  shows "unchanged targets dying names w (snd (nvmf_submit api q ctx w))"
proof -
  have "request_alive (targets w) (subsystems (targets w) names w) q"
    using assms(3) registry_okD(1) [OF assms(2)] given_alive [OF assms(2)]
    by (cases q) (auto simp: ran_def)
  with assms(1) show ?thesis unfolding configure_contract_def by blast
qed

lemma run_registry_ok:
  assumes tgt: "target_contract api targets dying names" and con: "create_contract api targets dying names" "configure_contract api work targets dying names"
    and start: "targets w0 = {}" "dying w0 = {}" and run: "nvmf_run api work w0 w H"
  shows "registry_ok targets dying names w H"
  using run
proof induction
  case start
  from assms(4,5) show ?case by (simp add: registry_ok_def distinct_names_def)
next
  case (target_made w H opts t w')
  from target_made_ok [OF tgt target_made.IH target_made.hyps(2)] show ?case .
next
  case (target_refused w H opts e w')
  from registry_ok_unchanged [OF target_refused.IH target_refused_unchanged [OF tgt target_refused.hyps(2)]]
  show ?case .
next
  case (subsystem_made w H t n opts x w')
  from subsystem_made_ok [OF con subsystem_made.IH subsystem_made.hyps(2-4)] show ?case .
next
  case (subsystem_refused w H t n opts e w')
  from subsystem_refused_ok [OF con subsystem_refused.IH subsystem_refused.hyps(2-4)] show ?case .
next
  case (found w H t n x)
  then have "t \<in> targets w" using registry_okD(1) by metis
  with found find_subsystem_eq [OF con(1)] show ?case
    by (intro registry_ok_found) (auto split: if_splits)
next
  case (configured w H t n x w' str allow)
  from setters_unchanged [OF con(2) given_alive [OF configured.IH configured.hyps(2)]] configured.hyps(3)
  have "unchanged targets dying names w w'" by blast
  with configured.IH show ?case by (rule registry_ok_unchanged)
next
  case (listens w H t trid lr w')
  with listen_unchanged [OF con(2)] registry_okD(1) [OF listens.IH] show ?case
    by (metis registry_ok_unchanged)
next
  case (requested w H q ctx)
  from registry_ok_unchanged [OF requested.IH request_unchanged [OF con(2) requested.IH requested.hyps(2)]]
  show ?case .
next
  case (transport_made w H str opts tr w')
  from registry_ok_unchanged [OF transport_made.IH transport_create_unchanged [OF con(2) transport_made.hyps(2)]]
  show ?case .
next
  case (worked w H w')
  with con(2) have "unchanged targets dying names w w'" unfolding configure_contract_def by blast
  with worked.IH show ?case by (rule registry_ok_unchanged)
next
  case (target_dropped w H t)
  with registry_okD(1) have "t \<in> targets w" by metis
  from registry_ok_drop_target [OF target_dropped.IH target_drop_destroys [OF tgt this] this] show ?case .
qed

section \<open>What the program sees\<close>

lemma found_given:
  assumes con: "create_contract api targets dying names" and ok: "registry_ok targets dying names w H"
    and t: "t \<in> held_targets H"
  shows "if (t, n) \<in> leftovers H then given H t n = None \<and> find_subsystem api (NvmfTarget t) n w \<noteq> None
    else find_subsystem api (NvmfTarget t) n w = given H t n"
proof -
  note D = registry_okD [OF ok]
  from t D(1) find_subsystem_eq [OF con, of t w n] have find: "find_subsystem api (NvmfTarget t) n w =
      (if nul \<in> set n then None else map_option NvmfSubsystem (names w t n))" by simp
  show ?thesis
  proof (cases "names w t n")
    case None
    then show ?thesis using D(2) [of t n] D(3) [of t n] find by (cases "given H t n") auto
  next
    case (Some p)
    then show ?thesis using D(2) [of t n] D(4) [OF t Some] find by (cases "given H t n") auto
  qed
qed

lemma taken_refused:
  assumes con: "create_contract api targets dying names" "configure_contract api work targets dying names"
    and t: "t \<in> targets w" and "find_subsystem api (NvmfTarget t) n w \<noteq> None"
  shows "\<exists>e. fst (create_subsystem api (NvmfTarget t) n opts w) = Inl e"
proof -
  obtain r w' where "create_subsystem api (NvmfTarget t) n opts w = (r, w')" by fastforce
  with con t show ?thesis using assms(4) find_subsystem_eq [OF con(1) t]
    by (elim create_subsystem_cases) (auto simp: added_def split: if_splits)
qed

lemma given_nqn:
  assumes con: "create_contract api targets dying names" and ok: "registry_ok targets dying names w H"
    and x: "given H t n = Some x"
  shows "subsystem_nqn api x w = n"
proof -
  from registry_okD(2) [OF ok x] have t: "t \<in> held_targets H" "names w t n = Some (subsystem_ptr x)" by simp_all
  have "\<forall>t n p w. t \<in> targets w \<longrightarrow> names w t n = Some p \<longrightarrow>
      p \<noteq> null \<and> spdk_nvmf_subsystem_get_nqn api p w = Some n"
    using con unfolding create_contract_def by (elim conjE)
  with t registry_okD(1) [OF ok] have "spdk_nvmf_subsystem_get_nqn api (subsystem_ptr x) w = Some n" by blast
  with registry_okD(4) [OF ok t] show ?thesis by (simp add: subsystem_nqn_def cstr_to_str_def)
qed

text \<open>
  After a target was dropped: none of its subsystems is one of another target, whatever SPDK does next;
  and once SPDK has ended the target, they are gone.
\<close>

lemma given_dangles:
  assumes tgt: "target_contract api targets dying names" and ok: "registry_ok targets dying names w H"
    and work: "\<And>w w'. work w w' \<Longrightarrow> unchanged targets dying names w w'"
    and x: "given H t n = Some x" and run: "work\<^sup>*\<^sup>* (target_drop api (NvmfTarget t) w) w'"
    and u: "u \<in> targets w' \<union> dying w'" "names w' u m = Some (subsystem_ptr x)"
  shows "u = t \<and> u \<in> dying w' - targets w'"
proof -
  note D = registry_okD [OF ok]
  from D(1,2) x have t: "t \<in> targets w" "names w t n = Some (subsystem_ptr x)" by simp_all
  let ?d = "target_drop api (NvmfTarget t) w"
  have "unchanged targets dying names ?d w'"
    using run by induction (auto intro: unchanged_trans work)
  then have d: "targets w' = targets w - {t}" "\<And>u. u \<in> targets w - {t} \<Longrightarrow> names w' u = names w u"
    "progress dying names (insert t (dying w)) w w'"
    using destroyedD [OF target_drop_destroys [OF tgt t(1)]] unchangedD [of targets dying names ?d w']
    by (auto intro: progress_trans)
  have "u \<in> targets w \<union> dying w" "names w u m = Some (subsystem_ptr x)"
    using u d(1,2) progressD [OF d(3), of u] t(1) by auto
  with distinct_namesD [OF D(5) _ _ this(2) t(2)] t(1) have "u = t" by blast
  with u(1) d(1) show ?thesis by auto
qed

text \<open>
  A target with room for one subsystem, which takes serial numbers of at most 20 bytes. When it is
  destroyed, its subsystem ends only when SPDK works.
\<close>

datatype registry_phase = NoTarget | Serving | Ending

type_synonym registry_world = "registry_phase \<times> string option"

definition registry_nvmf :: "(unit, registry_world) nvmf_api" where
  "registry_nvmf = \<lparr>target_opts_size = 264, target_name_size = 8,
     spdk_nvmf_tgt_create = (\<lambda>_ w. if fst w = NoTarget then (2, (Serving, None)) else (0, w)),
     spdk_nvmf_tgt_add_transport = (\<lambda>_ _ _ w. (Some 0, w)),
     spdk_nvmf_tgt_listen_ext = (\<lambda>_ _ w. (0, w)),
     spdk_nvmf_subsystem_create = (\<lambda>t n _ _ w.
       if t = 2 \<and> w = (Serving, None) then (3, (Serving, Some n)) else (0, w)), SUBTYPE_NVME = 2,
     spdk_nvmf_tgt_find_subsystem = (\<lambda>_ n w. if snd w = Some n then 3 else 0),
     spdk_nvmf_tgt_get_name = (\<lambda>_ _. Some ''tgt''),
     spdk_nvmf_tgt_destroy = (\<lambda>t w. if t = 2 \<and> fst w = Serving then (Ending, snd w) else w),
     spdk_nvmf_subsystem_get_nqn = (\<lambda>_ w. snd w),
     spdk_nvmf_subsystem_set_sn = (\<lambda>_ sn w. (if length sn \<le> 20 then 0 else - 1, w)),
     spdk_nvmf_subsystem_set_mn = (\<lambda>_ _ w. (0, w)),
     spdk_nvmf_subsystem_set_allow_any_host = (\<lambda>_ _ w. w),
     spdk_nvmf_subsystem_add_ns_ext = (\<lambda>_ _ w. (1, w)),
     spdk_nvmf_subsystem_add_listener = (\<lambda>_ _ _ w. (Some 0, w)),
     spdk_nvmf_subsystem_start = (\<lambda>_ _ w. ((0, Some 0), w)),
     spdk_nvmf_subsystem_stop = (\<lambda>_ _ w. ((0, Some 0), w)),
     spdk_nvmf_transport_opts_init = (\<lambda>_ _ _. (True, ())),
     spdk_nvmf_transport_create = (\<lambda>_ _ w. (4, w))\<rparr>"

definition registry_targets :: "registry_world \<Rightarrow> ptr set" where
  "registry_targets w = (if fst w = Serving then {2} else {})"

definition registry_dying :: "registry_world \<Rightarrow> ptr set" where
  "registry_dying w = (if fst w = Ending then {2} else {})"

definition registry_names :: "registry_world \<Rightarrow> ptr \<Rightarrow> string \<rightharpoonup> ptr" where
  "registry_names w t n = (if t = 2 \<and> fst w \<noteq> NoTarget \<and> snd w = Some n then Some 3 else None)"

definition registry_work :: "registry_world \<Rightarrow> registry_world \<Rightarrow> bool" where
  "registry_work w w' \<longleftrightarrow> fst w = Ending \<and> w' = (NoTarget, None)"

lemma registry_api:
  "spdk_nvmf_tgt_create registry_nvmf opts w = (if fst w = NoTarget then (2, (Serving, None)) else (0, w))"
  "spdk_nvmf_subsystem_create registry_nvmf t n (SUBTYPE_NVME registry_nvmf) 0 w =
     (if t = 2 \<and> w = (Serving, None) then (3, (Serving, Some n)) else (0, w))"
  "spdk_nvmf_tgt_find_subsystem registry_nvmf t n w = (if snd w = Some n then 3 else 0)"
  "spdk_nvmf_tgt_destroy registry_nvmf t w = (if t = 2 \<and> fst w = Serving then (Ending, snd w) else w)"
  "spdk_nvmf_subsystem_get_nqn registry_nvmf p w = snd w"
  by (simp_all add: registry_nvmf_def)

lemmas registry_defs = registry_targets_def registry_dying_def registry_names_def progress_def

lemma registry_target_contract:
  "target_contract registry_nvmf registry_targets registry_dying registry_names"
  unfolding target_contract_def
proof (intro conjI allI impI)
  fix opts w p w' assume "spdk_nvmf_tgt_create registry_nvmf opts w = (p, w')"
  then show "if p = null then unchanged registry_targets registry_dying registry_names w w'
      else p \<notin> registry_targets w \<union> registry_dying w \<and> registry_targets w' = insert p (registry_targets w) \<and>
        registry_names w' p = Map.empty \<and> (\<forall>t \<in> registry_targets w. registry_names w' t = registry_names w t) \<and>
        progress registry_dying registry_names (registry_dying w) w w'"
    by (cases "fst w") (auto simp: registry_api registry_defs)
next
  fix t w assume "t \<in> registry_targets w"
  then have "t = 2" "fst w = Serving" by (simp_all add: registry_targets_def split: if_splits)
  then show "let w' = spdk_nvmf_tgt_destroy registry_nvmf t w in
      registry_targets w' = registry_targets w - {t} \<and>
      (\<forall>u \<in> registry_targets w - {t}. registry_names w' u = registry_names w u) \<and>
      progress registry_dying registry_names (insert t (registry_dying w)) w w'"
    by (simp add: registry_api registry_defs map_le_def)
qed

lemma registry_create_contract:
  "create_contract registry_nvmf registry_targets registry_dying registry_names"
  unfolding create_contract_def
proof (intro conjI allI impI)
  fix t n w p w'
  assume t: "t \<in> registry_targets w"
    and c: "spdk_nvmf_subsystem_create registry_nvmf t n (SUBTYPE_NVME registry_nvmf) 0 w = (p, w')"
  from t have w: "t = 2" "fst w = Serving" by (simp_all add: registry_targets_def split: if_splits)
  show "if p = null then unchanged registry_targets registry_dying registry_names w w'
    else registry_names w t n = None \<and>
      p \<notin> subsystems (registry_targets w \<union> registry_dying w) registry_names w \<and>
      registry_targets w' = registry_targets w \<and>
      (\<forall>u \<in> registry_targets w - {t}. registry_names w' u = registry_names w u) \<and>
      registry_names w' t = (registry_names w t)(n \<mapsto> p) \<and>
      progress registry_dying registry_names (registry_dying w) w w'"
  proof (cases "snd w")
    case None
    with w c have "p = 3" "w' = (Serving, Some n)" by (cases w; simp add: registry_api)+
    with None w show ?thesis by (auto simp: registry_defs subsystems_def ran_def fun_eq_iff)
  next
    case (Some m)
    with w c have "p = 0" "w' = w" by (cases w; simp add: registry_api)+
    then show ?thesis by simp
  qed
qed (auto simp: registry_api registry_defs split: if_splits)

lemma registry_configure_contract:
  "configure_contract registry_nvmf registry_work registry_targets registry_dying registry_names"
proof -
  have "snd (state_change_submit registry_nvmf q p w) = w" for q p w
    by (cases q) (simp_all add: registry_nvmf_def)
  then have "snd (nvmf_submit registry_nvmf q p w) = w" for q p w
    by (cases q) (simp_all add: registry_nvmf_def void_call_def)
  moreover have "unchanged registry_targets registry_dying registry_names w w'" if "registry_work w w'" for w w'
    using that by (auto simp: registry_work_def unchanged_def registry_defs)
  ultimately show ?thesis by (simp add: configure_contract_def registry_nvmf_def)
qed

section \<open>Properties\<close>

text \<open>
  C26: In every run of making, finding and configuring targets and subsystems, the targets in SPDK are those
  the program holds. In each of them looking up a name gives exactly the subsystem that was returned for
  it, or one left over by a creation that failed; creating one under a name in use is refused; no two
  names share a subsystem; and a subsystem says its own name. When a target is dropped, the run goes on
  with the handles of its subsystems kept, which borrow nothing: whatever SPDK does next by itself, the subsystem of
  such a handle is none of a target that is alive, and it is gone as soon as SPDK, which destroys the
  target asynchronously, has done so.
\<close>

theorem registry_refines:
  assumes "target_contract api targets dying names" "create_contract api targets dying names"
    and "configure_contract api work targets dying names"
    and "targets w0 = {}" "dying w0 = {}" and "nvmf_run api work w0 w H"
  shows "targets w = held_targets H \<and>
    (\<forall>t \<in> held_targets H. \<forall>n.
       (if (t, n) \<in> leftovers H then given H t n = None \<and> find_subsystem api (NvmfTarget t) n w \<noteq> None
        else find_subsystem api (NvmfTarget t) n w = given H t n) \<and>
       (find_subsystem api (NvmfTarget t) n w \<noteq> None \<longrightarrow>
          (\<forall>opts. \<exists>e. fst (create_subsystem api (NvmfTarget t) n opts w) = Inl e))) \<and>
    (\<forall>t n x. given H t n = Some x \<longrightarrow> t \<in> held_targets H \<and> subsystem_nqn api x w = n \<and>
       (\<forall>t' n'. given H t' n' = Some x \<longrightarrow> t' = t \<and> n' = n) \<and>
       subsystem_ptr x \<in> subsystems (targets w) names w \<and>
       (\<exists>H'. nvmf_run api work w0 (target_drop api (NvmfTarget t) w) H' \<and> t \<notin> held_targets H' \<and> x \<in> kept H') \<and>
       (\<forall>w'. work\<^sup>*\<^sup>* (target_drop api (NvmfTarget t) w) w' \<longrightarrow>
          subsystem_ptr x \<notin> subsystems (targets w') names w' \<and>
          (t \<notin> dying w' \<longrightarrow> subsystem_ptr x \<notin> subsystems (targets w' \<union> dying w') names w')))"
proof -
  note ok = run_registry_ok [OF assms]
  note D = registry_okD [OF ok]
  have own: "t' = t \<and> n' = n" if "given H t n = Some x" "given H t' n' = Some x" for t n t' n' x
    using D(1) D(2) [OF that(1)] D(2) [OF that(2)] distinct_namesD [OF D(5), of t' t n' _ n] by blast
  from assms(3) have work: "unchanged targets dying names w w'" if "work w w'" for w w'
    using that unfolding configure_contract_def by blast
  show ?thesis
  proof (intro conjI ballI allI impI)
    show "targets w = held_targets H" by (rule D(1))
  next
    fix t n opts assume "t \<in> held_targets H" "find_subsystem api (NvmfTarget t) n w \<noteq> None"
    with D(1) show "\<exists>e. fst (create_subsystem api (NvmfTarget t) n opts w) = Inl e"
      by (intro taken_refused [OF assms(2,3)]) simp_all
  next
    fix t n x t' n' assume "given H t n = Some x" "given H t' n' = Some x"
    from own [OF this] show "t' = t" "n' = n" by simp_all
  next
    fix t n x assume "given H t n = Some x"
    with D(2) nvmf_run.target_dropped [OF assms(6), of t]
    show "\<exists>H'. nvmf_run api work w0 (target_drop api (NvmfTarget t) w) H' \<and> t \<notin> held_targets H' \<and> x \<in> kept H'"
      by (fastforce simp: ran_def)
  next
    fix t n x w' assume x: "given H t n = Some x" and w': "work\<^sup>*\<^sup>* (target_drop api (NvmfTarget t) w) w'"
    note gone = given_dangles [OF assms(1) ok work x w']
    from gone show "t \<notin> dying w' \<Longrightarrow> subsystem_ptr x \<notin> subsystems (targets w' \<union> dying w') names w'"
      by (fastforce simp: subsystems_def ran_def)
    from gone show "subsystem_ptr x \<notin> subsystems (targets w') names w'"
      by (fastforce simp: subsystems_def ran_def)
  qed (use D(2) found_given [OF assms(2) ok] given_nqn [OF assms(2) ok] given_alive [OF ok] in blast)+
qed

text \<open>
  Another name has no room. Then the target is dropped: its subsystem is there until SPDK works.
\<close>

lemma registry_run:
  assumes "length sn \<le> 20" "nul \<notin> set sn"
  shows "nvmf_run registry_nvmf registry_work (NoTarget, None) (Serving, Some ''nqn'')
    \<lparr>held_targets = {2}, given = (\<lambda>_. Map.empty)(2 := [''nqn'' \<mapsto> NvmfSubsystem 3]), leftovers = {}, kept = {}\<rparr>"
proof -
  let ?opts = "\<lparr>serial_number = Some sn, model_number = None, allow_any_host = True\<rparr>"
  have "create_with_opts registry_nvmf \<lparr>target_name = None, max_subsystems = None\<rparr> (NoTarget, None) =
      (Inr (NvmfTarget 2), (Serving, None))"
    by (simp add: create_with_opts_def registry_api ok_or_def Let_def)
  from nvmf_run.target_made [OF nvmf_run.start this]
  have "nvmf_run registry_nvmf registry_work (NoTarget, None) (Serving, None)
      \<lparr>held_targets = {2}, given = (\<lambda>_. Map.empty), leftovers = {}, kept = {}\<rparr>" by simp
  moreover have "create_subsystem registry_nvmf (NvmfTarget 2) ''nqn'' ?opts (Serving, None) =
      (Inr (NvmfSubsystem 3), (Serving, Some ''nqn''))"
    using assms by (simp add: create_subsystem_def registry_nvmf_def set_serial_number_def
        set_allow_any_host_def subsystem_from_ptr_def nul_def)
  moreover have "utf8_valid ''nqn''" by code_simp
  ultimately show ?thesis
    using nvmf_run.subsystem_made [of registry_nvmf registry_work "(NoTarget, None)" "(Serving, None)" _ 2 "''nqn''" ?opts]
    by fastforce
qed

theorem registry_refines_witness:
  "\<exists>w H H' d. nvmf_run registry_nvmf registry_work (NoTarget, None) w H \<and> held_targets H = {2} \<and>
     find_subsystem registry_nvmf (NvmfTarget 2) ''nqn'' w = Some (NvmfSubsystem 3) \<and>
     find_subsystem registry_nvmf (NvmfTarget 2) ''other'' w = None \<and>
     subsystem_nqn registry_nvmf (NvmfSubsystem 3) w = ''nqn'' \<and>
     d = target_drop registry_nvmf (NvmfTarget 2) w \<and>
     nvmf_run registry_nvmf registry_work (NoTarget, None) d H' \<and> NvmfSubsystem 3 \<in> kept H' \<and>
     3 \<in> subsystems (registry_dying d) registry_names d \<and>
     3 \<notin> subsystems (registry_targets d) registry_names d"
proof -
  let ?w = "(Serving, Some ''nqn'')" and ?d = "(Ending, Some ''nqn'')"
  let ?H = "\<lparr>held_targets = {2}, given = (\<lambda>_. Map.empty)(2 := [''nqn'' \<mapsto> NvmfSubsystem 3]), leftovers = {}, kept = {}\<rparr>"
  from registry_run [of "''SPDK1''"]
  have run: "nvmf_run registry_nvmf registry_work (NoTarget, None) ?w ?H" by (simp add: nul_def)
  have "registry_targets (NoTarget, None) = {}" "registry_dying (NoTarget, None) = {}"
    by (simp_all add: registry_defs)
  note R = registry_refines [OF registry_target_contract registry_create_contract registry_configure_contract this run]
  have d: "target_drop registry_nvmf (NvmfTarget 2) ?w = ?d" by (simp add: target_drop_def registry_api)
  have "find_subsystem registry_nvmf (NvmfTarget 2) n ?w = given ?H 2 n" for n
    using R [THEN conjunct2, THEN conjunct1, rule_format, of 2 n] by simp
  moreover note R [THEN conjunct2, THEN conjunct2, THEN spec [of _ 2], THEN spec [of _ "''nqn''"],
      THEN spec [of _ "NvmfSubsystem 3"], unfolded d]
  then obtain H' where "subsystem_nqn registry_nvmf (NvmfSubsystem 3) ?w = ''nqn''"
    "nvmf_run registry_nvmf registry_work (NoTarget, None) ?d H'" "NvmfSubsystem 3 \<in> kept H'"
    "3 \<notin> subsystems (registry_targets ?d) registry_names ?d" by auto
  moreover have "3 \<in> subsystems (registry_dying ?d) registry_names ?d"
    by (simp add: subsystems_def registry_defs ran_def)
  ultimately show ?thesis using run d
    by (intro exI [of _ ?w] exI [of _ ?H] exI [of _ H'] exI [of _ ?d]) simp
qed

end
