(* ===== verification/Wakers.thy ===== *)
theory Wakers
  imports Executor
begin

text \<open>
  The executor of \<open>Executor\<close> when it polls only the tasks that were woken, as real ones do. A task is woken
  by itself (\<open>yield_now\<close> of \<open>poller.rs\<close>) or by the channel of its request (\<open>CompletionReceiver\<close> of
  \<open>complete.rs\<close>, which hands its context to the channel's receiver when it is polled).
\<close>

section \<open>Wakers\<close>

text \<open>
  The documentation of \<open>futures_channel::oneshot\<close>: when the value arrives, or the sender is dropped, that
  is, when the channel is open no more, the waker registered with it is called. Which waker that is
  depends on the context the receiver was polled with (\<open>waker_spec\<close>): here \<open>registered\<close> observes it, and
  only the task whose waker it is becomes runnable.
\<close>

definition is_open :: "('c \<Rightarrow> chan \<Rightarrow> io_result chan_view) \<Rightarrow> ('c, 'w) exec \<Rightarrow> completion_receiver \<Rightarrow> bool" where
  "is_open view X r \<longleftrightarrow> (case spdk (ex_proc X) of None \<Rightarrow> False | Some s \<Rightarrow> view (chans s) (rx r) = Open)"

definition waker_at ::
  "('c \<Rightarrow> chan \<Rightarrow> waker option) \<Rightarrow> ('c, 'w) exec \<Rightarrow> completion_receiver \<Rightarrow> waker option" where
  "waker_at registered X r =
     (case spdk (ex_proc X) of None \<Rightarrow> None | Some s \<Rightarrow> registered (chans s) (rx r))"

definition notified ::
  "('c \<Rightarrow> chan \<Rightarrow> io_result chan_view) \<Rightarrow> ('c \<Rightarrow> chan \<Rightarrow> waker option) \<Rightarrow> ('c, 'w) exec \<Rightarrow>
     ('c, 'w) exec \<Rightarrow> nat \<Rightarrow> bool" where
  "notified view registered X Y i \<longleftrightarrow>
     (\<exists>r. is_open view X r \<and> \<not> is_open view Y r \<and> waker_at registered X r = Some (TaskWaker i))"

text \<open>The poller's turn, with what it says about waking its task.\<close>

definition waking_poller_turn ::
  "('c, 'w) runtime option thread_api \<Rightarrow> ('c, 'w) exec \<Rightarrow> (bool \<times> ('c, 'w) exec) option" where
  "waking_poller_turn api X =
     (case spdk_poller api (ex_poller X) (ex_proc X) of
        Some (Returned (Pending, woken, f, s)) \<Rightarrow> Some (woken, X\<lparr>ex_poller := f, ex_proc := s\<rparr>)
      | _ \<Rightarrow> None)"

text \<open>
  The state: the executor's, the tasks that are woken, and how often each request was polled. At the
  start all are woken, because they are spawned.
\<close>

record ('c, 'w) waking =
  wk_exec :: "('c, 'w) exec"
  wk_woken :: "turn \<Rightarrow> bool"
  wk_polls :: "nat \<Rightarrow> nat"

definition wk_start :: "('c, 'w) runtime \<Rightarrow> ('c, 'w) waking" where
  "wk_start s = \<lparr>wk_exec = exec_start s, wk_woken = (\<lambda>_. True), wk_polls = (\<lambda>_. 0)\<rparr>"

text \<open>A turn of a task that is not woken does nothing.\<close>

definition wk_turn ::
  "('c \<Rightarrow> chan \<Rightarrow> io_result chan_view) \<Rightarrow> ('c \<Rightarrow> chan \<Rightarrow> waker option) \<Rightarrow>
     (('c, 'w) exec \<Rightarrow> (bool \<times> ('c, 'w) exec) option) \<Rightarrow>
     ('q \<Rightarrow> future \<Rightarrow> ('c, 'w) runtime \<Rightarrow> ('c, 'w) resumed) \<Rightarrow> (nat \<Rightarrow> 'q) \<Rightarrow> turn \<Rightarrow>
     ('c, 'w) waking \<Rightarrow> ('c, 'w) waking option" where
  "wk_turn view registered driver resume job t K =
     (if \<not> wk_woken K t then Some K
      else
        (case (case t of
                 DriverTurn \<Rightarrow> driver (wk_exec K)
               | TaskTurn i \<Rightarrow> map_option (Pair False) (task_turn resume job i (wk_exec K))) of
           None \<Rightarrow> None
         | Some (again, Y) \<Rightarrow> Some
             \<lparr>wk_exec = Y,
              wk_woken = (\<lambda>u. (if u = t then again else wk_woken K u) \<or>
                (case u of DriverTurn \<Rightarrow> False | TaskTurn i \<Rightarrow> notified view registered (wk_exec K) Y i)),
              wk_polls = (case t of DriverTurn \<Rightarrow> wk_polls K
                | TaskTurn i \<Rightarrow> (wk_polls K)(i := Suc (wk_polls K i)))\<rparr>))"

primrec wk_run ::
  "('c \<Rightarrow> chan \<Rightarrow> io_result chan_view) \<Rightarrow> ('c \<Rightarrow> chan \<Rightarrow> waker option) \<Rightarrow>
     (('c, 'w) exec \<Rightarrow> (bool \<times> ('c, 'w) exec) option) \<Rightarrow>
     ('q \<Rightarrow> future \<Rightarrow> ('c, 'w) runtime \<Rightarrow> ('c, 'w) resumed) \<Rightarrow> (nat \<Rightarrow> 'q) \<Rightarrow> (nat \<Rightarrow> turn) \<Rightarrow> nat \<Rightarrow>
     ('c, 'w) waking \<Rightarrow> ('c, 'w) waking option" where
  "wk_run view registered driver resume job sched 0 K = Some K"
| "wk_run view registered driver resume job sched (Suc n) K =
     Option.bind (wk_run view registered driver resume job sched n K) (wk_turn view registered driver resume job (sched n))"

text \<open>The poller wakes its task whenever it suspends.\<close>

lemma poller_loop_wakes:
  assumes "poller_loop api th s = Some z"
  shows "fst z"
proof (rule poller_loop.raw_induct [where P = "\<lambda>_ _ _ z. fst z", OF _ assms])
  fix f api th s z
  assume IH: "\<And>api th s z. f api th s = Some z \<Longrightarrow> fst z"
    and "(case current_poll api th s of (work_done, s) \<Rightarrow>
        if work_done = 0 then (case yield_poll yield_now of (_, y, woken) \<Rightarrow> Some (woken, PollerYield th y, s))
        else f api th s) = Some z"
  then show "fst z" by (auto simp: yield_poll_def yield_now_def split: prod.splits if_splits dest: IH)
qed

definition self_waking :: "('x \<Rightarrow> 'y option) \<Rightarrow> 'x \<Rightarrow> (bool \<times> 'y) option" where
  "self_waking driver X = map_option (Pair True) (driver X)"

lemma waking_poller: "waking_poller_turn api = self_waking (poller_turn api)"
proof
  fix X
  show "waking_poller_turn api X = self_waking (poller_turn api) X"
    by (cases "ex_poller X") (auto simp: waking_poller_turn_def poller_turn_def self_waking_def spdk_poller_def
        yield_poll_def split: option.splits dest: poller_loop_wakes)
qed

section \<open>No lost and no spurious wakeups\<close>

text \<open>A request is ready if polling it would do something: it has not started, or its channel has its result.\<close>

definition ready :: "('c \<Rightarrow> chan \<Rightarrow> io_result chan_view) \<Rightarrow> ('c, 'w) exec \<Rightarrow> nat \<Rightarrow> bool" where
  "ready view X i \<longleftrightarrow> ex_result X i = None \<and>
     (case ex_task X i of Unstarted \<Rightarrow> True | Awaiting r \<Rightarrow> \<not> is_open view X r | Finished \<Rightarrow> False)"

text \<open>Each request was polled as often as its state tells.\<close>

definition polls_ok :: "('c, 'w) exec \<Rightarrow> (nat \<Rightarrow> nat) \<Rightarrow> nat \<Rightarrow> bool" where
  "polls_ok X n i \<longleftrightarrow> n i \<le> 2 \<and> (ex_task X i = Unstarted \<longrightarrow> n i = 0) \<and>
     (\<forall>r. ex_task X i = Awaiting r \<longrightarrow> n i = 1)"

text \<open>What wakes a task, as far as its own request is concerned: the channel it awaits was closed.\<close>

definition closed_for ::
  "('c \<Rightarrow> chan \<Rightarrow> io_result chan_view) \<Rightarrow> ('c, 'w) exec \<Rightarrow> ('c, 'w) exec \<Rightarrow> nat \<Rightarrow> bool" where
  "closed_for view X Y i \<longleftrightarrow>
     (case ex_task X i of Awaiting r \<Rightarrow> is_open view X r \<and> \<not> is_open view Y r | _ \<Rightarrow> False)"

text \<open>An open channel whose sender is boxed is awaited by a task.\<close>

definition boxes_awaited ::
  "('c \<Rightarrow> chan \<Rightarrow> io_result chan_view) \<Rightarrow> ('c, 'w, 'st) io_system \<Rightarrow> bool" where
  "boxes_awaited view S \<longleftrightarrow>
     (\<forall>p ch. cells (sender_boxes (rt S)) p = Some ch \<longrightarrow> view (chans (rt S)) ch = Open \<longrightarrow>
        (\<exists>i. tasks S i = Some (Awaiting (CompletionReceiver ch))))"

context io_protocol
begin

lemma boxes_awaited_first:
  assumes os: "oneshot_spec os view" and con: "submit_contract submit release pending"
    and inv: "sys_inv decode err_of view pending S" and aw: "boxes_awaited view S"
    and i: "tasks S i = Some Unstarted" and res: "resume q Unstarted (rt S) = Some (x, f', s)"
  shows "boxes_awaited view (record_poll i Unstarted x f' s sub S)"
proof -
  from inv have ok: "boxes_ok (sender_boxes (rt S))"
    and fresh: "fresh_inv (cells (sender_boxes (rt S))) (view (chans (rt S))) (told S) (chan_of S)"
    by (simp_all add: sys_inv_def io_inv_def)
  have old: "\<exists>j. ((tasks S)(i \<mapsto> f')) j = Some (Awaiting (CompletionReceiver ch))"
    if "cells (sender_boxes (rt S)) p = Some ch" "view (chans (rt S)) ch = Open" for p ch
    using aw that i unfolding boxes_awaited_def by (metis fun_upd_apply future.distinct(1) option.inject)
  from first_poll [OF os con ok, of q] show ?thesis
  proof cases
    case (1 p ch s')
    with res show ?thesis using old fresh_invD(3) [OF fresh 1(5)]
      by (auto simp: boxes_awaited_def record_poll_fields split: if_splits)
  next
    case (2 p ch st s')
    with res show ?thesis using old
      by (auto simp: boxes_awaited_def record_poll_fields split: if_splits)
  next
    case (3 p ch rc s')
    with res show ?thesis using old fresh_invD(3) [OF fresh 3(6)]
      by (auto simp: boxes_awaited_def record_poll_fields split: if_splits)
  qed
qed

text \<open>A task that ends drops the channel it awaited.\<close>

lemma boxes_awaited_ends:
  assumes aw: "boxes_awaited view S" and i: "tasks S i = Some f"
    and V: "view (chans (rt T)) = (case f of Awaiting r \<Rightarrow> (view (chans (rt S)))(rx r := ReceiverGone)
      | _ \<Rightarrow> view (chans (rt S)))"
    and T: "cells (sender_boxes (rt T)) = cells (sender_boxes (rt S))" "tasks T = (tasks S)(i \<mapsto> Finished)"
  shows "boxes_awaited view T"
  unfolding boxes_awaited_def
proof (intro allI impI)
  fix p ch assume p: "cells (sender_boxes (rt T)) p = Some ch" "view (chans (rt T)) ch = Open"
  with V have o: "view (chans (rt S)) ch = Open" "f \<noteq> Awaiting (CompletionReceiver ch)"
    by (auto split: future.splits if_splits)
  with aw p(1) T(1) obtain j where "tasks S j = Some (Awaiting (CompletionReceiver ch))"
    unfolding boxes_awaited_def by auto
  with i o(2) T(2) show "\<exists>j. tasks T j = Some (Awaiting (CompletionReceiver ch))"
    by (intro exI [of _ j]) auto
qed

lemma reachable_boxes_awaited:
  assumes os: "oneshot_spec os view" and con: "submit_contract submit release pending"
    and "io_reachable os resume submit callback pending job S"
  shows "boxes_awaited view S"
  using assms(3)
proof induction
  case (start s)
  then show ?case by (simp add: boxes_awaited_def io_start_def)
next
  case (step S T)
  note inv = reachable_inv [OF os con step.hyps(1)] and aw = step.IH
  from inv have io: "io_inv decode err_of (cells (sender_boxes (rt S))) (pending (dev (rt S)))
      (view (chans (rt S))) (tasks S) (outcome S) (chan_of S) (told S) (refused S)"
    by (simp add: sys_inv_def)
  from step.hyps(2) show ?case
  proof cases
    case (spawn i)
    then have "rt T = rt S" "\<And>j. tasks S j \<noteq> None \<Longrightarrow> tasks T j = tasks S j" by auto
    with aw show ?thesis unfolding boxes_awaited_def by (metis option.distinct(1))
  next
    case (poll i f x f' s)
    show ?thesis
    proof (cases f)
      case Unstarted
      with poll boxes_awaited_first [OF os con inv aw] show ?thesis by simp
    next
      case (Awaiting r)
      with poll have i: "tasks S i = Some (Awaiting r)" by simp
      from os inv i show ?thesis
      proof (cases rule: later_poll [where q = "job i"])
        case (waiting p c)
        with poll Awaiting have "f' = Awaiting r" "s = (rt S)\<lparr>chans := c\<rparr>" by simp_all
        with poll(1) i have "tasks T = tasks S" "rt T = (rt S)\<lparr>chans := c\<rparr>"
          by (simp_all add: record_poll_fields fun_upd_idem)
        with aw waiting(4) show ?thesis by (simp add: boxes_awaited_def)
      next
        case (finished st c)
        with poll Awaiting show ?thesis
          by (intro boxes_awaited_ends [OF aw i]) (auto simp: record_poll_fields)
      qed
    qed (use poll in simp)
  next
    case (cancel i f)
    have "view (chans (drop_future os f (rt S))) = (case f of
        Awaiting r \<Rightarrow> (view (chans (rt S)))(rx r := ReceiverGone) | _ \<Rightarrow> view (chans (rt S)))"
    proof (cases f)
      case (Awaiting r)
      with tasks_invD(2) [OF io_invD(2) [OF io]] cancel(2) have "view (chans (rt S)) (rx r) \<noteq> Unmade"
        by (fastforce simp: waits_def)
      with Awaiting oneshot_drop(3) [OF os] show ?thesis by simp
    qed simp_all
    moreover have "sender_boxes (drop_future os f (rt S)) = sender_boxes (rt S)" by (cases f) simp_all
    ultimately show ?thesis using cancel by (intro boxes_awaited_ends [OF aw cancel(2)]) simp_all
  next
    case (complete p w st s ch)
    note B = boxes_invD(5,6) [OF io_invD(1) [OF io]]
    from inv have "boxes_ok (sender_boxes (rt S))" by (simp add: sys_inv_def)
    with complete_boxed_Some [OF os, of "(rt S)\<lparr>dev := w\<rparr>" p ch decode release st] complete(4,5) B(2)
    have C: "cells (sender_boxes s) = (cells (sender_boxes (rt S)))(p := None)"
      "\<And>d. d \<noteq> ch \<Longrightarrow> view (chans s) d = view (chans (rt S)) d" by (auto simp: callback_eq)
    show ?thesis unfolding boxes_awaited_def
    proof (intro allI impI)
      fix q d assume "cells (sender_boxes (rt T)) q = Some d" and o: "view (chans (rt T)) d = Open"
      with complete(1) C(1) have q: "q \<noteq> p" "cells (sender_boxes (rt S)) q = Some d"
        by (auto split: if_splits)
      with B(1) complete(5) have "d \<noteq> ch" by blast
      with o C(2) complete(1) have "view (chans (rt S)) d = Open" by simp
      with aw q(2) complete(1) show "\<exists>i. tasks T i = Some (Awaiting (CompletionReceiver d))"
        by (simp add: boxes_awaited_def)
    qed
  qed (use aw in \<open>simp_all add: boxes_awaited_def\<close>)
qed

text \<open>
  Between two states that close no channel but boxed ones, the tasks that are notified are exactly those
  whose own channel was closed.
\<close>

lemma notified_eq:
  assumes os: "oneshot_spec os view" and w: "waker_spec os view registered"
    and con: "submit_contract submit release pending"
    and S: "io_reachable os resume submit callback pending job S" and sim: "simulates th X S"
    and closes: "\<And>r. is_open view X r \<Longrightarrow> \<not> is_open view Y r \<Longrightarrow>
      \<exists>p. cells (sender_boxes (rt S)) p = Some (rx r)"
  shows "notified view registered X Y i \<longleftrightarrow> closed_for view X Y i"
proof -
  note aw = reachable_awake [OF os w con S] and D = simulatesD [OF sim]
  have at: "waker_at registered X r = Some (TaskWaker j)" "ex_task X j = Awaiting r"
    if "tasks S j = Some (Awaiting r)" "is_open view X r" for j r
    using that aw D(1) D(2) [of j] D(3) [of j] by (auto simp: waker_at_def is_open_def awake_inv_def)
  show ?thesis
  proof
    assume "notified view registered X Y i"
    then obtain r where r: "is_open view X r" "\<not> is_open view Y r" "waker_at registered X r = Some (TaskWaker i)"
      unfolding notified_def by blast
    from closes [OF r(1,2)] r(1) D(1) reachable_boxes_awaited [OF os con S]
    obtain j where j: "tasks S j = Some (Awaiting r)" unfolding boxes_awaited_def is_open_def by fastforce
    with at [OF j r(1)] r show "closed_for view X Y i" by (simp add: closed_for_def)
  next
    assume c: "closed_for view X Y i"
    then obtain r where r: "ex_task X i = Awaiting r" "is_open view X r" "\<not> is_open view Y r"
      by (auto simp: closed_for_def split: future.splits)
    with D(2) [of i] have "tasks S i = Some (Awaiting r)" by (cases "tasks S i") auto
    with at(1) r show "notified view registered X Y i" unfolding notified_def by blast
  qed
qed

definition wk_inv ::
  "('c \<Rightarrow> chan \<Rightarrow> io_result chan_view) \<Rightarrow> ('w \<Rightarrow> (ptr \<times> 'st) option \<times> 'w) \<Rightarrow> ('w \<Rightarrow> ptr set) \<Rightarrow>
     ('w \<Rightarrow> ptr \<Rightarrow> nat) \<Rightarrow> (nat \<Rightarrow> 'q) \<Rightarrow> ptr \<Rightarrow> ('c, 'w) waking \<Rightarrow> ('c, 'w, 'st) io_system \<Rightarrow> bool" where
  "wk_inv view fetch pending due job th K S \<longleftrightarrow>
     io_reachable os resume submit callback pending job S \<and> simulates th (wk_exec K) S \<and>
     (\<forall>i. tasks S i = None \<or> (\<exists>m. standing fetch pending due job i m (wk_exec K) S)) \<and>
     wk_woken K DriverTurn \<and> (\<forall>i. wk_woken K (TaskTurn i) \<longleftrightarrow> ready view (wk_exec K) i) \<and>
     (\<forall>i. polls_ok (wk_exec K) (wk_polls K) i)"

lemma wk_invD:
  assumes "wk_inv view fetch pending due job th K S"
  shows "io_reachable os resume submit callback pending job S" "simulates th (wk_exec K) S"
    "tasks S i = None \<or> (\<exists>m. standing fetch pending due job i m (wk_exec K) S)"
    "wk_woken K DriverTurn" "wk_woken K (TaskTurn i) \<longleftrightarrow> ready view (wk_exec K) i"
    "polls_ok (wk_exec K) (wk_polls K) i"
  using assms unfolding wk_inv_def by blast+

lemma is_open_eq: "simulates th X S \<Longrightarrow> is_open view X r \<longleftrightarrow> view (chans (rt S)) (rx r) = Open"
  by (simp add: simulates_def is_open_def)

text \<open>A channel is open exactly until its task was told.\<close>

lemma awaiting_open:
  assumes "oneshot_spec os view" "submit_contract submit release pending"
    and "io_reachable os resume submit callback pending job S" "tasks S i = Some (Awaiting r)"
  shows "view (chans (rt S)) (rx r) = Open \<longleftrightarrow> told S (rx r) = None"
proof -
  from reachable_inv [OF assms(1-3)] have io: "io_inv decode err_of
      (cells (sender_boxes (rt S))) (pending (dev (rt S))) (view (chans (rt S))) (tasks S)
      (outcome S) (chan_of S) (told S) (refused S)" by (simp add: sys_inv_def)
  from tasks_invD(2) [OF io_invD(2) [OF io] assms(4)] consider
      (opened) p where "view (chans (rt S)) (rx r) = Open" "cells (sender_boxes (rt S)) p = Some (rx r)"
    | (sent) st where "told S (rx r) = Some st" "view (chans (rt S)) (rx r) = Sent (decode st)"
    unfolding waits_def by blast
  then show ?thesis
  proof cases
    case (opened p)
    with boxes_invD(6) [OF io_invD(1) [OF io] opened(2)] show ?thesis by simp
  next
    case (sent st)
    then show ?thesis by simp
  qed
qed

text \<open>A task's own turn leaves it with its result, or waiting for an open channel for the first time.\<close>

lemma own_turn:
  assumes os: "oneshot_spec os view" and con: "submit_contract submit release pending"
    and S: "io_reachable os resume submit callback pending job S" and sim: "simulates th X S"
    and rdy: "ready view X j" and turn: "task_turn resume job j X = Some Y"
  shows "ex_result Y j \<noteq> None \<and> ex_task Y j = Finished \<or>
    ex_task X j = Unstarted \<and> (\<exists>r. ex_task Y j = Awaiting r \<and> is_open view Y r)"
proof -
  note inv = reachable_inv [OF os con S]
  from rdy have none: "ex_result X j = None" by (simp add: ready_def)
  from sim have rt: "spdk (ex_proc X) = Some (rt S)" by (rule simulatesD)
  show ?thesis
  proof (cases "ex_task X j")
    case Unstarted
    from inv have "boxes_ok (sender_boxes ((rt S)\<lparr>poll_cx := TaskWaker j\<rparr>))" by (simp add: sys_inv_def)
    with os con show ?thesis
      by (cases rule: first_poll [where q = "job j"]) (use Unstarted none rt turn in
        \<open>auto simp: task_turn_def is_open_def\<close>)
  next
    case (Awaiting r)
    with simulatesD(2) [OF sim, of j] none have j: "tasks S j = Some (Awaiting r)"
      by (cases "tasks S j") auto
    from j have j': "tasks (entered (TaskWaker j) S) j = Some (Awaiting r)" by simp
    note inv' = reachable_inv [OF os con io_reachable.step [OF S io_step.enter, of "TaskWaker j"]]
    from os inv' j' show ?thesis
    proof (cases rule: later_poll [where q = "job j"])
      case (waiting p c)
      with awaiting_open [OF os con S j] is_open_eq [OF sim, of view r] rdy Awaiting show ?thesis
        by (simp add: ready_def)
    next
      case (finished st c)
      with Awaiting none rt turn show ?thesis by (auto simp: task_turn_def)
    qed
  next
    case Finished
    with rdy show ?thesis by (simp add: ready_def)
  qed
qed

text \<open>Any other turn leaves the task alone, and a result that has arrived stays.\<close>

lemma other_turn:
  assumes drv: "drives view fetch pending due job th driver"
    and S: "io_reachable os resume submit callback pending job S" and sim: "simulates th X S"
    and t: "t \<noteq> TaskTurn i" and turn: "take_turn driver resume job t X = Some Y"
  shows "ex_task Y i = ex_task X i \<and> ex_result Y i = ex_result X i"
proof (cases t)
  case DriverTurn
  from drv S sim obtain Y' and T :: "('c, 'w, 'st) io_system" where "driver X = Some Y'"
    "simulates th Y' T" "ex_result Y' = ex_result X" "tasks T = tasks S"
    unfolding drives_def by blast
  with turn DriverTurn simulatesD(2) [OF sim, of i] simulatesD(2) [of th Y T i] show ?thesis
    by (cases "tasks S i") simp_all
next
  case (TaskTurn j)
  with t turn show ?thesis by (auto simp: task_turn_def split: if_splits option.splits prod.splits poll.splits)
qed

text \<open>A turn of the driver closes boxed channels only; one of a task closes no open channel at all.\<close>

lemma turn_closes:
  assumes os: "oneshot_spec os view" and con: "submit_contract submit release pending"
    and drv: "drives view fetch pending due job th driver"
    and S: "io_reachable os resume submit callback pending job S" and sim: "simulates th X S"
    and turn: "take_turn driver resume job t X = Some Y"
    and r: "is_open view X r" "\<not> is_open view Y r"
  shows "\<exists>p. cells (sender_boxes (rt S)) p = Some (rx r)"
proof (cases t)
  case DriverTurn
  from drv S sim obtain Y' and T :: "('c, 'w, 'st) io_system" where "driver X = Some Y'"
    "simulates th Y' T" "closes_boxed view S T" unfolding drives_def by blast
  with turn DriverTurn r is_open_eq [OF sim] is_open_eq [of th Y T] show ?thesis
    unfolding closes_boxed_def by auto
next
  case (TaskTurn j)
  from sim have rt: "spdk (ex_proc X) = Some (rt S)" by (rule simulatesD)
  have "is_open view Y r"
  proof (cases "ex_result X j")
    case None
    note inv = reachable_inv [OF os con io_reachable.step [OF S io_step.enter, of "TaskWaker j"]]
    show ?thesis
    proof (cases "ex_task X j")
      case Unstarted
      from inv have "boxes_ok (sender_boxes ((rt S)\<lparr>poll_cx := TaskWaker j\<rparr>))" by (simp add: sys_inv_def)
      with os con show ?thesis
        by (cases rule: first_poll [where q = "job j"]) (use Unstarted None rt turn TaskTurn r(1) in
          \<open>auto simp: task_turn_def is_open_def\<close>)
    next
      case (Awaiting u)
      with simulatesD(2) [OF sim, of j] None have "tasks (entered (TaskWaker j) S) j = Some (Awaiting u)"
        by (cases "tasks S j") auto
      with os inv show ?thesis
        by (cases rule: later_poll [where q = "job j"]) (use Awaiting None rt turn TaskTurn r(1) in
          \<open>auto simp: task_turn_def is_open_def\<close>)
    next
      case Finished
      with simulatesD(2) [OF sim, of j] None show ?thesis by (cases "tasks S j") auto
    qed
  qed (use turn TaskTurn r(1) in \<open>simp add: task_turn_def\<close>)
  with r(2) show ?thesis by simp
qed

lemma stays_closed:
  assumes os: "oneshot_spec os view" and con: "submit_contract submit release pending"
    and S: "io_reachable os resume submit callback pending job S" "simulates th X S"
    and T: "io_reachable os resume submit callback pending job T" "simulates th Y T"
    and adv: "advances fetch pending due job t X S Y T" and st: "standing fetch pending due job i m X S"
    and i: "ex_task X i = Awaiting r" "ex_task Y i = Awaiting r" "ex_result X i = None" "ex_result Y i = None"
    and closed: "\<not> is_open view X r"
  shows "\<not> is_open view Y r"
proof -
  from simulatesD(2) [OF S(2), of i] i have Si: "tasks S i = Some (Awaiting r)" by (cases "tasks S i") auto
  from simulatesD(2) [OF T(2), of i] i have Ti: "tasks T i = Some (Awaiting r)" by (cases "tasks T i") auto
  from closed awaiting_open [OF os con S(1) Si] is_open_eq [OF S(2)] have told: "told S (rx r) \<noteq> None" by simp
  from st i(3) have "awaits fetch pending due S i m" by (simp add: standing_def)
  with told Si reachable_invD(3) [OF os con S(1)] have "awaits fetch pending due S i 0"
    by (fastforce simp: awaits_def)
  then have "standing fetch pending due job i 0 X S" by (simp add: standing_def)
  from advancesD(3) [OF adv this] i(4) have "awaits fetch pending due T i 0" by (simp add: standing_def)
  with Ti have "told T (rx r) \<noteq> None" by (auto simp: awaits_def)
  with awaiting_open [OF os con T(1) Ti] is_open_eq [OF T(2)] show ?thesis by simp
qed

lemma other_ready:
  assumes os: "oneshot_spec os view" and con: "submit_contract submit release pending"
    and S: "io_reachable os resume submit callback pending job S" "simulates th X S"
    and T: "io_reachable os resume submit callback pending job T" "simulates th Y T"
    and adv: "advances fetch pending due job t X S Y T"
    and st: "tasks S i = None \<or> (\<exists>m. standing fetch pending due job i m X S)"
    and same: "ex_task Y i = ex_task X i \<and> ex_result Y i = ex_result X i"
  shows "ready view Y i \<longleftrightarrow> ready view X i \<or> closed_for view X Y i"
proof (cases "ex_task X i")
  case (Awaiting r)
  show ?thesis
  proof (cases "ex_result X i")
    case None
    from simulatesD(2) [OF S(2), of i] Awaiting None have "tasks S i \<noteq> None"
      by (cases "tasks S i") auto
    with st obtain m where m: "standing fetch pending due job i m X S" by blast
    from stays_closed [OF os con S T adv m Awaiting] same Awaiting None
    have "\<not> is_open view X r \<Longrightarrow> \<not> is_open view Y r" by simp
    with Awaiting None same show ?thesis by (auto simp: ready_def closed_for_def)
  next
    case (Some x)
    with simulatesD(2) [OF S(2), of i] Awaiting show ?thesis by (cases "tasks S i") auto
  qed
qed (use same in \<open>simp_all add: ready_def closed_for_def\<close>)

text \<open>The invariant: between two turns exactly the tasks that are ready are woken.\<close>

lemma wk_step:
  assumes os: "oneshot_spec os view" and w: "waker_spec os view registered" and con: "submit_contract submit release pending"
    and dev: "device_contract fetch release pending due" and pat: "submit_patient submit pending due"
    and drv: "drives view fetch pending due job th driver"
    and inv: "wk_inv view fetch pending due job th K S" and woken: "wk_woken K t"
  obtains K' T where "wk_turn view registered (self_waking driver) resume job t K = Some K'"
    "wk_inv view fetch pending due job th K' T"
    "advances fetch pending due job t (wk_exec K) S (wk_exec K') T"
proof -
  note D = wk_invD [OF inv]
  from turn_progress [OF os con dev pat drv D(1,2), of t] obtain Y T where
    Y: "take_turn driver resume job t (wk_exec K) = Some Y" "io_reachable os resume submit callback pending job T"
    "simulates th Y T" "advances fetch pending due job t (wk_exec K) S Y T" .
  let ?K = "\<lparr>wk_exec = Y,
      wk_woken = (\<lambda>u. (if u = t then t = DriverTurn else wk_woken K u) \<or>
        (case u of DriverTurn \<Rightarrow> False | TaskTurn i \<Rightarrow> notified view registered (wk_exec K) Y i)),
      wk_polls = (case t of DriverTurn \<Rightarrow> wk_polls K
        | TaskTurn i \<Rightarrow> (wk_polls K)(i := Suc (wk_polls K i)))\<rparr>"
  have turn: "wk_turn view registered (self_waking driver) resume job t K = Some ?K"
    using Y(1) woken by (cases t) (simp_all add: wk_turn_def self_waking_def)
  have eq: "notified view registered (wk_exec K) Y i \<longleftrightarrow> closed_for view (wk_exec K) Y i" for i
    by (rule notified_eq [OF os w con D(1,2)]) (rule turn_closes [OF os con drv D(1,2) Y(1)])
  have own: "\<not> ready view Y i \<and> \<not> notified view registered (wk_exec K) Y i \<and> polls_ok Y (wk_polls ?K) i"
    if t: "t = TaskTurn i" for i
  proof -
    from woken t D(5) have rdy: "ready view (wk_exec K) i" by simp
    from Y(1) t own_turn [OF os con D(1,2) rdy] have "ex_result Y i \<noteq> None \<and> ex_task Y i = Finished \<or>
        ex_task (wk_exec K) i = Unstarted \<and> (\<exists>r. ex_task Y i = Awaiting r \<and> is_open view Y r)" by simp
    with rdy D(6) [of i] t show ?thesis unfolding eq
      by (auto simp: ready_def closed_for_def polls_ok_def split: future.splits)
  qed
  have other: "(ready view Y i \<longleftrightarrow> wk_woken ?K (TaskTurn i)) \<and> polls_ok Y (wk_polls ?K) i" if t: "t \<noteq> TaskTurn i" for i
  proof -
    from other_turn [OF drv D(1,2) t Y(1)] have same: "ex_task Y i = ex_task (wk_exec K) i \<and>
        ex_result Y i = ex_result (wk_exec K) i" .
    from other_ready [OF os con D(1,2) Y(2,3,4) D(3) same] D(5) [of i] t have
      "ready view Y i \<longleftrightarrow> wk_woken ?K (TaskTurn i)" by (simp add: eq)
    moreover from same D(6) [of i] t have "polls_ok Y (wk_polls ?K) i"
      by (cases t) (simp_all add: polls_ok_def)
    ultimately show ?thesis ..
  qed
  have "wk_inv view fetch pending due job th ?K T"
    unfolding wk_inv_def
  proof (intro conjI allI)
    fix i
    show "tasks T i = None \<or> (\<exists>m. standing fetch pending due job i m (wk_exec ?K) T)"
      using D(3) [of i] advancesD(1-3) [OF Y(4), of i] by auto
    show "wk_woken ?K (TaskTurn i) \<longleftrightarrow> ready view (wk_exec ?K) i"
      using own [of i] other [of i] by (cases "t = TaskTurn i") auto
    show "polls_ok (wk_exec ?K) (wk_polls ?K) i"
      using own [of i] other [of i] by (cases "t = TaskTurn i") auto
    show "wk_woken ?K DriverTurn" using D(4) by simp
  qed (use Y in simp_all)
  with turn Y(4) show thesis by (intro that [of ?K T]) simp_all
qed

lemma wk_start_inv:
  assumes "boxes_ok (sender_boxes s)" "cells (sender_boxes s) = Map.empty" "pending (dev s) = {}"
  shows "wk_inv view fetch pending due job th (wk_start s) (io_start s)"
proof -
  have "io_reachable os resume submit callback pending job (io_start s)"
    by (rule io_reachable.start) (rule assms)+
  then show ?thesis by (simp add: wk_inv_def wk_start_def simulates_def exec_start_def io_start_def
      fresh_process_def ready_def polls_ok_def)
qed

text \<open>Turns of tasks that are not woken included.\<close>

lemma wk_any_step:
  assumes os: "oneshot_spec os view" and w: "waker_spec os view registered"
    and con: "submit_contract submit release pending"
    and dev: "device_contract fetch release pending due" and pat: "submit_patient submit pending due"
    and drv: "drives view fetch pending due job th driver"
    and inv: "wk_inv view fetch pending due job th K S"
  shows "\<exists>K' T. wk_turn view registered (self_waking driver) resume job t K = Some K' \<and>
    wk_inv view fetch pending due job th K' T \<and>
    (\<forall>i m. standing fetch pending due job i m (wk_exec K) S \<longrightarrow> standing fetch pending due job i m (wk_exec K') T)"
proof (cases "wk_woken K t")
  case True
  from wk_step [OF assms True] obtain K' T where *:
    "wk_turn view registered (self_waking driver) resume job t K = Some K'"
    "wk_inv view fetch pending due job th K' T"
    "advances fetch pending due job t (wk_exec K) S (wk_exec K') T" .
  from *(1,2) advancesD(3) [OF *(3)] show ?thesis by blast
next
  case False
  with inv show ?thesis by (intro exI [of _ K] exI [of _ S]) (simp add: wk_turn_def)
qed

section \<open>Fair schedules\<close>

lemma wk_safe:
  assumes os: "oneshot_spec os view" and w: "waker_spec os view registered"
    and con: "submit_contract submit release pending"
    and dev: "device_contract fetch release pending due" and pat: "submit_patient submit pending due"
    and drv: "drives view fetch pending due job th driver"
    and s: "boxes_ok (sender_boxes s)" "cells (sender_boxes s) = Map.empty" "pending (dev s) = {}"
  shows "\<exists>K S. wk_run view registered (self_waking driver) resume job sched n (wk_start s) = Some K \<and>
     wk_inv view fetch pending due job th K S"
proof (induction n)
  case 0
  have "wk_inv view fetch pending due job th (wk_start s) (io_start s)" by (rule wk_start_inv) (rule s)+
  then show ?case by auto
next
  case (Suc n)
  then obtain K S where K: "wk_run view registered (self_waking driver) resume job sched n (wk_start s) = Some K"
    "wk_inv view fetch pending due job th K S" by blast
  from wk_any_step [OF os w con dev pat drv K(2), of "sched n"] obtain K' T where
    "wk_turn view registered (self_waking driver) resume job (sched n) K = Some K'" "wk_inv view fetch pending due job th K' T"
    by blast
  with K(1) show ?case by auto
qed

lemma wk_advance:
  assumes os: "oneshot_spec os view" and w: "waker_spec os view registered"
    and con: "submit_contract submit release pending"
    and dev: "device_contract fetch release pending due" and pat: "submit_patient submit pending due"
    and drv: "drives view fetch pending due job th driver"
    and run: "wk_run view registered (self_waking driver) resume job sched n K0 = Some K"
    and inv: "wk_inv view fetch pending due job th K S"
    and st: "standing fetch pending due job i m (wk_exec K) S"
  shows "\<exists>K T. wk_run view registered (self_waking driver) resume job sched (n + d) K0 = Some K \<and>
     wk_inv view fetch pending due job th K T \<and> standing fetch pending due job i m (wk_exec K) T"
proof (induction d)
  case 0
  from run inv st show ?case by auto
next
  case (Suc d)
  then obtain K T where K: "wk_run view registered (self_waking driver) resume job sched (n + d) K0 = Some K"
    "wk_inv view fetch pending due job th K T" "standing fetch pending due job i m (wk_exec K) T" by blast
  from wk_any_step [OF os w con dev pat drv K(2), of "sched (n + d)"] obtain K' U where
    "wk_turn view registered (self_waking driver) resume job (sched (n + d)) K = Some K'"
    "wk_inv view fetch pending due job th K' U"
    "standing fetch pending due job i m (wk_exec K) T \<longrightarrow> standing fetch pending due job i m (wk_exec K') U"
    by blast
  with K show ?case by (intro exI [of _ K'] exI [of _ U]) simp
qed

lemma wk_standing_finishes:
  assumes os: "oneshot_spec os view" and w: "waker_spec os view registered"
    and con: "submit_contract submit release pending"
    and dev: "device_contract fetch release pending due" and pat: "submit_patient submit pending due"
    and drv: "drives view fetch pending due job th driver"
    and fair: "\<And>n. \<exists>m \<ge> n. sched m = DriverTurn" "\<And>n. \<exists>m \<ge> n. sched m = TaskTurn i"
    and "wk_run view registered (self_waking driver) resume job sched n K0 = Some K"
    and "wk_inv view fetch pending due job th K S" "standing fetch pending due job i m (wk_exec K) S"
  shows "\<exists>n K S r. wk_run view registered (self_waking driver) resume job sched n K0 = Some K \<and>
     wk_inv view fetch pending due job th K S \<and> ex_result (wk_exec K) i = Some r \<and> result_of fetch (job i) r"
  using assms(9-)
proof (induction m arbitrary: n K S)
  case 0
  from fair(2) [of n] obtain d where d: "sched (n + d) = TaskTurn i" by (auto simp: le_iff_add)
  from wk_advance [OF os w con dev pat drv 0, of d] obtain L T where
    L: "wk_run view registered (self_waking driver) resume job sched (n + d) K0 = Some L"
    "wk_inv view fetch pending due job th L T" "standing fetch pending due job i 0 (wk_exec L) T" by blast
  show ?case
  proof (cases "ex_result (wk_exec L) i")
    case (Some r)
    from L(3) have "(\<exists>r. ex_result (wk_exec L) i = Some r \<and> result_of fetch (job i) r) \<or>
        (\<exists>r. tasks T i = Some (Awaiting r))" by (auto simp: standing_def awaits_def)
    with Some simulatesD(2) [OF wk_invD(2) [OF L(2)], of i] L show ?thesis by auto
  next
    case None
    with L(3) obtain r where r: "tasks T i = Some (Awaiting r)" "told T (rx r) \<noteq> None"
      by (auto simp: standing_def awaits_def)
    note D = wk_invD [OF L(2)]
    from r(1) simulatesD(2) [OF D(2), of i] None awaiting_open [OF os con D(1) r(1)] r(2) is_open_eq [OF D(2)]
    have "ready view (wk_exec L) i" by (simp add: ready_def)
    with D(5) d have "wk_woken L (sched (n + d))" by simp
    from wk_step [OF os w con dev pat drv L(2) this] obtain M U where
      M: "wk_turn view registered (self_waking driver) resume job (sched (n + d)) L = Some M"
      "wk_inv view fetch pending due job th M U"
      "advances fetch pending due job (sched (n + d)) (wk_exec L) T (wk_exec M) U" .
    from advancesD(5) [OF M(3) d L(3)] L(1) M(1,2) show ?thesis
      by (intro exI [of _ "Suc (n + d)"] exI [of _ M] exI [of _ U]) auto
  qed
next
  case (Suc m)
  from fair(1) [of n] obtain d where d: "sched (n + d) = DriverTurn" by (auto simp: le_iff_add)
  from wk_advance [OF os w con dev pat drv Suc.prems, of d] obtain L T where
    L: "wk_run view registered (self_waking driver) resume job sched (n + d) K0 = Some L"
    "wk_inv view fetch pending due job th L T" "standing fetch pending due job i (Suc m) (wk_exec L) T" by blast
  from wk_invD(4) [OF L(2)] d have "wk_woken L (sched (n + d))" by simp
  from wk_step [OF os w con dev pat drv L(2) this] obtain M U where
    M: "wk_turn view registered (self_waking driver) resume job (sched (n + d)) L = Some M"
    "wk_inv view fetch pending due job th M U"
    "advances fetch pending due job (sched (n + d)) (wk_exec L) T (wk_exec M) U" .
  from L(1) M(1) have "wk_run view registered (self_waking driver) resume job sched (Suc (n + d)) K0 = Some M" by simp
  from Suc.IH [OF this M(2)] advancesD(4) [OF M(3) d L(3)] show ?case by simp
qed

lemma wk_finishes:
  assumes os: "oneshot_spec os view" and w: "waker_spec os view registered"
    and con: "submit_contract submit release pending"
    and dev: "device_contract fetch release pending due" and pat: "submit_patient submit pending due"
    and drv: "drives view fetch pending due job th driver"
    and s: "boxes_ok (sender_boxes s)" "cells (sender_boxes s) = Map.empty" "pending (dev s) = {}"
    and fair: "\<And>n. \<exists>m \<ge> n. sched m = DriverTurn" "\<And>n. \<exists>m \<ge> n. sched m = TaskTurn i"
  shows "\<exists>n K r. wk_run view registered (self_waking driver) resume job sched n (wk_start s) = Some K \<and>
     ex_result (wk_exec K) i = Some r \<and> result_of fetch (job i) r"
proof -
  from fair(2) [of 0] obtain n where n: "sched n = TaskTurn i" by blast
  from wk_safe [OF os w con dev pat drv s, of sched n] obtain K S where
    K: "wk_run view registered (self_waking driver) resume job sched n (wk_start s) = Some K"
    "wk_inv view fetch pending due job th K S" by blast
  note D = wk_invD [OF K(2)]
  have "\<exists>m L T. wk_run view registered (self_waking driver) resume job sched (Suc n) (wk_start s) = Some L \<and>
      wk_inv view fetch pending due job th L T \<and> standing fetch pending due job i m (wk_exec L) T"
  proof (cases "tasks S i")
    case None
    with simulatesD(2) [OF D(2), of i] D(5) n have "wk_woken K (sched n)" by (simp add: ready_def)
    from wk_step [OF os w con dev pat drv K(2) this] obtain L T where
      "wk_turn view registered (self_waking driver) resume job (sched n) K = Some L"
      "wk_inv view fetch pending due job th L T"
      "advances fetch pending due job (sched n) (wk_exec K) S (wk_exec L) T" .
    with K(1) advancesD(2) [OF this(3) None n] show ?thesis by auto
  next
    case (Some f)
    with D(3) [of i] obtain m where "standing fetch pending due job i m (wk_exec K) S" by auto
    from wk_advance [OF os w con dev pat drv K this, of 1] show ?thesis by (simp only: Suc_eq_plus1) blast
  qed
  with wk_standing_finishes [OF os w con dev pat drv fair] show ?thesis by blast
qed

end

section \<open>Block devices\<close>

text \<open>
  C10: An executor that polls only woken tasks, running \<open>spdk_poller\<close> beside any number of reads and writes
  of block devices, drives every one of them to its result, in whatever order it runs the woken tasks,
  as long as it comes back to each. A task is woken only by the waker that the channel of its request
  has registered, and because the receiver is polled with the task's own context that is the waker of
  this task: no wakeup is lost, and none is spurious, so each request is polled
  at most twice. No turn panics, is undefined or never ends, and the result is the code of the task's
  refused submission, or Ok or an I/O error as the device reported.
\<close>

theorem woken_executor_finishes:
  assumes "oneshot_spec os view" "waker_spec os view registered" "submit_contract (bdev_submit api) (bdev_release api) pending"
    and "device_contract fetch (bdev_release api) pending due" "submit_patient (bdev_submit api) pending due"
    and "k \<noteq> 0" "polls_device tapi th fetch (bdev_io_completion_cb os api) k"
    and "boxes_ok (sender_boxes s)" "cells (sender_boxes s) = Map.empty" "pending (dev s) = {}"
    and "\<And>n. \<exists>m \<ge> n. sched m = DriverTurn" "\<And>n. \<exists>m \<ge> n. sched m = TaskTurn i"
  shows "(\<forall>n. \<exists>K. wk_run view registered (waking_poller_turn tapi) (bdev_resume os api) job sched n (wk_start s) = Some K \<and>
       (\<forall>j. wk_polls K j \<le> 2 \<and> (wk_woken K (TaskTurn j) \<longleftrightarrow> ready view (wk_exec K) j))) \<and>
     (\<exists>n K r. wk_run view registered (waking_poller_turn tapi) (bdev_resume os api) job sched n (wk_start s) = Some K \<and>
       ex_result (wk_exec K) i = Some r \<and>
       ((\<exists>rc p w w'. bdev_submit api (job i) p w = ((rc, None), w') \<and> rc \<noteq> 0 \<and> r = Inl (Os rc)) \<or>
        (\<exists>io ok. (reported fetch (io, ok) \<or> (\<exists>p w w'. bdev_submit api (job i) p w = ((0, Some (io, ok)), w'))) \<and>
           r = (if ok then Inr () else Inl IoError))))"
proof (intro conjI allI)
  note drv = bdev_io.poller_drives [where job = job, OF assms(1,3,4,6,7)]
  fix n
  from bdev_io.wk_safe [OF assms(1-5) drv assms(8-10), of sched n] obtain K and S where
    K: "wk_run view registered (waking_poller_turn tapi) (bdev_resume os api) job sched n (wk_start s) = Some K"
    "bdev_io.wk_inv os api view fetch pending due job th K S" unfolding waking_poller by blast
  from bdev_io.wk_invD(5,6) [OF K(2)] K(1)
  show "\<exists>K. wk_run view registered (waking_poller_turn tapi) (bdev_resume os api) job sched n (wk_start s) = Some K \<and>
      (\<forall>j. wk_polls K j \<le> 2 \<and> (wk_woken K (TaskTurn j) \<longleftrightarrow> ready view (wk_exec K) j))"
    by (auto simp: polls_ok_def)
next
  note drv = bdev_io.poller_drives [where job = job, OF assms(1,3,4,6,7)]
  from bdev_io.wk_finishes [OF assms(1-5) drv assms(8-12)] obtain n K r where
    "wk_run view registered (waking_poller_turn tapi) (bdev_resume os api) job sched n (wk_start s) = Some K"
    "ex_result (wk_exec K) i = Some r" "bdev_io.result_of api fetch (job i) r" unfolding waking_poller by blast
  then show "\<exists>n K r. wk_run view registered (waking_poller_turn tapi) (bdev_resume os api) job sched n (wk_start s) = Some K \<and>
       ex_result (wk_exec K) i = Some r \<and>
       ((\<exists>rc p w w'. bdev_submit api (job i) p w = ((rc, None), w') \<and> rc \<noteq> 0 \<and> r = Inl (Os rc)) \<or>
        (\<exists>io ok. (reported fetch (io, ok) \<or> (\<exists>p w w'. bdev_submit api (job i) p w = ((0, Some (io, ok)), w'))) \<and>
           r = (if ok then Inr () else Inl IoError)))"
    unfolding bdev_io.result_of_def bdev_status by (intro exI conjI)
qed

theorem woken_executor_finishes_witness:
  "\<exists>n K. wk_run ref_view chan_waker (waking_poller_turn
         (device_thread 3 queue_fetch (bdev_io_completion_cb ref_oneshot queue_bdev) 32))
       (bdev_resume ref_oneshot queue_bdev)
       (\<lambda>i. BdevRead (BdevDesc 8) (IoChannel 9) \<lparr>buf_ptr = 16 + i, buf_len = 512\<rparr> 0)
       (\<lambda>n. if even n then DriverTurn else TaskTurn (n div 2 mod 5)) n
       (wk_start \<lparr>sender_boxes = no_boxes, chans = no_chans, dev = [], poll_cx = NoopWaker\<rparr>) = Some K \<and>
     ex_result (wk_exec K) 4 = Some (Inr ())"
proof -
  let ?s = "\<lparr>sender_boxes = no_boxes, chans = no_chans, dev = [], poll_cx = NoopWaker\<rparr> :: (io_result chan_store, ptr list) runtime"
  have s: "boxes_ok (sender_boxes ?s)" "cells (sender_boxes ?s) = Map.empty" "set (dev ?s) = {}"
    by (simp_all add: no_boxes_def boxes_ok_def)
  have n: "(32 :: nat) \<noteq> 0" "(3 :: ptr) \<noteq> null" by simp_all
  have ok: "ok" if "reported queue_fetch (io, ok)" for io ok
    using that by (auto simp: reported_def elim!: queue_fetch.elims)
  from woken_executor_finishes [OF ref_oneshot_spec ref_waker_spec queue_contracts(1) queue_due_contracts n(1)
      device_thread_polls [OF n(2)] s every_other] ok
  show ?thesis by (fastforce simp: queue_bdev_submit)
qed

end
