(* ===== verification/Spec2Isabelle.thy ===== *)
theory Spec2Isabelle
  imports Prelude RustStr PkgConf PkgConf_Correct PkgConf_Convert Errors Process Complete AsyncIo Dma Dispatch Thread Channel Bdev Thread_Correct NvmeTransport NvmeNs NvmeController Nvmf Nvmf_Correct Poller Event Env App Build
    BufferLife Blocking Executor Exchange Calls Network Lifecycle Handles NvmfRegistry Wakers
begin

text \<open>
  A verification development of the workspace: safe Rust wrappers around SPDK (the crate \<open>spdk-io\<close>), the
  bindings they call (\<open>spdk-io-sys\<close>), and the crate that turns the output of pkg-config into cargo
  directives (\<open>pkgconf\<close>).

  \<^bold>\<open>The program.\<close> \<open>pkgconf\<close> is used at build time only: the build script of \<open>spdk-io-sys\<close> probes SPDK with
  it, prints the link directives and runs bindgen. \<open>spdk-io\<close> is used at run time. An environment
  (\<open>env.rs\<close>) or an application (\<open>app.rs\<close>) brings SPDK up; SPDK threads (\<open>thread.rs\<close>) are polled by the OS
  thread that made them, by \<open>block_on\<close> (\<open>complete.rs\<close>) or by a poller task (\<open>poller.rs\<close>); messages
  (\<open>thread.rs\<close>) and events (\<open>event.rs\<close>) carry closures to other threads and cores. Block devices
  (\<open>bdev.rs\<close>), NVMe namespaces (\<open>nvme/\<close>) and NVMe-oF targets (\<open>nvmf/\<close>) are driven by asynchronous
  functions that all follow one protocol: make a completion pair, box the sender, give its raw pointer
  to SPDK with a C callback, and await the receiver; the callback takes the sender back and sends.

  \<^bold>\<open>How code corresponds to definitions.\<close> One theory models one source file or a small group of them,
  its definitions in the order of the code and with its names (with a prefix where names would clash:
  \<open>bdev_read\<close> is \<open>BdevDesc::read\<close>, \<open>ns_read\<close> is \<open>NvmeNamespace::read\<close>).

  \<^item> \<open>Prelude\<close>: machine words, pointers as natural numbers with 0 as null, \<open>Option\<close> and \<open>Poll\<close> helpers, the store of
    boxes that were turned into raw pointers, with the locale \<open>raw_store\<close> of its laws.
  \<^item> \<open>RustStr\<close>: what the source uses of the standard library's strings, paths, UTF-8 decoding and C
    strings. Strings are lists of bytes.
  \<^item> \<open>PkgConf\<close> models \<open>pkgconf/src/lib.rs\<close>; \<open>PkgConf_Correct\<close> proves the parser against the declarative
    \<open>flags_of\<close>; \<open>PkgConf_Convert\<close> proves the conversions, the compiler flags and \<open>probe\<close>.
  \<^item> \<open>Build\<close> models \<open>spdk-io-sys/build.rs\<close>.
  \<^item> \<open>Errors\<close> models \<open>error.rs\<close>. \<open>Process\<close> holds the state of the process: the static flags of the crate,
    the thread-local result of the attach callback, and the state of SPDK, and the locale \<open>guarded_init\<close>
    of initialisers behind a flag.
  \<^item> \<open>Complete\<close> models \<open>complete.rs\<close>. The oneshot channel comes from the \<open>futures\<close> crate: it is the
    parameter \<open>oneshot\<close>, its documented behaviour is \<open>oneshot_spec\<close> for values and \<open>waker_spec\<close> for the waker
    it registers when it is polled, and \<open>ref_oneshot\<close> fulfils both. A poll takes the waker of its context:
    the one of a task, or the one of \<open>block_on\<close>, which does nothing.
  \<^item> \<open>AsyncIo\<close> holds the state of an OS thread that runs such requests, the step relation \<open>io_step\<close> in
    which tasks are started, polled and cancelled and SPDK completes requests in any order, its
    invariant, and the locale \<open>io_protocol\<close>: what follows for every operation with the protocol.
  \<^item> \<open>Dma\<close> models \<open>dma.rs\<close>, \<open>Channel\<close> \<open>channel.rs\<close>, \<open>Bdev\<close> \<open>bdev.rs\<close>, \<open>NvmeTransport\<close>
    \<open>nvme/transport.rs\<close>, \<open>NvmeNs\<close> \<open>nvme/namespace.rs\<close> and \<open>nvme/qpair.rs\<close>, \<open>NvmeController\<close>
    \<open>nvme/controller.rs\<close> and \<open>nvme/opts.rs\<close>, \<open>Nvmf\<close> the files of \<open>nvmf/\<close>; \<open>Nvmf_Correct\<close> has its theorems.
  \<^item> \<open>Dispatch\<close> holds the closures on their way to another thread and the locale \<open>dispatch\<close> of queues
    that deliver them. \<open>Thread\<close> models \<open>thread.rs\<close> and \<open>Thread_Correct\<close> proves it; \<open>Event\<close> models
    \<open>event.rs\<close>; both instantiate \<open>dispatch\<close>.
  \<^item> \<open>Poller\<close> models \<open>poller.rs\<close>, \<open>Env\<close> \<open>env.rs\<close>, \<open>App\<close> \<open>app.rs\<close>.

  Ten theories compose components and model no file of their own.

  \<^item> \<open>BufferLife\<close>: requests of \<open>Bdev\<close> and \<open>NvmeNs\<close> with the allocator of \<open>Dma\<close>, under the rule that a
    buffer outlives the future that borrows it.
  \<^item> \<open>Blocking\<close>: requests under \<open>block_on\<close>, where polling the thread delivers completions of a device;
    \<open>Executor\<close>: any number of requests beside \<open>spdk_poller\<close>, or beside a task that polls a
    queue pair, on a single-threaded executor, which is a schedule of turns; \<open>Wakers\<close>: the same when
    only woken tasks are polled.
  \<^item> \<open>Exchange\<close>: the locale \<open>calling\<close> of calls to a target with a queue, histories of such calls and the
    caller that blocks on one; \<open>Calls\<close> interprets it for \<open>ThreadHandle::call\<close> and for
    \<open>SpdkEvent::call_on_async\<close>.
  \<^item> \<open>Network\<close>: all threads and cores with their queues in one state, and closures that send closures to
    them while they run, behind the locale \<open>mailboxes\<close>.
  \<^item> \<open>Lifecycle\<close>: whole runs of threads made and dropped against the thread library, of environments
    built and dropped, and what an application leaves behind.
  \<^item> \<open>Handles\<close>: whole runs of the handles of block devices (\<open>bdev_handles\<close>) and of NVMe (\<open>nvme_handles\<close>)
    against the descriptors, channels, controllers and queue pairs of SPDK.
  \<^item> \<open>NvmfRegistry\<close>: whole runs of targets and subsystems (\<open>nvmf_run\<close>) against a map from names to
    subsystems for each target.

  The functions of SPDK are not in the repository. Each component has a record of those it calls
  (\<open>thread_api\<close>, \<open>bdev_api\<close> and so on), over an abstract state of SPDK, and every definition takes the
  record as an argument. What a theorem needs of them is a named hypothesis (\<open>submit_contract\<close>: a pending
  context is one that was accepted and not yet completed; \<open>send_contract\<close>, \<open>event_contract\<close>, \<open>network_contract\<close>:
  an accepted message is queued once; \<open>dma_contract\<close>: a new block is not in use; \<open>device_contract\<close>: every request is
  completed once, in the end; \<open>thread_contract\<close>, \<open>env_contract\<close>, \<open>bdev_contract\<close>, \<open>attach_contract\<close>, \<open>qpair_contract\<close>:
  what SPDK counts and initialises; \<open>target_contract\<close>, \<open>create_contract\<close>, \<open>configure_contract\<close>: what it names, and
  that it destroys targets asynchronously), and
  each such theorem has a witness with concrete functions. Futures of \<open>async\<close> functions are state machines with one constructor for each
  suspension point; polling one returns the result, the future's new state and the state of the thread.

  \<^bold>\<open>Values for what can go wrong.\<close> An \<open>Err\<close> is \<open>Inl\<close>, an \<open>Ok\<close> is \<open>Inr\<close>. A panic is \<open>Panicked\<close> with its
  message, or \<open>None\<close> where the proofs show that there is none. Using a raw pointer that holds no box,
  which in Rust is undefined behaviour, is \<open>None\<close> too, so a theorem that a callback is not \<open>None\<close> is one
  of memory safety. A loop that does not end is \<open>None\<close> (\<open>partial_function\<close> and \<open>while_option\<close>); no
  definition carries fuel. The theorems about loops say after how many rounds they end, or that they do
  not (\<open>thread_drop_hangs\<close>). \<open>drive\<close> and \<open>iterate_cores\<close> run a number of polls and of calls of \<open>next\<close>;
  their theorems hold for every number at least the one needed. \<open>deliver\<close> takes at most a number of
  completions in one poll, any number but 0 will do; \<open>exec_run\<close> runs a number of turns of a schedule, and
  its theorem gives one after which the task has its result.

  \<^bold>\<open>What the lemmas show.\<close>
  \<^item> Parser: it never panics and equals its declarative reading; libraries are emitted once, with the
    link kind of the crate's table; more input never lowers a kind; compiler flags make a round trip;
    directives are unambiguous; the build script keeps the constructors of the forced libraries.
  \<^item> Asynchronous requests: under every interleaving, cancellation included, each callback finds its
    boxed sender, no poll panics, a request that was refused returns the code of its own refusal and any
    other what SPDK reported for it, and the boxes alive are those of the requests in flight and the leaked ones of refused
    submissions.
  \<^item> The buffer of a request in flight is alive unless its future was dropped early. Under \<open>block_on\<close>, and
    on every fair executor with the poller or with a task that polls the queue pair, each request returns.
    On an executor that polls only woken tasks too: the channel of a request wakes the task that polled
    it, so between two turns the woken requests are exactly those that polling would move on.
  \<^item> Closures sent to threads and cores run at most once, in the order sent, and their boxes are freed. A
    call awaited with \<open>block_on\<close> returns the closure's value, within a number of rounds given by the
    queue, whatever others send, call, poll and drop meanwhile. In a network of threads and cores each runs
    what was sent to it in order, also what running closures send, and in the end all of it.
  \<^item> Threads: initialisation happens once, also when OS threads race for it; dropping a thread ends when
    SPDK's thread exits and then finalises the library if it was the last one; joining gives the result.
    In every run the threads the program holds are SPDK's, the library is up as long as there is one, and
    there is at most one environment.
  \<^item> Handles: descriptors, channels, controllers and queue pairs are given back to SPDK exactly once, and
    none is used after that, as long as queue pairs are dropped before their controller; the controllers
    lost by a connect off an SPDK thread are counted. A target is a
    map from names to subsystems: what is found is what was created, and the handles kept after their
    target was dropped are of no target alive.
  \<^item> Polling loops (\<open>block_on\<close>, \<open>connect_async\<close>, the pollers, the application's \<open>run_async\<close>) end exactly
    when what they wait for happens, after a number of polls given in the theorem.
  \<^item> Environment and application: the options given to SPDK are its defaults with the builder's settings,
    what each error path leaves behind, and that the closure runs once.
  \<^item> Transport identifiers and fixed-size C arrays: bounds, truncation and round trips.

  \<^bold>\<open>Behaviour worth knowing\<close>, each stated by a theorem: a refused submission leaks its sender
  (\<open>Bdev\<close>, \<open>NvmeNs\<close>, \<open>Nvmf_Correct\<close>); a NUL byte in the environment's name blocks every later build
  (\<open>Env\<close>); a refused message leaks its closure and a call with it never returns
  (\<open>call_refused_hangs\<close>); a second OS thread may be told that the thread library is up while it is not
  (\<open>init_ok_too_early\<close>); the options of an NVMe controller are passed by a pointer that dangles
  (\<open>ctrlr_opts_applied\<close>); a subsystem whose options are refused stays in its target
  (\<open>create_subsystem_leaves\<close>); dropping the future of a read lets its buffer be freed under the device
  (\<open>dropped_read_dangles\<close>); an application leaves the thread library marked as initialised
  (\<open>app_leaves_flag\<close>); dropping the last thread races with making another (\<open>drop_races_with_current\<close>);
  dropping a controller frees the queue pairs its program still holds (\<open>early_drop_frees_qpairs\<close>); a
  connect off an SPDK thread loses a controller that was attached (\<open>connect_async_off_thread\<close>); forcing
  whole-archive does not override the detection of archives (\<open>PkgConf_Correct\<close>); \<open>-l:libx.so\<close> keeps its prefix (\<open>archive_name_shared\<close>).

  \<^bold>\<open>Not modelled.\<close> The generated bindings (\<open>spdk-io-sys/src/lib.rs\<close>), module files that only re-export,
  the template crate \<open>spdk-io-test\<close>, tests, packaging and infrastructure. Derived \<open>Debug\<close> output,
  the contents of DMA memory that devices write, weak memory (the flags are
  sequentially consistent in the code), and \<open>is_finished\<close> and \<open>thread\<close> of \<open>JoinHandle\<close>. A spawned thread is seen
  from the thread that joins it: it runs between \<open>spawn\<close> and \<open>join\<close>.

  \<^bold>\<open>Where it can grow.\<close> Closures that block on calls to other threads while they run; closures that
  panic (the process aborts, because they run in a C callback).
\<close>

end
